(* ===== verification/Py_Prelude.thy ===== *)
theory Py_Prelude
  imports Complex_Main "HOL-Library.AList" "HOL-Library.Char_ord" "HOL-Library.List_Lexorder"
begin

text \<open>
  What the Python sources use of the language and its standard library, and the generic lemmas
  the components share.

  Strings are lists of bytes (UTF-8, so that byte order is code point order and an ASCII literal
  is itself); Python integers are \<open>int\<close>; a \<open>float\<close> is a \<open>real\<close>, that is,
  arithmetic on it is exact: rounding errors, infinities and NaN are not modelled.  A
  \<open>dict\<close> is an association list in insertion order, updated with \<open>AList.update\<close> (an
  existing key keeps its place, a new key goes to the end), as Python's dictionaries are.
  An exception is a \<open>py_error\<close> in the left summand of a sum.
\<close>

section \<open>Types\<close>

type_synonym py_str = string
type_synonym py_float = real
type_synonym ('k, 'v) pydict = "('k \<times> 'v) list"

datatype py_error =
    IndexError
  | KeyError py_str
  | ValueError
  | TypeError
  | AttributeError py_str
  | ZeroDivisionError
  | RuntimeError py_str
  | TimeoutError py_str
  | ServiceError py_str
  | FileNotFoundError py_str
  | StopIteration

type_synonym 'a result = "py_error + 'a"

named_theorems py_defs \<open>definitions of the Python library functions\<close>
named_theorems model_defs \<open>definitions of the model's operations\<close>

section \<open>Sequencing fallible computations\<close>

definition bind_res :: "'a result \<Rightarrow> ('a \<Rightarrow> 'b result) \<Rightarrow> 'b result" where
  "bind_res r f = (case r of Inl e \<Rightarrow> Inl e | Inr x \<Rightarrow> f x)"

lemma bind_res_simps [simp]:
  "bind_res (Inl e) f = Inl e"
  "bind_res (Inr x) f = f x"
  by (simp_all add: bind_res_def)

lemma bind_res_eq_Inr [simp]:
  "bind_res r f = Inr y \<longleftrightarrow> (\<exists>x. r = Inr x \<and> f x = Inr y)"
  by (cases r) auto

fun map_res :: "('a \<Rightarrow> 'b result) \<Rightarrow> 'a list \<Rightarrow> 'b list result" where
  "map_res f [] = Inr []"
| "map_res f (x # xs) = bind_res (f x) (\<lambda>y. bind_res (map_res f xs) (\<lambda>ys. Inr (y # ys)))"

fun fold_res :: "('a \<Rightarrow> 's \<Rightarrow> 's result) \<Rightarrow> 'a list \<Rightarrow> 's \<Rightarrow> 's result" where
  "fold_res f [] s = Inr s"
| "fold_res f (x # xs) s = bind_res (f x s) (fold_res f xs)"

lemma fold_res_append:
  "fold_res f (xs @ ys) s = bind_res (fold_res f xs s) (fold_res f ys)"
proof (induction xs arbitrary: s)
  case (Cons x xs)
  then show ?case by (cases "f x s") auto
qed simp

lemma fold_res_Inr:
  "(\<And>x s. x \<in> set xs \<Longrightarrow> f x s = Inr (g x s)) \<Longrightarrow> fold_res f xs s = Inr (fold g xs s)"
  by (induction xs arbitrary: s) auto

lemma fold_res_total:
  assumes "\<And>x acc. x \<in> set xs \<Longrightarrow> \<exists>acc'. f x acc = Inr acc'"
  shows "\<exists>acc'. fold_res f xs acc = Inr acc'"
  using assms
proof (induction xs arbitrary: acc)
  case (Cons x xs)
  then obtain acc1 where "f x acc = Inr acc1" by force
  with Cons show ?case by simp
qed simp

lemma map_res_total:
  assumes "\<And>x. x \<in> set xs \<Longrightarrow> \<exists>y. f x = Inr y"
  shows "\<exists>ys. map_res f xs = Inr ys"
  using assms
proof (induction xs)
  case (Cons x xs)
  from Cons.prems [of x] obtain y where y: "f x = Inr y" by auto
  from Cons obtain ys where "map_res f xs = Inr ys" by auto
  with y show ?case by simp
qed simp

section \<open>Dictionaries in insertion order\<close>

abbreviation dget :: "('k, 'v) pydict \<Rightarrow> 'k \<Rightarrow> 'v option" where
  "dget d k \<equiv> map_of d k"

abbreviation dset :: "'k \<Rightarrow> 'v \<Rightarrow> ('k, 'v) pydict \<Rightarrow> ('k, 'v) pydict" where
  "dset k v d \<equiv> AList.update k v d"

definition dget_default :: "('k, 'v) pydict \<Rightarrow> 'k \<Rightarrow> 'v \<Rightarrow> 'v" where
  "dget_default d k v = (case dget d k of None \<Rightarrow> v | Some x \<Rightarrow> x)"

text \<open>An optional field with its default, as \<open>d.get(key, default)\<close> gives it.\<close>

definition get_or :: "'a option \<Rightarrow> 'a \<Rightarrow> 'a" where
  "get_or x d = (case x of None \<Rightarrow> d | Some v \<Rightarrow> v)"

text \<open>\<open>d.setdefault(k, []).append(x)\<close>\<close>

definition dappend :: "'k \<Rightarrow> 'v \<Rightarrow> ('k, 'v list) pydict \<Rightarrow> ('k, 'v list) pydict" where
  "dappend k x d = dset k (dget_default d k [] @ [x]) d"

text \<open>\<open>d[k] += n\<close> on a \<open>defaultdict(int)\<close>\<close>

definition dincr :: "'k \<Rightarrow> ('k, nat) pydict \<Rightarrow> ('k, nat) pydict" where
  "dincr k d = dset k (dget_default d k 0 + 1) d"

lemma dget_dset [simp]: "dget (dset k v d) k' = (if k' = k then Some v else dget d k')"
  by (simp add: update_conv)

lemma dget_default_dset [simp]:
  "dget_default (dset k v d) k' x = (if k' = k then v else dget_default d k' x)"
  by (simp add: dget_default_def)

lemma dget_default_dappend [simp]:
  "dget_default (dappend k x d) k' [] =
     (if k' = k then dget_default d k [] @ [x] else dget_default d k' [])"
  by (simp add: dappend_def)

lemma dget_default_dincr [simp]:
  "dget_default (dincr k d) k' 0 = (if k' = k then Suc (dget_default d k 0) else dget_default d k' 0)"
  by (simp add: dincr_def)

lemma dget_default_empty [simp]: "dget_default [] k x = x"
  by (simp add: dget_default_def)

lemma distinct_dset [simp]: "distinct (map fst d) \<Longrightarrow> distinct (map fst (dset k v d))"
  by (rule distinct_update)

lemma distinct_dappend [simp]: "distinct (map fst d) \<Longrightarrow> distinct (map fst (dappend k v d))"
  by (simp add: dappend_def)

lemma distinct_dincr [simp]: "distinct (map fst d) \<Longrightarrow> distinct (map fst (dincr k d))"
  by (simp add: dincr_def)

lemma keys_dset [simp]: "fst ` set (dset k v d) = insert k (fst ` set d)"
  by (induction d) auto

lemma keys_dappend [simp]: "fst ` set (dappend k v d) = insert k (fst ` set d)"
  by (simp add: dappend_def)

text \<open>Grouping with \<open>setdefault\<close> and \<open>append\<close> collects, per key, the matching elements in order.\<close>

definition group_by :: "('a \<Rightarrow> bool) \<Rightarrow> ('a \<Rightarrow> 'k) \<Rightarrow> ('a \<Rightarrow> 'v) \<Rightarrow> 'a list \<Rightarrow> ('k, 'v list) pydict" where
  "group_by P k v xs = fold (\<lambda>x d. if P x then dappend (k x) (v x) d else d) xs []"

lemma group_by_Nil [simp]: "group_by P k v [] = []"
  by (simp add: group_by_def)

lemma group_by_snoc [simp]:
  "group_by P k v (xs @ [x]) =
     (if P x then dappend (k x) (v x) (group_by P k v xs) else group_by P k v xs)"
  by (simp add: group_by_def)

lemma group_by_lookup:
  "dget_default (group_by P k v xs) key [] = map v (filter (\<lambda>x. P x \<and> k x = key) xs)"
  by (induction xs rule: rev_induct) auto

lemma group_by_distinct: "distinct (map fst (group_by P k v xs))"
  by (induction xs rule: rev_induct) auto

lemma group_by_item:
  assumes "(key, vs) \<in> set (group_by P k v xs)"
  shows "vs = map v (filter (\<lambda>x. P x \<and> k x = key) xs)"
proof -
  from assms group_by_distinct [of P k v xs] have "dget (group_by P k v xs) key = Some vs"
    by (simp add: map_of_is_SomeI)
  then have "dget_default (group_by P k v xs) key [] = vs" by (simp add: dget_default_def)
  then show ?thesis by (simp add: group_by_lookup)
qed

lemma group_by_keys: "fst ` set (group_by P k v xs) = k ` {x \<in> set xs. P x}"
  by (induction xs rule: rev_induct) auto

lemma group_by_items:
  "(key, vs) \<in> set (group_by P k v xs) \<longleftrightarrow>
     vs = map v (filter (\<lambda>x. P x \<and> k x = key) xs) \<and> vs \<noteq> []"
proof
  assume item: "(key, vs) \<in> set (group_by P k v xs)"
  then have "key \<in> k ` {x \<in> set xs. P x}" using group_by_keys [of P k v xs] by force
  with group_by_item [OF item]
  show "vs = map v (filter (\<lambda>x. P x \<and> k x = key) xs) \<and> vs \<noteq> []"
    by (auto simp: filter_empty_conv)
next
  assume vs: "vs = map v (filter (\<lambda>x. P x \<and> k x = key) xs) \<and> vs \<noteq> []"
  then have "key \<in> k ` {x \<in> set xs. P x}" by (auto simp: filter_empty_conv)
  then obtain us where us: "(key, us) \<in> set (group_by P k v xs)"
    using group_by_keys [of P k v xs] by force
  with group_by_item [OF us] vs show "(key, vs) \<in> set (group_by P k v xs)" by simp
qed

section \<open>Lists\<close>

lemma two_indices_of_filter:
  "1 < length (filter P xs) \<longleftrightarrow> (\<exists>i j. i < j \<and> j < length xs \<and> P (xs ! i) \<and> P (xs ! j))"
proof -
  have card: "length (filter P xs) = card {i. i < length xs \<and> P (xs ! i)}"
    by (rule length_filter_conv_card)
  have fin: "finite {i. i < length xs \<and> P (xs ! i)}" by simp
  show ?thesis
  proof
    assume "1 < length (filter P xs)"
    then obtain i j where "i \<in> {i. i < length xs \<and> P (xs ! i)}" "j \<in> {i. i < length xs \<and> P (xs ! i)}" "i \<noteq> j"
      unfolding card by (metis card_le_Suc0_iff_eq [OF fin] One_nat_def not_less)
    then show "\<exists>i j. i < j \<and> j < length xs \<and> P (xs ! i) \<and> P (xs ! j)"
      by (cases "i < j") (auto simp: not_less le_less)
  next
    assume "\<exists>i j. i < j \<and> j < length xs \<and> P (xs ! i) \<and> P (xs ! j)"
    then obtain i j where ij: "i < j" "j < length xs" "P (xs ! i)" "P (xs ! j)" by blast
    then have "{i, j} \<subseteq> {i. i < length xs \<and> P (xs ! i)}" by auto
    from card_mono [OF fin this] ij show "1 < length (filter P xs)" by (simp add: card)
  qed
qed

text \<open>\<open>[xs[i : i + n] for i in range(0, len(xs), n)]\<close>\<close>

definition chunks :: "nat \<Rightarrow> 'a list \<Rightarrow> 'a list list" where
  "chunks n xs = map (\<lambda>i. take n (drop (i * n) xs)) [0 ..< (length xs + n - 1) div n]"

lemma chunks_Nil [simp]: "chunks n [] = []"
  by (cases n) (simp_all add: chunks_def)

lemma chunks_Cons:
  assumes "0 < n" "xs \<noteq> []"
  shows "chunks n xs = take n xs # chunks n (drop n xs)"
proof -
  let ?m = "(length (drop n xs) + n - 1) div n"
  have "length xs + n - 1 = (length xs - 1) + n"
    using assms(2) by (cases xs) auto
  then have "(length xs + n - 1) div n = Suc ((length xs - 1) div n)"
    using assms(1) by (simp only: div_add_self2)
  also have "(length xs - 1) div n = ?m"
    using assms by (cases "length xs \<le> n") (auto simp: Suc_le_eq)
  finally have "(length xs + n - 1) div n = Suc ?m" .
  moreover have "[0 ..< Suc ?m] = 0 # map Suc [0 ..< ?m]" by (simp add: upt_conv_Cons map_Suc_upt)
  ultimately show ?thesis
    by (simp add: chunks_def add.commute del: upt_Suc)
qed

lemma chunks_induct [case_names pos Nil Cons]:
  assumes "0 < n" and "P []"
    and "\<And>xs. xs \<noteq> [] \<Longrightarrow> P (drop n xs) \<Longrightarrow> P xs"
  shows "P xs"
proof (induction xs rule: length_induct)
  case (1 xs)
  with assms show ?case by (cases "xs = []") auto
qed

lemma concat_chunks:
  assumes "0 < n"
  shows "concat (chunks n xs) = xs"
  by (rule chunks_induct [OF assms]) (auto simp: chunks_Cons assms)

lemma chunks_length:
  assumes "0 < n"
  shows "c \<in> set (chunks n xs) \<Longrightarrow> 0 < length c \<and> length c \<le> n"
proof (induction xs rule: chunks_induct [OF assms])
  case (2 xs)
  with assms show ?case by (auto simp: chunks_Cons)
qed simp

lemma length_chunks: "0 < n \<Longrightarrow> length (chunks n xs) = (length xs + n - 1) div n"
  by (simp add: chunks_def)

end
