(* ===== verification/Py_Strings.thy ===== *)
theory Py_Strings
  imports Py_Prelude
begin

text \<open>
  Python's string operations as the sources use them: decimal printing and \<open>int()\<close>,
  \<open>split\<close>, \<open>join\<close>, \<open>strip\<close>, \<open>endswith\<close>, substring tests, \<open>repr\<close> of a
  list of strings, slicing by code point, and fixed-point formatting.  The lemmas show that
  printing and parsing integers are inverse, and that \<open>split\<close> undoes \<open>join\<close>.
\<close>

section \<open>Decimal integers\<close>

definition digit :: "nat \<Rightarrow> char" where
  "digit d = char_of (48 + d)"

definition is_digit :: "char \<Rightarrow> bool" where
  "is_digit c \<longleftrightarrow> 48 \<le> (of_char c :: nat) \<and> (of_char c :: nat) \<le> 57"

definition digit_val :: "char \<Rightarrow> nat" where
  "digit_val c = of_char c - 48"

fun dec_nat :: "nat \<Rightarrow> py_str" where
  "dec_nat n = (if n < 10 then [digit n] else dec_nat (n div 10) @ [digit (n mod 10)])"

declare dec_nat.simps [simp del]

definition dec_int :: "int \<Rightarrow> py_str" where
  "dec_int i = (if i < 0 then CHR ''-'' # dec_nat (nat (- i)) else dec_nat (nat i))"

definition nat_of_digits :: "py_str \<Rightarrow> nat" where
  "nat_of_digits s = foldl (\<lambda>n c. 10 * n + digit_val c) 0 s"

lemma digit_val_digit [simp]: "d < 10 \<Longrightarrow> digit_val (digit d) = d"
  by (simp add: digit_val_def digit_def)

lemma is_digit_digit [simp]: "d < 10 \<Longrightarrow> is_digit (digit d)"
  by (simp add: is_digit_def digit_def)

lemma dec_nat_digits: "\<forall>c \<in> set (dec_nat n). is_digit c"
proof (induction n rule: dec_nat.induct)
  case (1 n)
  then show ?case by (subst dec_nat.simps) auto
qed

lemma dec_nat_not_Nil [simp]: "dec_nat n \<noteq> []"
  by (subst dec_nat.simps) simp

lemma nat_of_digits_snoc [simp]: "nat_of_digits (s @ [c]) = 10 * nat_of_digits s + digit_val c"
  by (simp add: nat_of_digits_def)

lemma nat_of_digits_dec_nat [simp]: "nat_of_digits (dec_nat n) = n"
proof (induction n rule: dec_nat.induct)
  case (1 n)
  show ?case
  proof (cases "n < 10")
    case True
    then show ?thesis by (simp add: dec_nat.simps [of n] nat_of_digits_def)
  next
    case False
    with 1 have "nat_of_digits (dec_nat (n div 10)) = n div 10" by simp
    with False show ?thesis by (simp add: dec_nat.simps [of n])
  qed
qed

lemma dec_nat_inject [simp]: "dec_nat m = dec_nat n \<longleftrightarrow> m = n"
  by (metis nat_of_digits_dec_nat)

lemma minus_not_digit [simp]: "\<not> is_digit CHR ''-''"
  by (simp add: is_digit_def)

lemma minus_notin_dec_nat [simp]: "CHR ''-'' \<notin> set (dec_nat n)"
  using dec_nat_digits minus_not_digit by blast

lemma hd_dec_nat [simp]: "hd (dec_nat n) \<noteq> CHR ''-''"
  by (metis minus_notin_dec_nat dec_nat_not_Nil hd_in_set)

lemma dec_int_inject [simp]: "dec_int i = dec_int j \<longleftrightarrow> i = j"
proof
  assume eq: "dec_int i = dec_int j"
  have "hd (dec_int i) = CHR ''-'' \<longleftrightarrow> i < 0" "hd (dec_int j) = CHR ''-'' \<longleftrightarrow> j < 0"
    by (simp_all add: dec_int_def)
  with eq have "i < 0 \<longleftrightarrow> j < 0" by simp
  with eq show "i = j" by (auto simp: dec_int_def split: if_splits)
qed simp

lemma dec_int_not_Nil [simp]: "dec_int i \<noteq> []"
  by (simp add: dec_int_def)

lemma set_dec_int: "c \<in> set (dec_int i) \<Longrightarrow> c = CHR ''-'' \<or> is_digit c"
  using dec_nat_digits by (auto simp: dec_int_def split: if_splits)

section \<open>Whitespace, strip and int()\<close>

definition is_space :: "char \<Rightarrow> bool" where
  "is_space c \<longleftrightarrow> (of_char c :: nat) \<in> {9, 10, 11, 12, 13, 28, 29, 30, 31, 32}"

definition strip :: "py_str \<Rightarrow> py_str" where
  "strip s = rev (dropWhile is_space (rev (dropWhile is_space s)))"

text \<open>
  \<open>int(s)\<close>: surrounding whitespace is dropped, then an optional sign and digits, with single
  underscores allowed between digits; anything else raises \<open>ValueError\<close>.
\<close>

fun digits_us :: "bool \<Rightarrow> py_str \<Rightarrow> bool" where
  "digits_us after [] = after"
| "digits_us after (c # cs) =
     (if is_digit c then digits_us True cs else after \<and> c = CHR ''_'' \<and> digits_us False cs)"

definition unsigned_of_str :: "py_str \<Rightarrow> nat result" where
  "unsigned_of_str s =
     (if digits_us False s then Inr (nat_of_digits (filter is_digit s)) else Inl ValueError)"

definition int_of_str :: "py_str \<Rightarrow> int result" where
  "int_of_str s0 =
     (let s = strip s0 in
      case s of
        [] \<Rightarrow> Inl ValueError
      | c # cs \<Rightarrow>
          if c = CHR ''-'' then bind_res (unsigned_of_str cs) (\<lambda>n. Inr (- int n))
          else if c = CHR ''+'' then bind_res (unsigned_of_str cs) (\<lambda>n. Inr (int n))
          else bind_res (unsigned_of_str s) (\<lambda>n. Inr (int n)))"

lemma digits_us_digits: "\<forall>c \<in> set s. is_digit c \<Longrightarrow> digits_us b s = (b \<or> s \<noteq> [])"
  by (induction s arbitrary: b) auto

lemma unsigned_of_str_dec_nat [simp]: "unsigned_of_str (dec_nat n) = Inr n"
proof -
  have "filter is_digit (dec_nat n) = dec_nat n"
    using dec_nat_digits by (simp add: filter_id_conv)
  then show ?thesis
    using digits_us_digits [OF dec_nat_digits] by (simp add: unsigned_of_str_def)
qed

lemma digit_not_space [simp]: "is_digit c \<Longrightarrow> \<not> is_space c"
  by (auto simp: is_digit_def is_space_def)

lemma minus_not_space [simp]: "\<not> is_space CHR ''-''"
  by (simp add: is_space_def)

lemma strip_no_space:
  assumes "\<forall>c \<in> set s. \<not> is_space c"
  shows "strip s = s"
proof -
  have "dropWhile is_space xs = xs" if "set xs = set s" for xs
    using assms that hd_in_set by (force simp: dropWhile_eq_self_iff)
  then have "dropWhile is_space s = s" "dropWhile is_space (rev s) = rev s" by simp_all
  then show ?thesis by (simp add: strip_def)
qed

lemma strip_dec_int [simp]: "strip (dec_int i) = dec_int i"
  by (rule strip_no_space) (auto dest!: set_dec_int)

lemma int_of_str_dec_int [simp]: "int_of_str (dec_int i) = Inr i"
proof (cases "i < 0")
  case True
  then have eq: "dec_int i = CHR ''-'' # dec_nat (nat (- i))" by (simp add: dec_int_def)
  with True show ?thesis using strip_dec_int [of i] by (simp add: int_of_str_def Let_def)
next
  case False
  then have eq: "dec_int i = dec_nat (nat i)" by (simp add: dec_int_def)
  obtain c cs where c: "dec_nat (nat i) = c # cs" by (cases "dec_nat (nat i)") auto
  then have "is_digit c" using dec_nat_digits [of "nat i"] by simp
  then have "c \<noteq> CHR ''-''" "c \<noteq> CHR ''+''" by (auto simp: is_digit_def)
  with False show ?thesis
    using strip_dec_int [of i] unsigned_of_str_dec_nat [of "nat i"]
    by (simp add: int_of_str_def Let_def eq c)
qed

section \<open>join, split, endswith and substrings\<close>

fun join :: "py_str \<Rightarrow> py_str list \<Rightarrow> py_str" where
  "join sep [] = []"
| "join sep [s] = s"
| "join sep (s # ss) = s @ sep @ join sep ss"

fun split_on :: "char \<Rightarrow> py_str \<Rightarrow> py_str list" where
  "split_on d [] = [[]]"
| "split_on d (c # cs) =
     (if c = d then [] # split_on d cs
      else case split_on d cs of [] \<Rightarrow> [[c]] | w # ws \<Rightarrow> (c # w) # ws)"

definition endswith :: "py_str \<Rightarrow> py_str \<Rightarrow> bool" where
  "endswith s suf \<longleftrightarrow> length suf \<le> length s \<and> drop (length s - length suf) s = suf"

fun startswith :: "py_str \<Rightarrow> py_str \<Rightarrow> bool" where
  "startswith s [] = True"
| "startswith [] (p # ps) = False"
| "startswith (c # cs) (p # ps) = (c = p \<and> startswith cs ps)"

fun contains :: "py_str \<Rightarrow> py_str \<Rightarrow> bool" where
  "contains s [] = True"
| "contains [] (p # ps) = False"
| "contains (c # cs) p = (startswith (c # cs) p \<or> contains cs p)"

lemma split_on_not_Nil [simp]: "split_on d s \<noteq> []"
  by (induction s) (auto split: list.splits)

lemma split_on_no_sep [simp]: "d \<notin> set s \<Longrightarrow> split_on d s = [s]"
  by (induction s) auto

lemma split_on_append_sep:
  "d \<notin> set s \<Longrightarrow> split_on d (s @ d # t) = s # split_on d t"
  by (induction s) auto

lemma split_on_join:
  "ss \<noteq> [] \<Longrightarrow> \<forall>s \<in> set ss. d \<notin> set s \<Longrightarrow> split_on d (join [d] ss) = ss"
  by (induction "[d]" ss rule: join.induct) (auto simp: split_on_append_sep)

lemma join_split_on: "join [d] (split_on d s) = s"
proof (induction s)
  case (Cons c s)
  obtain w ws where w: "split_on d s = w # ws" by (cases "split_on d s") auto
  with Cons show ?case by (cases ws) auto
qed simp

lemma split_on_no_sep_parts: "w \<in> set (split_on d s) \<Longrightarrow> d \<notin> set w"
proof (induction s arbitrary: w)
  case (Cons c s)
  obtain v vs where v: "split_on d s = v # vs" by (cases "split_on d s") auto
  with Cons show ?case by (auto split: if_splits)
qed simp

lemma join_inject:
  assumes "join [d] ss = join [d] ts" "ss \<noteq> []" "ts \<noteq> []"
    and "\<forall>s \<in> set ss. d \<notin> set s" "\<forall>t \<in> set ts. d \<notin> set t"
  shows "ss = ts"
  using assms by (metis split_on_join)

lemma endswith_iff: "endswith s suf \<longleftrightarrow> (\<exists>pre. s = pre @ suf)"
  by (auto simp: endswith_def) (metis append_take_drop_id)

lemma startswith_iff: "startswith s p \<longleftrightarrow> (\<exists>post. s = p @ post)"
  by (induction s p rule: startswith.induct) auto

lemma contains_iff: "contains s p \<longleftrightarrow> (\<exists>pre post. s = pre @ p @ post)"
proof (induction s p rule: contains.induct)
  case (3 c cs p ps)
  have "(\<exists>pre post. c # cs = pre @ (p # ps) @ post) \<longleftrightarrow>
        (\<exists>post. c # cs = (p # ps) @ post) \<or> (\<exists>pre post. cs = pre @ (p # ps) @ post)"
    by (metis Cons_eq_append_conv append_Cons)
  with 3 show ?case by (simp only: contains.simps startswith_iff)
qed auto

section \<open>repr of strings, slices by code point\<close>

definition hex_digit :: "nat \<Rightarrow> char" where
  "hex_digit n = (if n < 10 then digit n else char_of (87 + n))"

definition repr_char :: "char \<Rightarrow> char \<Rightarrow> py_str" where
  "repr_char q c =
     (let n = (of_char c :: nat) in
      if c = q \<or> n = 92 then [CHR 0x5C, c]
      else if n = 10 then [CHR 0x5C, CHR ''n'']
      else if n = 13 then [CHR 0x5C, CHR ''r'']
      else if n = 9 then [CHR 0x5C, CHR ''t'']
      else if n < 32 \<or> n = 127 then [CHR 0x5C, CHR ''x'', hex_digit (n div 16), hex_digit (n mod 16)]
      else [c])"

definition repr_str :: "py_str \<Rightarrow> py_str" where
  "repr_str s =
     (let q = (if CHR 0x27 \<in> set s \<and> CHR 0x22 \<notin> set s then CHR 0x22 else CHR 0x27)
      in q # concat (map (repr_char q) s) @ [q])"

definition repr_str_list :: "py_str list \<Rightarrow> py_str" where
  "repr_str_list ss = ''['' @ join '', '' (map repr_str ss) @ '']''"

definition is_cont_byte :: "char \<Rightarrow> bool" where
  "is_cont_byte c \<longleftrightarrow> 128 \<le> (of_char c :: nat) \<and> (of_char c :: nat) < 192"

definition cp_length :: "py_str \<Rightarrow> nat" where
  "cp_length s = length (filter (\<lambda>c. \<not> is_cont_byte c) s)"

text \<open>\<open>s[:n]\<close>: the bytes of the first \<open>n\<close> code points.\<close>

fun cp_take :: "nat \<Rightarrow> py_str \<Rightarrow> py_str" where
  "cp_take n [] = []"
| "cp_take n (c # cs) =
     (if is_cont_byte c then c # cp_take n cs
      else case n of 0 \<Rightarrow> [] | Suc m \<Rightarrow> c # cp_take m cs)"

lemma cp_length_cp_take: "cp_length (cp_take n s) \<le> n"
  by (induction n s rule: cp_take.induct) (auto simp: cp_length_def split: nat.splits)

lemma cp_take_prefix: "\<exists>t. s = cp_take n s @ t"
  by (induction n s rule: cp_take.induct) (auto split: nat.splits)

lemma cp_take_short: "cp_length s \<le> n \<Longrightarrow> cp_take n s = s"
  by (induction n s rule: cp_take.induct) (auto simp: cp_length_def split: nat.splits if_splits)

section \<open>Rounding and fixed-point formatting\<close>

text \<open>\<open>round(x)\<close> rounds a tie to the even integer; \<open>int(x)\<close> truncates towards zero.\<close>

definition py_round :: "real \<Rightarrow> int" where
  "py_round x =
     (let f = \<lfloor>x\<rfloor>; d = x - of_int f
      in if d < 1/2 then f else if 1/2 < d then f + 1 else if even f then f else f + 1)"

definition py_trunc :: "real \<Rightarrow> int" where
  "py_trunc x = (if x < 0 then \<lceil>x\<rceil> else \<lfloor>x\<rfloor>)"

definition fmt_fixed :: "nat \<Rightarrow> real \<Rightarrow> py_str" where
  "fmt_fixed k x =
     (let n = nat (py_round (\<bar>x\<bar> * 10 ^ k)); ip = n div 10 ^ k; fp = dec_nat (n mod 10 ^ k)
      in (if x < 0 then ''-'' else []) @ dec_nat ip @
         (if k = 0 then [] else ''.'' @ replicate (k - length fp) CHR ''0'' @ fp))"

lemma py_round_of_int [simp]: "py_round (of_int i) = i"
  by (simp add: py_round_def Let_def)

lemma py_round_bounds: "of_int (py_round x) \<le> x + 1/2" "x - 1/2 \<le> of_int (py_round x)"
  by (auto simp: py_round_def Let_def; linarith)+

lemma py_round_mono: "x \<le> y \<Longrightarrow> py_round x \<le> py_round y"
proof -
  assume le: "x \<le> y"
  show ?thesis
  proof (cases "\<lfloor>x\<rfloor> = \<lfloor>y\<rfloor>")
    case True
    with le show ?thesis by (auto simp: py_round_def Let_def)
  next
    case False
    with le have "\<lfloor>x\<rfloor> + 1 \<le> \<lfloor>y\<rfloor>" using floor_mono [OF le] by linarith
    then show ?thesis by (auto simp: py_round_def Let_def)
  qed
qed

lemma py_trunc_nonneg: "0 \<le> x \<Longrightarrow> py_trunc x = \<lfloor>x\<rfloor>"
  by (simp add: py_trunc_def)

lemma py_trunc_mono: "x \<le> y \<Longrightarrow> py_trunc x \<le> py_trunc y"
  by (auto simp: py_trunc_def ceiling_mono floor_mono) (meson ceiling_mono ceiling_zero le_floor_iff
      less_eq_real_def linorder_not_less of_int_0 order_trans ceiling_le_zero zero_le_floor)

end
