(* ===== verification/Observer_Config.thy ===== *)
theory Observer_Config
  imports Py_Strings
begin

text \<open>
  \<open>state-observer/config.py\<close>: \<open>Config\<close> and \<open>Config.from_env\<close>.  The process environment is a
  dictionary of strings.  \<open>float(s)\<close> is modelled with its whole literal grammar; a finite literal
  denotes its exact value (a Python float is the nearest double, and an exponent beyond the
  double range gives infinity or 0).
\<close>

section \<open>Reading a float\<close>

datatype py_float_value = Finite real | PosInf | NegInf | NaN

definition lower_char :: "char \<Rightarrow> char" where
  "lower_char c = (let n = of_char c :: nat in if 65 \<le> n \<and> n \<le> 90 then char_of (n + 32) else c)"

text \<open>A digit part that may be empty, as before or after the point.\<close>

definition opt_digits :: "py_str \<Rightarrow> nat result" where
  "opt_digits s = (if s = [] then Inr 0 else unsigned_of_str s)"

definition exponent_of_str :: "py_str \<Rightarrow> int result" where
  "exponent_of_str s =
     (case s of
        [] \<Rightarrow> Inl ValueError
      | c # cs \<Rightarrow>
          if c = CHR ''-'' then bind_res (unsigned_of_str cs) (\<lambda>n. Inr (- int n))
          else if c = CHR ''+'' then bind_res (unsigned_of_str cs) (\<lambda>n. Inr (int n))
          else bind_res (unsigned_of_str s) (\<lambda>n. Inr (int n)))"

definition mantissa_of_str :: "py_str \<Rightarrow> real result" where
  "mantissa_of_str s =
     (case split_on CHR ''.'' s of
        [ip] \<Rightarrow> bind_res (unsigned_of_str ip) (\<lambda>n. Inr (real n))
      | [ip, fp] \<Rightarrow>
          if ip = [] \<and> fp = [] then Inl ValueError
          else bind_res (opt_digits ip) (\<lambda>n. bind_res (opt_digits fp) (\<lambda>m.
                 Inr (real n + real m / 10 ^ length (filter is_digit fp))))
      | _ \<Rightarrow> Inl ValueError)"

definition float_unsigned :: "py_str \<Rightarrow> real result" where
  "float_unsigned s =
     (case split_on CHR ''e'' (map lower_char s) of
        [mant] \<Rightarrow> mantissa_of_str mant
      | [mant, ex] \<Rightarrow>
          bind_res (mantissa_of_str mant) (\<lambda>x. bind_res (exponent_of_str ex) (\<lambda>e. Inr (x * 10 powi e)))
      | _ \<Rightarrow> Inl ValueError)"

definition float_signed :: "bool \<Rightarrow> py_str \<Rightarrow> py_float_value result" where
  "float_signed neg s =
     (if map lower_char s = ''inf'' \<or> map lower_char s = ''infinity'' then Inr (if neg then NegInf else PosInf)
      else if map lower_char s = ''nan'' then Inr NaN
      else bind_res (float_unsigned s) (\<lambda>x. Inr (Finite (if neg then - x else x))))"

definition float_of_str :: "py_str \<Rightarrow> py_float_value result" where
  "float_of_str s0 =
     (let s = strip s0 in
      case s of
        [] \<Rightarrow> Inl ValueError
      | c # cs \<Rightarrow>
          if c = CHR ''-'' then float_signed True cs
          else if c = CHR ''+'' then float_signed False cs
          else float_signed False s)"

section \<open>Config\<close>

record config =
  coordinator_addrs :: "py_str list"
  peers_table :: py_str
  coordinator_node_ids :: "py_str list"
  poll_interval_s :: py_float_value
  cfg_cw_namespace :: py_str
  cw_publish_interval_s :: py_float_value
  prometheus_port :: int
  aws_region :: py_str
  sns_topic_arn :: py_str
  disable_cloudwatch :: bool
  cfg_disable_sns :: bool

type_synonym environ = "(py_str, py_str) pydict"

definition env_list :: "py_str \<Rightarrow> py_str list" where
  "env_list raw = filter (\<lambda>a. a \<noteq> []) (map strip (split_on CHR '','' raw))"

definition from_env :: "environ \<Rightarrow> config result" where
  "from_env e =
     (let addrs = env_list (dget_default e ''COORDINATOR_ADDRS'' ''localhost:8080'');
          node_ids = env_list (dget_default e ''COORDINATOR_NODE_IDS'' [])
      in bind_res (float_of_str (dget_default e ''POLL_INTERVAL_S'' ''2'')) (\<lambda>poll_s.
         bind_res (float_of_str (dget_default e ''CW_PUBLISH_INTERVAL_S'' ''60'')) (\<lambda>publish_s.
         bind_res (int_of_str (dget_default e ''PROMETHEUS_PORT'' ''9090'')) (\<lambda>port.
           Inr \<lparr>coordinator_addrs = addrs,
                peers_table = dget_default e ''PEERS_TABLE'' [],
                coordinator_node_ids = node_ids,
                poll_interval_s = poll_s,
                cfg_cw_namespace = dget_default e ''CW_NAMESPACE'' ''Driftless/Raft'',
                cw_publish_interval_s = publish_s,
                prometheus_port = port,
                aws_region = dget_default e ''AWS_REGION'' ''us-east-1'',
                sns_topic_arn = dget_default e ''SNS_TOPIC_ARN'' [],
                disable_cloudwatch = (dget_default e ''DISABLE_CLOUDWATCH'' ''0'' = ''1''),
                cfg_disable_sns = (dget_default e ''DISABLE_SNS'' ''0'' = ''1'')\<rparr>))))"

section \<open>Lemmas\<close>

lemma strip_all_space: "strip s = [] \<longleftrightarrow> (\<forall>c \<in> set s. is_space c)"
proof -
  have "dropWhile is_space s = [] \<longleftrightarrow> (\<forall>c \<in> set s. is_space c)"
    by (induction s) auto
  moreover have "strip s = [] \<longleftrightarrow> dropWhile is_space s = []"
  proof
    assume "strip s = []"
    then have all: "\<forall>c \<in> set (dropWhile is_space s). is_space c"
      by (auto simp: strip_def dropWhile_eq_Nil_conv)
    show "dropWhile is_space s = []"
    proof (rule ccontr)
      assume "dropWhile is_space s \<noteq> []"
      with all hd_dropWhile [of is_space s] show False using hd_in_set by blast
    qed
  qed (auto simp: strip_def dest: set_dropWhileD)
  ultimately show ?thesis by simp
qed

lemma set_strip: "set (strip s) \<subseteq> set s"
proof -
  have "set (strip s) \<subseteq> set (dropWhile is_space s)"
    unfolding strip_def using set_dropWhileD by fastforce
  then show ?thesis using set_dropWhileD by fastforce
qed

lemma env_list_entries:
  "a \<in> set (env_list raw) \<Longrightarrow> a \<noteq> [] \<and> CHR '','' \<notin> set a"
  unfolding env_list_def using set_strip split_on_no_sep_parts by fastforce

definition clean_entry :: "py_str \<Rightarrow> bool" where
  "clean_entry a \<longleftrightarrow> a \<noteq> [] \<and> list_all (\<lambda>c. \<not> is_space c \<and> c \<noteq> CHR '','') a"

lemma env_list_join:
  assumes "list_all clean_entry as"
  shows "env_list (join '','' as) = as"
proof (cases as)
  case Nil
  then show ?thesis by (simp add: env_list_def strip_def)
next
  case (Cons a bs)
  have nosep: "\<forall>x \<in> set as. CHR '','' \<notin> set x"
    using assms by (auto simp: list_all_iff clean_entry_def)
  have st: "strip x = x \<and> x \<noteq> []" if "x \<in> set as" for x
    using assms that by (auto simp: list_all_iff clean_entry_def intro!: strip_no_space)
  have "split_on CHR '','' (join '','' as) = as"
    using split_on_join [of as "CHR '',''"] nosep Cons by simp
  moreover have "map strip as = as" using st by (simp add: map_idI)
  ultimately show ?thesis using st by (simp add: env_list_def)
qed

lemma unsigned_of_str_error: "unsigned_of_str s = Inl err \<Longrightarrow> err = ValueError"
  by (simp add: unsigned_of_str_def split: if_splits)

lemma bind_res_error:
  "bind_res r f = Inl err \<Longrightarrow> (r = Inl err \<Longrightarrow> P) \<Longrightarrow> (\<And>x. r = Inr x \<Longrightarrow> f x = Inl err \<Longrightarrow> P) \<Longrightarrow> P"
  by (cases r) auto

lemma int_of_str_error: "int_of_str s = Inl err \<Longrightarrow> err = ValueError"
  by (auto simp: int_of_str_def Let_def split: list.splits if_splits elim!: bind_res_error dest: unsigned_of_str_error)

lemma mantissa_of_str_error: "mantissa_of_str s = Inl err \<Longrightarrow> err = ValueError"
  by (auto simp: mantissa_of_str_def opt_digits_def split: list.splits if_splits
      elim!: bind_res_error dest: unsigned_of_str_error)

lemma exponent_of_str_error: "exponent_of_str s = Inl err \<Longrightarrow> err = ValueError"
  by (auto simp: exponent_of_str_def split: list.splits if_splits elim!: bind_res_error dest: unsigned_of_str_error)

lemma float_unsigned_error: "float_unsigned s = Inl err \<Longrightarrow> err = ValueError"
  by (auto simp: float_unsigned_def split: list.splits elim!: bind_res_error
      dest: mantissa_of_str_error exponent_of_str_error)

lemma float_of_str_error: "float_of_str s = Inl err \<Longrightarrow> err = ValueError"
  by (auto simp: float_of_str_def float_signed_def Let_def split: list.splits if_splits elim!: bind_res_error
      dest: float_unsigned_error)

lemma default_numbers:
  "float_of_str ''2'' = Inr (Finite 2)" "float_of_str ''60'' = Inr (Finite 60)" "int_of_str ''9090'' = Inr 9090"
  by (simp_all add: float_of_str_def float_signed_def float_unsigned_def mantissa_of_str_def int_of_str_def
      unsigned_of_str_def nat_of_digits_def digit_val_def strip_def is_space_def is_digit_def lower_char_def)

lemma from_env_default:
  "from_env [] = Inr \<lparr>coordinator_addrs = [''localhost:8080''], peers_table = [], coordinator_node_ids = [],
     poll_interval_s = Finite 2, cfg_cw_namespace = ''Driftless/Raft'', cw_publish_interval_s = Finite 60,
     prometheus_port = 9090, aws_region = ''us-east-1'', sns_topic_arn = [], disable_cloudwatch = False,
     cfg_disable_sns = False\<rparr>"
proof -
  have "strip ''localhost:8080'' = ''localhost:8080''" "strip [] = []"
    by (simp_all add: strip_def is_space_def)
  then show ?thesis by (simp add: from_env_def env_list_def default_numbers)
qed

section \<open>Properties\<close>

text \<open>
  Reading the configuration.  \<open>from_env\<close> fails exactly when one of the three numbers does not
  parse, always with \<open>ValueError\<close>; a configuration it returns has no blank address or node id
  and no comma in one, and lists joined with commas (of entries without blanks and commas) are
  read back as they are; with an empty environment it is the documented default.
\<close>

theorem from_env_correct:
  "(case from_env e of
      Inl err \<Rightarrow> err = ValueError \<and>
        (isl (float_of_str (dget_default e ''POLL_INTERVAL_S'' ''2'')) \<or>
         isl (float_of_str (dget_default e ''CW_PUBLISH_INTERVAL_S'' ''60'')) \<or>
         isl (int_of_str (dget_default e ''PROMETHEUS_PORT'' ''9090'')))
    | Inr cfg \<Rightarrow>
        float_of_str (dget_default e ''POLL_INTERVAL_S'' ''2'') = Inr (poll_interval_s cfg) \<and>
        float_of_str (dget_default e ''CW_PUBLISH_INTERVAL_S'' ''60'') = Inr (cw_publish_interval_s cfg) \<and>
        int_of_str (dget_default e ''PROMETHEUS_PORT'' ''9090'') = Inr (prometheus_port cfg) \<and>
        set (coordinator_addrs cfg @ coordinator_node_ids cfg) \<subseteq> {a. a \<noteq> [] \<and> CHR '','' \<notin> set a} \<and>
        {as. list_all clean_entry as \<and> dget e ''COORDINATOR_ADDRS'' = Some (join '','' as)} \<subseteq> {coordinator_addrs cfg} \<and>
        {ids. list_all clean_entry ids \<and> dget e ''COORDINATOR_NODE_IDS'' = Some (join '','' ids)} \<subseteq> {coordinator_node_ids cfg}) \<and>
   from_env [] = Inr \<lparr>coordinator_addrs = [''localhost:8080''], peers_table = [], coordinator_node_ids = [],
     poll_interval_s = Finite 2, cfg_cw_namespace = ''Driftless/Raft'', cw_publish_interval_s = Finite 60,
     prometheus_port = 9090, aws_region = ''us-east-1'', sns_topic_arn = [], disable_cloudwatch = False,
     cfg_disable_sns = False\<rparr>"
proof -
  have verr: "float_of_str s = Inl err \<Longrightarrow> err = ValueError" "int_of_str s = Inl err \<Longrightarrow> err = ValueError" for s err
    using float_of_str_error int_of_str_error by blast+
  note lists = dget_default_def [of e "''COORDINATOR_ADDRS''"] dget_default_def [of e "''COORDINATOR_NODE_IDS''"]
  show ?thesis
    unfolding from_env_default unfolding from_env_def Let_def bind_res_def
    by (simp split: sum.splits add: lists) (use verr env_list_entries env_list_join in \<open>fastforce\<close>)
qed

end
