(* ===== verification/Raft_Client.thy ===== *)
theory Raft_Client
  imports Py_Strings
begin

text \<open>
  \<open>state-observer/raft_client.py\<close>: the parsed view of one coordinator (\<open>NodeState\<close>), the
  snapshot of one poll round (\<open>ClusterSnapshot\<close>) and the client that polls every coordinator
  (\<open>RaftClusterClient\<close>).  The JSON document of \<open>GET /state\<close> is a record whose fields are
  optional (\<open>d.get(key)\<close> is \<open>None\<close> for an absent key) and have the types the coordinator
  encodes (\<open>NodeSnapshot\<close> in \<open>raft/node.go\<close>).  The HTTP exchange itself is a parameter:
  it gives a document or the text of the exception that \<open>get\<close>, \<open>raise_for_status\<close> or
  \<open>json\<close> raised.
\<close>

section \<open>Data\<close>

record state_doc =
  d_node_id :: "py_str option"
  d_state :: "py_str option"
  d_current_term :: "int option"
  d_voted_for :: "py_str option"
  d_commit_index :: "int option"
  d_last_applied :: "int option"
  d_log_length :: "int option"
  d_match_index :: "(py_str, int) pydict option"
  d_next_index :: "(py_str, int) pydict option"

record node_state =
  node_id :: py_str
  role_state :: py_str
  current_term :: int
  voted_for :: py_str
  commit_index :: int
  last_applied :: int
  log_length :: int
  match_index :: "(py_str, int) pydict option"
  next_index :: "(py_str, int) pydict option"
  node_addr :: py_str
  reachable :: bool
  node_error :: "py_str option"
  polled_at :: real

record cluster_snapshot =
  nodes :: "node_state list"
  snap_polled_at :: real

section \<open>NodeState\<close>

definition from_dict :: "state_doc \<Rightarrow> py_str \<Rightarrow> real \<Rightarrow> node_state" where
  "from_dict d a t =
     \<lparr>node_id = get_or (d_node_id d) a,
      role_state = get_or (d_state d) ''unknown'',
      current_term = get_or (d_current_term d) 0,
      voted_for = get_or (d_voted_for d) [],
      commit_index = get_or (d_commit_index d) 0,
      last_applied = get_or (d_last_applied d) 0,
      log_length = get_or (d_log_length d) 0,
      match_index = d_match_index d,
      next_index = d_next_index d,
      node_addr = a, reachable = True, node_error = None, polled_at = t\<rparr>"

definition unreachable :: "py_str \<Rightarrow> py_str \<Rightarrow> real \<Rightarrow> node_state" where
  "unreachable a err t =
     \<lparr>node_id = a, role_state = ''unreachable'', current_term = 0, voted_for = [],
      commit_index = 0, last_applied = 0, log_length = 0, match_index = None, next_index = None,
      node_addr = a, reachable = False, node_error = Some err, polled_at = t\<rparr>"

definition is_leader :: "node_state \<Rightarrow> bool" where
  "is_leader n \<longleftrightarrow> role_state n = ''leader''"

definition replication_lags :: "node_state \<Rightarrow> (py_str, int) pydict" where
  "replication_lags n =
     (case match_index n of
        None \<Rightarrow> []
      | Some m \<Rightarrow>
          if \<not> is_leader n \<or> m = [] then []
          else map (\<lambda>(peer, match). (peer, max 0 (commit_index n - match))) m)"

section \<open>ClusterSnapshot\<close>

definition leaders :: "cluster_snapshot \<Rightarrow> node_state list" where
  "leaders snap = filter is_leader (nodes snap)"

definition reachable_count :: "cluster_snapshot \<Rightarrow> nat" where
  "reachable_count snap = length (filter reachable (nodes snap))"

definition leader :: "cluster_snapshot \<Rightarrow> node_state option" where
  "leader snap = (case leaders snap of [n] \<Rightarrow> Some n | _ \<Rightarrow> None)"

definition snap_current_term :: "cluster_snapshot \<Rightarrow> int" where
  "snap_current_term snap =
     (case map current_term (filter reachable (nodes snap)) of
        [] \<Rightarrow> 0 | t # ts \<Rightarrow> fold max ts t)"

definition leaders_by_term :: "cluster_snapshot \<Rightarrow> (int, py_str list) pydict" where
  "leaders_by_term snap = group_by is_leader current_term node_id (nodes snap)"

definition split_brain_message :: "cluster_snapshot \<Rightarrow> py_str option" where
  "split_brain_message snap =
     (case find (\<lambda>(term, ls). 1 < length ls) (leaders_by_term snap) of
        None \<Rightarrow> None
      | Some (term, ls) \<Rightarrow>
          Some (''SPLIT-BRAIN DETECTED: term='' @ dec_int term @ '' multiple leaders: '' @
                join '', '' (sort ls)))"

section \<open>RaftClusterClient\<close>

text \<open>
  The polls of one round run concurrently and each reads the clock when it builds its
  \<open>NodeState\<close>, so the reading for the \<open>i\<close>-th address is any value \<open>clk i\<close>;
  \<open>asyncio.gather\<close> returns the results in the order of the addresses.
\<close>

definition state_url :: "py_str \<Rightarrow> py_str" where
  "state_url a = ''http://'' @ a @ ''/state''"

definition poll_one :: "(py_str \<Rightarrow> py_str + state_doc) \<Rightarrow> real \<Rightarrow> py_str \<Rightarrow> node_state" where
  "poll_one http t a =
     (case http (state_url a) of
        Inl exc \<Rightarrow> unreachable a exc t
      | Inr doc \<Rightarrow> from_dict doc a t)"

definition poll :: "(py_str \<Rightarrow> py_str + state_doc) \<Rightarrow> (nat \<Rightarrow> real) \<Rightarrow> py_str list \<Rightarrow> cluster_snapshot" where
  "poll http clk addrs =
     \<lparr>nodes = map (\<lambda>i. poll_one http (clk i) (addrs ! i)) [0 ..< length addrs],
      snap_polled_at = clk (length addrs)\<rparr>"

section \<open>Shared lemmas\<close>

lemma unreachable_simps [simp]:
  "is_leader (unreachable a e t) = False" "reachable (unreachable a e t) = False"
  "node_id (unreachable a e t) = a" "node_addr (unreachable a e t) = a"
  "current_term (unreachable a e t) = 0" "replication_lags (unreachable a e t) = []"
  by (simp_all add: unreachable_def is_leader_def replication_lags_def)

lemma from_dict_simps [simp]:
  "reachable (from_dict d a t)" "node_addr (from_dict d a t) = a"
  "node_id (from_dict d a t) = get_or (d_node_id d) a"
  "current_term (from_dict d a t) = get_or (d_current_term d) 0"
  "commit_index (from_dict d a t) = get_or (d_commit_index d) 0"
  "is_leader (from_dict d a t) = (d_state d = Some ''leader'')"
  by (simp_all add: from_dict_def is_leader_def get_or_def split: option.splits)

lemma leaders_by_term_items:
  "(term, ls) \<in> set (leaders_by_term snap) \<longleftrightarrow>
     ls = map node_id (filter (\<lambda>n. is_leader n \<and> current_term n = term) (nodes snap)) \<and> ls \<noteq> []"
  by (simp add: leaders_by_term_def group_by_items)

lemma leaders_by_term_distinct [simp]: "distinct (map fst (leaders_by_term snap))"
  by (simp add: leaders_by_term_def group_by_distinct)

lemma find_SomeD: "find P xs = Some x \<Longrightarrow> x \<in> set xs \<and> P x"
  by (induction xs) (auto split: if_splits)

lemma poll_one_simps [simp]:
  "node_addr (poll_one http t a) = a" "reachable (poll_one http t a) = (\<not> isl (http (state_url a)))"
  by (auto simp: poll_one_def split: sum.splits)

lemma poll_one_Inr: "http (state_url a) = Inr doc \<Longrightarrow> poll_one http t a = from_dict doc a t"
  by (simp add: poll_one_def)

lemma poll_one_leader:
  "is_leader (poll_one http t a) \<longleftrightarrow>
     (\<exists>doc. http (state_url a) = Inr doc \<and> d_state doc = Some ''leader'' \<and> poll_one http t a = from_dict doc a t)"
  by (auto simp: poll_one_def split: sum.splits)

lemma find_None_set: "find P xs = None \<longleftrightarrow> \<not> (\<exists>x \<in> set xs. P x)"
  by (auto simp: find_None_iff)

definition split_brain :: "cluster_snapshot \<Rightarrow> bool" where
  "split_brain snap \<longleftrightarrow>
     (\<exists>i j. i < j \<and> j < length (nodes snap) \<and> is_leader (nodes snap ! i) \<and> is_leader (nodes snap ! j) \<and>
            current_term (nodes snap ! i) = current_term (nodes snap ! j))"

lemma split_brain_items:
  "split_brain snap \<longleftrightarrow> (\<exists>term ls. (term, ls) \<in> set (leaders_by_term snap) \<and> 1 < length ls)"
proof -
  have "split_brain snap \<longleftrightarrow>
      (\<exists>term. 1 < length (filter (\<lambda>n. is_leader n \<and> current_term n = term) (nodes snap)))"
    unfolding split_brain_def two_indices_of_filter by fastforce
  moreover have "(t, ls) \<in> set (leaders_by_term snap) \<and> 1 < length ls \<longleftrightarrow>
      ls = map node_id (filter (\<lambda>n. is_leader n \<and> current_term n = t) (nodes snap)) \<and> 1 < length ls"
    for t ls
    by (auto simp: leaders_by_term_items)
  ultimately show ?thesis by simp
qed

lemma split_brain_message_None: "split_brain_message snap = None \<longleftrightarrow> \<not> split_brain snap"
proof -
  have "split_brain_message snap = None \<longleftrightarrow>
      find (\<lambda>(term, ls). 1 < length ls) (leaders_by_term snap) = None"
    by (simp add: split_brain_message_def split: option.splits)
  then show ?thesis by (auto simp: find_None_set split_brain_items)
qed

lemma leader_Some: "leader snap = Some n \<longleftrightarrow> leaders snap = [n]"
  by (auto simp: leader_def split: list.splits)

lemma split_brain_no_leader:
  assumes "split_brain snap"
  shows "leader snap = None"
proof -
  from assms have "1 < length (leaders snap)"
    unfolding split_brain_def leaders_def two_indices_of_filter by blast
  then show ?thesis by (auto simp: leader_def split: list.splits)
qed

lemma fold_max_ge: "(m :: int) \<le> fold max ts m \<and> (\<forall>t \<in> set ts. t \<le> fold max ts m)"
  by (induction ts arbitrary: m) (auto, (meson max.boundedE)+)

lemma fold_max_in: "fold max ts (m :: int) \<in> insert m (set ts)"
  by (induction ts arbitrary: m) (auto simp: max_def)

section \<open>Properties\<close>

text \<open>
  C3: split-brain detection is sound and complete.  \<open>split_brain_message\<close> returns \<open>None\<close>
  exactly when no two nodes of the snapshot report to be leader in the same term; otherwise its
  message names a term in which two or more nodes lead and lists all of them, sorted.
\<close>

theorem split_brain_message_correct:
  "case split_brain_message snap of
     None \<Rightarrow> \<not> split_brain snap
   | Some msg \<Rightarrow> split_brain snap \<and>
       (\<exists>t. let ls = filter (\<lambda>n. is_leader n \<and> current_term n = t) (nodes snap) in
          1 < length ls \<and>
          msg = ''SPLIT-BRAIN DETECTED: term='' @ dec_int t @ '' multiple leaders: '' @
                join '', '' (sort (map node_id ls)))"
proof (cases "split_brain_message snap")
  case None
  then show ?thesis using split_brain_message_None [of snap] by simp
next
  case (Some msg)
  then obtain t ls where
    f: "find (\<lambda>(term, ls). 1 < length ls) (leaders_by_term snap) = Some (t, ls)" and
    msg: "msg = ''SPLIT-BRAIN DETECTED: term='' @ dec_int t @ '' multiple leaders: '' @ join '', '' (sort ls)"
    by (auto simp: split_brain_message_def split: option.splits)
  from f have item: "(t, ls) \<in> set (leaders_by_term snap)" and len: "1 < length ls"
    by (auto dest: find_SomeD)
  from Some have "split_brain snap" using split_brain_message_None [of snap] by simp
  with Some msg len item show ?thesis
    unfolding leaders_by_term_items Let_def by (auto intro!: exI [of _ t])
qed

text \<open>
  \<open>leader\<close> is the one node that claims to lead: it is \<open>Some n\<close> exactly when exactly one
  position of the snapshot holds a node in state "leader", and then \<open>n\<close> is that node.  In
  particular it is \<open>None\<close> under split-brain.
\<close>

theorem leader_unique:
  "leader snap = Some n \<longleftrightarrow>
     (\<exists>i < length (nodes snap). nodes snap ! i = n \<and> is_leader n \<and>
        {j. j < length (nodes snap) \<and> is_leader (nodes snap ! j)} = {i})"
proof -
  let ?S = "{j. j < length (nodes snap) \<and> is_leader (nodes snap ! j)}"
  have len: "length (leaders snap) = card ?S"
    by (simp add: leaders_def length_filter_conv_card)
  have "leaders snap = [n] \<longleftrightarrow> length (leaders snap) = 1 \<and> n \<in> set (leaders snap)"
    by (cases "leaders snap" rule: list.exhaust) (auto simp: length_Suc_conv)
  also have "n \<in> set (leaders snap) \<longleftrightarrow> (\<exists>i < length (nodes snap). nodes snap ! i = n \<and> is_leader n)"
    by (auto simp: leaders_def in_set_conv_nth)
  finally have eq: "leader snap = Some n \<longleftrightarrow> (\<exists>x. ?S = {x}) \<and> (\<exists>i < length (nodes snap). nodes snap ! i = n \<and> is_leader n)"
    unfolding leader_Some len by (simp add: card_1_singleton_iff)
  have "?S = {x} \<Longrightarrow> i < length (nodes snap) \<Longrightarrow> is_leader (nodes snap ! i) \<Longrightarrow> ?S = {i}" for x i
    by (metis (mono_tags, lifting) mem_Collect_eq singletonD)
  with eq show ?thesis by blast
qed

text \<open>
  One poll round accounts for every coordinator and never raises.  The snapshot has one entry
  per address, in order; \<open>reachable_count\<close> is the number of addresses whose HTTP exchange
  succeeded; and every leader in it comes from a document that says "leader", so a coordinator that
  cannot be reached never counts as leader.
\<close>

theorem poll_accounts_for_all:
  "map node_addr (nodes (poll http clk addrs)) = addrs \<and>
   reachable_count (poll http clk addrs) = length (filter (\<lambda>a. \<not> isl (http (state_url a))) addrs) \<and>
   (\<forall>n. n \<in> set (leaders (poll http clk addrs)) \<longleftrightarrow>
      (\<exists>i doc. i < length addrs \<and> http (state_url (addrs ! i)) = Inr doc \<and>
         d_state doc = Some ''leader'' \<and> n = from_dict doc (addrs ! i) (clk i)))"
proof (intro conjI allI)
  show "map node_addr (nodes (poll http clk addrs)) = addrs"
    by (simp add: poll_def comp_def map_nth)
  have "map reachable (nodes (poll http clk addrs)) = map (\<lambda>a. \<not> isl (http (state_url a))) addrs"
    by (rule nth_equalityI) (simp_all add: poll_def)
  then have "length (filter id (map reachable (nodes (poll http clk addrs)))) =
      length (filter id (map (\<lambda>a. \<not> isl (http (state_url a))) addrs))" by simp
  then show "reachable_count (poll http clk addrs) = length (filter (\<lambda>a. \<not> isl (http (state_url a))) addrs)"
    by (simp add: reachable_count_def filter_map comp_def)
  fix n
  show "n \<in> set (leaders (poll http clk addrs)) \<longleftrightarrow>
      (\<exists>i doc. i < length addrs \<and> http (state_url (addrs ! i)) = Inr doc \<and>
         d_state doc = Some ''leader'' \<and> n = from_dict doc (addrs ! i) (clk i))"
    by (auto simp: leaders_def poll_def poll_one_leader image_iff) (metis atLeastLessThan_iff le0 poll_one_Inr)
qed

text \<open>
  Replication lag is never negative and is exact: it is reported only by a leader, for exactly
  the peers of \<open>match_index\<close>, and equals \<open>commit_index - match_index[peer]\<close> when the peer
  is behind and 0 when the peer's match index has reached the commit index.
\<close>

theorem replication_lags_correct:
  "dget (replication_lags n) peer = Some lag \<longleftrightarrow>
     is_leader n \<and>
     (\<exists>m match. match_index n = Some m \<and> dget m peer = Some match \<and> 0 \<le> lag \<and>
        (if match \<le> commit_index n then lag + match = commit_index n else lag = 0))"
proof -
  have "map_of (map (\<lambda>(p, match). (p, max 0 (commit_index n - match))) m) peer =
      map_option (\<lambda>match. max 0 (commit_index n - match)) (map_of m peer)" for m
    by (induction m) auto
  then show ?thesis by (auto simp: replication_lags_def max_def split: option.splits if_splits)
qed

text \<open>
  The cluster term is the highest term among the reachable nodes, and 0 when no node is
  reachable.
\<close>

theorem snap_current_term_max:
  "if \<exists>n \<in> set (nodes snap). reachable n
   then snap_current_term snap = Max (current_term ` {n \<in> set (nodes snap). reachable n})
   else snap_current_term snap = 0"
proof (cases "map current_term (filter reachable (nodes snap))")
  case Nil
  then show ?thesis by (auto simp: snap_current_term_def filter_empty_conv)
next
  case (Cons t ts)
  have terms: "insert t (set ts) = current_term ` {n \<in> set (nodes snap). reachable n}"
    using arg_cong [OF Cons, of set] by auto
  have "Max (insert t (set ts)) = fold max ts t"
    using fold_max_ge [of t ts] fold_max_in [of ts t] by (intro Max_eqI) auto
  with terms Cons show ?thesis by (auto simp: snap_current_term_def)
qed

end
