(* ===== verification/World.thy ===== *)
theory World
  imports Py_Prelude
begin

text \<open>
  Time and the outside world.  A \<open>world\<close> holds the current time in nanoseconds and the number
  of interactions made so far; interaction number \<open>k\<close> (a clock reading or a call of an
  external service) takes \<open>w_delay w k\<close> nanoseconds, chosen by the environment.  The clock
  therefore never runs backwards (\<open>time.monotonic()\<close> promises this; for \<open>time.time()\<close> it
  is the assumption that the wall clock is not set back during a run).  What an external service
  answers is a parameter of each operation, a function of the interaction number, so that every
  sequence of answers is covered.

  The polling loops of the sources all have the shape \<open>while time.time() < deadline: ...; sleep\<close>;
  \<open>deadline_loop\<close> is that shape and the locale \<open>deadline_poll\<close> its contract: a body that
  makes the clock advance makes the loop return.
\<close>

section \<open>Clock\<close>

record world =
  w_ns :: nat
  w_k :: nat
  w_delay :: "nat \<Rightarrow> nat"

definition tick :: "world \<Rightarrow> world" where
  "tick w = w\<lparr>w_ns := w_ns w + w_delay w (w_k w), w_k := Suc (w_k w)\<rparr>"

definition secs :: "world \<Rightarrow> real" where
  "secs w = real (w_ns w) / 1000000000"

definition now :: "world \<Rightarrow> real \<times> world" where
  "now w = (let w' = tick w in (secs w', w'))"

definition now_ns :: "world \<Rightarrow> int \<times> world" where
  "now_ns w = (let w' = tick w in (int (w_ns w'), w'))"

text \<open>\<open>time.sleep(d)\<close> sleeps at least \<open>d\<close> seconds.\<close>

definition sleep :: "real \<Rightarrow> world \<Rightarrow> world" where
  "sleep d w = (let w' = tick w in w'\<lparr>w_ns := w_ns w' + nat \<lceil>d * 1000000000\<rceil>\<rparr>)"

text \<open>A call of an external service: its answer is the one for this interaction number.\<close>

definition call :: "(nat \<Rightarrow> 'a) \<Rightarrow> world \<Rightarrow> 'a \<times> world" where
  "call answers w = (answers (w_k w), tick w)"

lemmas world_defs = tick_def secs_def now_def now_ns_def sleep_def call_def

lemma secs_tick [simp]: "secs w \<le> secs (tick w)"
  by (simp add: tick_def secs_def divide_right_mono)

lemma now_simps [simp]:
  "fst (now w) = secs (tick w)" "snd (now w) = tick w"
  "fst (now_ns w) = int (w_ns (tick w))" "snd (now_ns w) = tick w"
  "snd (call a w) = tick w" "fst (call a w) = a (w_k w)"
  by (simp_all add: now_def now_ns_def call_def Let_def)

lemma w_ns_tick [simp]: "w_ns w \<le> w_ns (tick w)"
  by (simp add: tick_def)

lemma secs_sleep: "secs w + d \<le> secs (sleep d w)"
proof -
  have "d * 1000000000 \<le> real (nat \<lceil>d * 1000000000\<rceil>)" by linarith
  then have "d \<le> real (nat \<lceil>d * 1000000000\<rceil>) / 1000000000" by (simp add: field_simps)
  moreover have "secs (sleep d w) = secs (tick w) + real (nat \<lceil>d * 1000000000\<rceil>) / 1000000000"
    by (simp add: sleep_def secs_def Let_def add_divide_distrib)
  ultimately show ?thesis using secs_tick [of w] by linarith
qed

lemma secs_sleep_after: "secs w \<le> secs w1 \<Longrightarrow> secs w + d \<le> secs (sleep d w1)"
  using secs_sleep [of w1 d] by linarith

lemma secs_sleep_mono [simp]: "secs w \<le> secs (sleep d w)"
  by (simp add: sleep_def secs_def Let_def tick_def divide_right_mono)

lemma secs_mono_iff: "secs w \<le> secs w' \<longleftrightarrow> w_ns w \<le> w_ns w'"
  by (simp add: secs_def field_simps)

section \<open>Polling until a deadline\<close>

partial_function (option) deadline_loop ::
  "real \<Rightarrow> ('s \<Rightarrow> world \<Rightarrow> ('r + 's) \<times> world) \<Rightarrow> 's \<Rightarrow> world \<Rightarrow> (('r + 's) \<times> world) option" where
  "deadline_loop dl body s w =
     (let (t, w1) = now w in
      if t < dl then
        (case body s w1 of
           (Inl r, w2) \<Rightarrow> Some (Inl r, w2)
         | (Inr s', w2) \<Rightarrow> deadline_loop dl body s' w2)
      else Some (Inr s, w1))"

lemma deadline_loop_unfold:
  "deadline_loop dl body s w =
     (if secs (tick w) < dl then
        (case body s (tick w) of
           (Inl r, w2) \<Rightarrow> Some (Inl r, w2)
         | (Inr s', w2) \<Rightarrow> deadline_loop dl body s' w2)
      else Some (Inr s, tick w))"
  by (subst deadline_loop.simps) (simp add: now_def Let_def)

locale deadline_poll =
  fixes body :: "'s \<Rightarrow> world \<Rightarrow> ('r + 's) \<times> world"
    and step :: real
  assumes step_pos: "0 < step"
    and body_advances: "body s w = (Inr s', w') \<Longrightarrow> secs w + step \<le> secs w'"
begin

lemma loop_returns: "\<exists>out. deadline_loop dl body s w = Some out"
proof (induction "nat \<lceil>(dl - secs w) / step\<rceil>" arbitrary: s w rule: less_induct)
  case less
  show ?case
  proof (cases "secs (tick w) < dl")
    case False
    then show ?thesis by (subst deadline_loop_unfold) simp
  next
    case True
    obtain out w2 where b: "body s (tick w) = (out, w2)" by fastforce
    show ?thesis
    proof (cases out)
      case (Inl r)
      with True b show ?thesis by (subst deadline_loop_unfold) simp
    next
      case (Inr s')
      with b have adv: "secs (tick w) + step \<le> secs w2" using body_advances by blast
      then have "secs w + step \<le> secs w2" using secs_tick [of w] by linarith
      then have "(dl - secs w2) / step \<le> (dl - secs w - step) / step"
        using step_pos by (intro divide_right_mono) auto
      then have "(dl - secs w2) / step \<le> (dl - secs w) / step - 1"
        using step_pos by (simp add: diff_divide_distrib)
      moreover have "0 < (dl - secs w) / step"
        using order_le_less_trans [OF secs_tick True] step_pos by simp
      ultimately have "nat \<lceil>(dl - secs w2) / step\<rceil> < nat \<lceil>(dl - secs w) / step\<rceil>"
        by linarith
      from less [OF this] True b Inr show ?thesis
        by (subst deadline_loop_unfold) simp
    qed
  qed
qed

end

text \<open>
  Partial correctness: an invariant kept by every round holds where the loop stops, and a loop
  that stops by the deadline stops after it.
\<close>

lemma deadline_loop_rule:
  assumes ret: "deadline_loop dl body s w = Some (out, w')"
    and init: "I s w"
    and time: "\<And>s w. I s w \<Longrightarrow> I s (tick w)"
    and round: "\<And>s w s' w'. I s w \<Longrightarrow> secs w < dl \<Longrightarrow> body s w = (Inr s', w') \<Longrightarrow> I s' w'"
    and stop: "\<And>s w r w'. I s w \<Longrightarrow> secs w < dl \<Longrightarrow> body s w = (Inl r, w') \<Longrightarrow> Q (Inl r) w'"
    and late: "\<And>s w. I s w \<Longrightarrow> dl \<le> secs w \<Longrightarrow> Q (Inr s) w"
  shows "Q out w'"
proof -
  have "I s w \<longrightarrow> Q (fst z) (snd z)" if "deadline_loop dl body s w = Some z" for z
  proof (rule deadline_loop.raw_induct
      [where P = "\<lambda>dl' body' s w z. dl' = dl \<and> body' = body \<longrightarrow> I s w \<longrightarrow> Q (fst z) (snd z)",
       OF _ that, simplified])
    fix f dl' body' s w z
    assume IH: "\<And>dl' body' s w z. f dl' body' s w = Some z \<Longrightarrow>
        dl' = dl \<and> body' = body \<longrightarrow> I s w \<longrightarrow> Q (fst z) (snd z)"
      and eq: "(case now w of (t, w1) \<Rightarrow>
        if t < dl' then case body' s w1 of (Inl r, w2) \<Rightarrow> Some (Inl r, w2) | (Inr s', w2) \<Rightarrow> f dl' body' s' w2
        else Some (Inr s, w1)) = Some z"
    show "dl' = dl \<and> body' = body \<longrightarrow> I s w \<longrightarrow> Q (fst z) (snd z)"
    proof (intro impI)
      assume same: "dl' = dl \<and> body' = body" and I: "I s w"
      then have d: "dl' = dl" "body' = body" by simp_all
      note rules = round [OF time [OF I]] stop [OF time [OF I]] late [OF time [OF I]]
      obtain o2 w2 where b: "body s (tick w) = (o2, w2)" by fastforce
      show "Q (fst z) (snd z)"
        using eq [unfolded d now_def Let_def] IH [of dl body] rules
        by (cases o2) (auto split: if_splits simp: b not_less)
    qed
  qed
  with ret init show ?thesis by fastforce
qed

end
