(* ===== verification/Alerts.thy ===== *)
theory Alerts
  imports Raft_Client World
begin

text \<open>
  \<open>state-observer/alerts.py\<close>: the detectors of \<open>AlertManager\<close> and the SNS dispatch with its
  cooldown.  The state of a run is the manager's own attributes, the world (clock) and the list
  of SNS publish calls made so far.  An entry of that list carries, beside what is passed to
  \<open>sns.publish\<close>, the alert key and the clock reading that let it through, which the
  specification speaks about.  SNS itself is a parameter: \<open>sns k\<close> is its answer to
  interaction \<open>k\<close>, success or one of the exceptions boto3 documents for \<open>publish\<close>
  (\<open>BotoCoreError\<close>, \<open>ClientError\<close>).

  The locale \<open>rate_limited\<close> is the contract of the cooldown gate; \<open>_maybe_send\<close> is shown to
  satisfy it, and the spacing of notifications over a whole run follows from the contract.
\<close>

section \<open>State\<close>

definition COOLDOWN_S :: real where "COOLDOWN_S = 120"
definition NO_LEADER_TIMEOUT_S :: real where "NO_LEADER_TIMEOUT_S = 10"

record alert_manager =
  topic_arn :: py_str
  disable_sns :: bool
  last_sent :: "(py_str, real) pydict"
  leaderless_since :: "real option"

datatype sns_answer = SnsOk | SnsFailed py_str

record sns_call =
  call_key :: py_str
  call_at :: real
  call_topic :: py_str
  call_subject :: py_str
  call_message :: py_str
  call_answer :: sns_answer

record alert_env =
  mgr :: alert_manager
  env :: world
  outbox :: "sns_call list"

definition alert_manager_init :: "py_str \<Rightarrow> bool \<Rightarrow> alert_manager" where
  "alert_manager_init arn disable =
     \<lparr>topic_arn = arn, disable_sns = (disable \<or> arn = []), last_sent = [], leaderless_since = None\<rparr>"

section \<open>SNS dispatch with cooldown\<close>

definition maybe_send :: "(nat \<Rightarrow> sns_answer) \<Rightarrow> py_str \<Rightarrow> py_str \<Rightarrow> py_str \<Rightarrow> alert_env \<Rightarrow> bool \<times> alert_env" where
  "maybe_send sns key subject body s =
     (let (t, w) = now (env s);
          prev = dget_default (last_sent (mgr s)) key 0
      in if t - prev < COOLDOWN_S then (False, s\<lparr>env := w\<rparr>)
         else
           let m = (mgr s)\<lparr>last_sent := dset key t (last_sent (mgr s))\<rparr>
           in if disable_sns m then (False, s\<lparr>mgr := m, env := w\<rparr>)
              else
                let (ans, w2) = call sns w
                in (ans = SnsOk,
                    s\<lparr>mgr := m, env := w2,
                      outbox := outbox s @
                        [\<lparr>call_key = key, call_at = t, call_topic = topic_arn m,
                          call_subject = cp_take 100 subject, call_message = body,
                          call_answer = ans\<rparr>]\<rparr>))"

section \<open>Detectors\<close>

definition newline :: py_str where "newline = [CHR 0x0A]"
definition em_dash :: py_str where "em_dash = [CHR 0xE2, CHR 0x80, CHR 0x94]"

definition tag :: "bool \<Rightarrow> py_str" where
  "tag fired = (if fired then '' [alert sent]'' else '' [suppressed]'')"

definition split_key :: "int \<Rightarrow> py_str list \<Rightarrow> py_str" where
  "split_key term ls = ''split-brain:term='' @ dec_int term @ '':leaders='' @ join '','' (sort ls)"

definition split_body :: "py_str \<Rightarrow> cluster_snapshot \<Rightarrow> py_str" where
  "split_body msg snap =
     msg @ newline @ newline @
     ''This means the Raft safety invariant (at most one leader per term) '' @
     ''has been violated.  Immediate investigation required.'' @ newline @ newline @
     ''Nodes queried: '' @ repr_str_list (map node_id (nodes snap))"

fun send_split_alerts ::
  "(nat \<Rightarrow> sns_answer) \<Rightarrow> cluster_snapshot \<Rightarrow> py_str \<Rightarrow> (int \<times> py_str list) list \<Rightarrow>
   py_str list \<Rightarrow> alert_env \<Rightarrow> py_str list \<times> alert_env" where
  "send_split_alerts sns snap msg [] alerts s = (alerts, s)"
| "send_split_alerts sns snap msg ((term, ls) # items) alerts s =
     (if 1 < length ls then
        let (fired, s') = maybe_send sns (split_key term ls)
              (''[Driftless] SPLIT-BRAIN DETECTED in term '' @ dec_int term) (split_body msg snap) s
        in send_split_alerts sns snap msg items (alerts @ [msg @ tag fired]) s'
      else send_split_alerts sns snap msg items alerts s)"

definition check_split_brain ::
  "(nat \<Rightarrow> sns_answer) \<Rightarrow> cluster_snapshot \<Rightarrow> py_str list \<Rightarrow> alert_env \<Rightarrow> py_str list \<times> alert_env" where
  "check_split_brain sns snap alerts s =
     (case split_brain_message snap of
        None \<Rightarrow> (alerts, s)
      | Some msg \<Rightarrow> send_split_alerts sns snap msg (leaders_by_term snap) alerts s)"

definition no_leader_key :: "int \<Rightarrow> py_str" where
  "no_leader_key term = ''no-leader:'' @ dec_int term"

definition no_leader_body :: "real \<Rightarrow> cluster_snapshot \<Rightarrow> py_str" where
  "no_leader_body elapsed snap =
     ''No leader has been elected for '' @ fmt_fixed 1 elapsed @ ''s.'' @ newline @
     ''Reachable nodes: '' @ repr_str_list (map node_id (filter reachable (nodes snap))) @ newline @
     ''Highest term seen: '' @ dec_int (snap_current_term snap) @ newline @ newline @
     ''Possible causes: network partition, all nodes crashed, '' @ ''persistent split-vote.''"

definition check_no_leader ::
  "(nat \<Rightarrow> sns_answer) \<Rightarrow> cluster_snapshot \<Rightarrow> py_str list \<Rightarrow> alert_env \<Rightarrow> py_str list \<times> alert_env" where
  "check_no_leader sns snap alerts s =
     (if leader snap \<noteq> None then (alerts, s\<lparr>mgr := (mgr s)\<lparr>leaderless_since := None\<rparr>\<rparr>)
      else
        let (t, w) = now (env s); s1 = s\<lparr>env := w\<rparr>
        in case leaderless_since (mgr s) of
             None \<Rightarrow> (alerts, s1\<lparr>mgr := (mgr s)\<lparr>leaderless_since := Some t\<rparr>\<rparr>)
           | Some since \<Rightarrow>
               let elapsed = t - since
               in if elapsed < NO_LEADER_TIMEOUT_S then (alerts, s1)
                  else
                    let msg = ''No leader for '' @ fmt_fixed 0 elapsed @ ''s (term='' @
                              dec_int (snap_current_term snap) @ '')'';
                        (fired, s2) = maybe_send sns (no_leader_key (snap_current_term snap))
                          ''[Driftless] No Raft leader elected'' (no_leader_body elapsed snap) s1
                    in (alerts @ [msg @ tag fired], s2))"

definition quorum_key :: "nat \<Rightarrow> nat \<Rightarrow> py_str" where
  "quorum_key up total_n = ''quorum-loss:'' @ dec_nat up @ ''/'' @ dec_nat total_n"

definition quorum_body :: "nat \<Rightarrow> nat \<Rightarrow> nat \<Rightarrow> py_str" where
  "quorum_body up total_n quorum =
     ''Only '' @ dec_nat up @ ''/'' @ dec_nat total_n @ '' nodes are reachable; '' @
     ''quorum requires '' @ dec_nat quorum @ ''.'' @ newline @
     ''The cluster cannot commit new log entries until '' @ ''enough nodes are restored.''"

definition check_quorum_loss ::
  "(nat \<Rightarrow> sns_answer) \<Rightarrow> cluster_snapshot \<Rightarrow> py_str list \<Rightarrow> alert_env \<Rightarrow> py_str list \<times> alert_env" where
  "check_quorum_loss sns snap alerts s =
     (let total_n = length (nodes snap) in
      if total_n = 0 then (alerts, s)
      else
        let quorum = total_n div 2 + 1; up = reachable_count snap
        in if quorum \<le> up then (alerts, s)
           else
             let msg = ''Quorum loss: '' @ dec_nat up @ ''/'' @ dec_nat total_n @ '' nodes up (need '' @
                       dec_nat quorum @ '')'';
                 (fired, s1) = maybe_send sns (quorum_key up total_n)
                   (''[Driftless] Quorum loss '' @ em_dash @ '' cluster cannot make progress'')
                   (quorum_body up total_n quorum) s
             in (alerts @ [msg @ tag fired], s1))"

definition check :: "(nat \<Rightarrow> sns_answer) \<Rightarrow> cluster_snapshot \<Rightarrow> alert_env \<Rightarrow> py_str list \<times> alert_env" where
  "check sns snap s =
     (let (a1, s1) = check_split_brain sns snap [] s;
          (a2, s2) = check_no_leader sns snap a1 s1
      in check_quorum_loss sns snap a2 s2)"

text \<open>A run of the observer, as the manager sees it: time passes, then a snapshot is checked.\<close>

definition alert_round :: "(nat \<Rightarrow> sns_answer) \<Rightarrow> real \<times> cluster_snapshot \<Rightarrow> alert_env \<Rightarrow> alert_env" where
  "alert_round sns r s = snd (check sns (snd r) (s\<lparr>env := sleep (fst r) (env s)\<rparr>))"

definition alert_run :: "(nat \<Rightarrow> sns_answer) \<Rightarrow> (real \<times> cluster_snapshot) list \<Rightarrow> alert_env \<Rightarrow> alert_env" where
  "alert_run sns rs s = fold (alert_round sns) rs s"

definition alert_start :: "py_str \<Rightarrow> bool \<Rightarrow> world \<Rightarrow> alert_env" where
  "alert_start arn disable w = \<lparr>mgr = alert_manager_init arn disable, env = w, outbox = []\<rparr>"

section \<open>The contract of a cooldown gate\<close>

text \<open>\<open>spaced gap sentlog\<close>: two entries of the sentlog with the same key are at least \<open>gap\<close> apart.\<close>

definition spaced :: "real \<Rightarrow> ('k \<times> real) list \<Rightarrow> bool" where
  "spaced gap sentlog \<longleftrightarrow>
     (\<forall>i j. i < j \<longrightarrow> j < length sentlog \<longrightarrow> fst (sentlog ! i) = fst (sentlog ! j) \<longrightarrow>
            snd (sentlog ! i) + gap \<le> snd (sentlog ! j))"

definition gate_ok :: "real \<Rightarrow> ('k \<rightharpoonup> real) \<Rightarrow> real \<Rightarrow> ('k \<times> real) list \<Rightarrow> bool" where
  "gate_ok gap latest t sentlog \<longleftrightarrow>
     spaced gap sentlog \<and>
     (\<forall>k l. latest k = Some l \<longrightarrow> l \<le> t) \<and>
     (\<forall>k u. (k, u) \<in> set sentlog \<longrightarrow> (\<exists>l. latest k = Some l \<and> u \<le> l))"

lemma spaced_snoc:
  "spaced gap (sentlog @ [(k, t)]) \<longleftrightarrow> spaced gap sentlog \<and> (\<forall>u. (k, u) \<in> set sentlog \<longrightarrow> u + gap \<le> t)"
  (is "?L \<longleftrightarrow> ?R")
proof
  assume L: ?L
  have "spaced gap sentlog"
    unfolding spaced_def
  proof (intro allI impI)
    fix i j assume "i < j" "j < length sentlog" "fst (sentlog ! i) = fst (sentlog ! j)"
    with L [unfolded spaced_def, rule_format, of i j]
    show "snd (sentlog ! i) + gap \<le> snd (sentlog ! j)" by (simp add: nth_append)
  qed
  moreover have "u + gap \<le> t" if "(k, u) \<in> set sentlog" for u
  proof -
    from that obtain i where "i < length sentlog" "sentlog ! i = (k, u)" by (auto simp: in_set_conv_nth)
    with L [unfolded spaced_def, rule_format, of i "length sentlog"] show ?thesis by (simp add: nth_append)
  qed
  ultimately show ?R by blast
next
  assume R: ?R
  show ?L
    unfolding spaced_def
  proof (intro allI impI)
    fix i j assume ij: "i < j" "j < length (sentlog @ [(k, t)])"
      and eq: "fst ((sentlog @ [(k, t)]) ! i) = fst ((sentlog @ [(k, t)]) ! j)"
    show "snd ((sentlog @ [(k, t)]) ! i) + gap \<le> snd ((sentlog @ [(k, t)]) ! j)"
    proof (cases "j < length sentlog")
      case True
      with ij eq R show ?thesis by (simp add: nth_append spaced_def)
    next
      case False
      with ij have j: "j = length sentlog" and i: "i < length sentlog" by auto
      with eq have "sentlog ! i = (k, snd (sentlog ! i))" by (simp add: nth_append prod_eq_iff)
      with i have "(k, snd (sentlog ! i)) \<in> set sentlog" by (metis nth_mem)
      with R i j show ?thesis by (simp add: nth_append)
    qed
  qed
qed

locale rate_limited =
  fixes send :: "'k \<Rightarrow> 'm \<Rightarrow> 's \<Rightarrow> bool \<times> 's"
    and clock :: "'s \<Rightarrow> real"
    and latest :: "'s \<Rightarrow> 'k \<rightharpoonup> real"
    and sentlog :: "'s \<Rightarrow> ('k \<times> real) list"
    and gap :: real
  assumes clock_send: "clock s \<le> clock (snd (send k m s))"
    and last_send: "latest (snd (send k m s)) = latest s \<or>
       (\<exists>t. clock s \<le> t \<and> t \<le> clock (snd (send k m s)) \<and> latest (snd (send k m s)) = (latest s)(k \<mapsto> t))"
    and log_send: "sentlog (snd (send k m s)) = sentlog s \<or>
       (\<exists>t. sentlog (snd (send k m s)) = sentlog s @ [(k, t)] \<and> latest (snd (send k m s)) k = Some t \<and>
            clock s \<le> t \<and> t \<le> clock (snd (send k m s)) \<and> (\<forall>l. latest s k = Some l \<longrightarrow> l + gap \<le> t))"
begin

abbreviation ok :: "'s \<Rightarrow> bool" where
  "ok s \<equiv> gate_ok gap (latest s) (clock s) (sentlog s)"

lemma last_bound:
  assumes "ok s" "latest (snd (send k m s)) j = Some l"
  shows "l \<le> clock (snd (send k m s))"
  using last_send [of k m s] clock_send [of s k m] assms
  by (fastforce simp: gate_ok_def split: if_splits)

lemma last_grows:
  assumes "ok s" "latest s j = Some l"
  shows "\<exists>l'. latest (snd (send k m s)) j = Some l' \<and> l \<le> l'"
  using last_send [of k m s] assms by (fastforce simp: gate_ok_def)

lemma ok_send:
  assumes ok: "ok s"
  shows "ok (snd (send k m s))"
proof -
  let ?s = "snd (send k m s)"
  have old: "\<exists>l. latest ?s j = Some l \<and> u \<le> l" if "(j, u) \<in> set (sentlog s)" for j u
    using that ok last_grows [OF ok] unfolding gate_ok_def by (meson order_trans)
  from log_send [of k m s] show ?thesis
  proof
    assume same: "sentlog ?s = sentlog s"
    with ok old last_bound [OF ok] show ?thesis by (simp add: gate_ok_def)
  next
    assume "\<exists>t. sentlog ?s = sentlog s @ [(k, t)] \<and> latest ?s k = Some t \<and> clock s \<le> t \<and> t \<le> clock ?s \<and>
      (\<forall>l. latest s k = Some l \<longrightarrow> l + gap \<le> t)"
    then obtain t where t: "sentlog ?s = sentlog s @ [(k, t)]" "latest ?s k = Some t"
      "\<And>l. latest s k = Some l \<Longrightarrow> l + gap \<le> t" by blast
    have "u + gap \<le> t" if "(k, u) \<in> set (sentlog s)" for u
      using that ok t(3) unfolding gate_ok_def by (metis add_right_mono order_trans)
    with ok t(1,2) old last_bound [OF ok] show ?thesis
      by (auto simp: gate_ok_def spaced_snoc)
  qed
qed

lemma ok_later: "ok s \<Longrightarrow> latest s' = latest s \<Longrightarrow> sentlog s' = sentlog s \<Longrightarrow> clock s \<le> clock s' \<Longrightarrow> ok s'"
  by (auto simp: gate_ok_def intro: order_trans)

end

section \<open>The manager satisfies the contract\<close>

definition alert_log :: "alert_env \<Rightarrow> (py_str \<times> real) list" where
  "alert_log s = map (\<lambda>c. (call_key c, call_at c)) (outbox s)"

definition alert_ok :: "alert_env \<Rightarrow> bool" where
  "alert_ok s \<longleftrightarrow> gate_ok COOLDOWN_S (dget (last_sent (mgr s))) (secs (env s)) (alert_log s)"

lemma maybe_send_unfold:
  "maybe_send sns key subject body s =
     (let w = tick (env s); t = secs w;
          m = (mgr s)\<lparr>last_sent := dset key t (last_sent (mgr s))\<rparr>;
          ans = sns (w_k w)
      in if t - dget_default (last_sent (mgr s)) key 0 < COOLDOWN_S then (False, s\<lparr>env := w\<rparr>)
         else if disable_sns (mgr s) then (False, s\<lparr>mgr := m, env := w\<rparr>)
         else (ans = SnsOk,
               s\<lparr>mgr := m, env := tick w,
                 outbox := outbox s @
                   [\<lparr>call_key = key, call_at = t, call_topic = topic_arn (mgr s),
                     call_subject = cp_take 100 subject, call_message = body, call_answer = ans\<rparr>]\<rparr>))"
  by (simp add: maybe_send_def now_def call_def Let_def)

interpretation gate: rate_limited
  "\<lambda>key m. maybe_send sns key (fst m) (snd m)"
  "\<lambda>s. secs (env s)" "\<lambda>s. dget (last_sent (mgr s))" alert_log COOLDOWN_S
  for sns :: "nat \<Rightarrow> sns_answer"
proof unfold_locales
  fix s :: alert_env and k and m :: "py_str \<times> py_str"
  let ?s = "snd (maybe_send sns k (fst m) (snd m) s)"
  have t2: "secs (env s) \<le> secs (tick (tick (env s)))"
    using secs_tick order_trans by blast
  show "secs (env s) \<le> secs (env ?s)"
    using t2 by (simp add: maybe_send_unfold Let_def)
  show "dget (last_sent (mgr ?s)) = dget (last_sent (mgr s)) \<or>
      (\<exists>t. secs (env s) \<le> t \<and> t \<le> secs (env ?s) \<and>
         dget (last_sent (mgr ?s)) = (dget (last_sent (mgr s)))(k \<mapsto> t))"
    by (auto simp: maybe_send_unfold Let_def fun_eq_iff)
  show "alert_log ?s = alert_log s \<or>
      (\<exists>t. alert_log ?s = alert_log s @ [(k, t)] \<and> dget (last_sent (mgr ?s)) k = Some t \<and>
         secs (env s) \<le> t \<and> t \<le> secs (env ?s) \<and>
         (\<forall>l. dget (last_sent (mgr s)) k = Some l \<longrightarrow> l + COOLDOWN_S \<le> t))"
    by (auto simp: maybe_send_unfold Let_def alert_log_def dget_default_def)
qed

section \<open>Invariants of the manager\<close>

text \<open>
  The detectors change the state in two ways only: by \<open>maybe_send\<close>, and by letting time pass
  while setting the leaderless timer.  The locale captures this: what both kinds of change keep,
  every check and every run keeps.
\<close>

locale manager_invariant =
  fixes sns :: "nat \<Rightarrow> sns_answer"
    and I :: "alert_env \<Rightarrow> bool"
  assumes inv_send: "I s \<Longrightarrow> I (snd (maybe_send sns key subject body s))"
    and inv_frame: "I s \<Longrightarrow> secs (env s) \<le> secs w \<Longrightarrow>
      I (s\<lparr>env := w, mgr := (mgr s)\<lparr>leaderless_since := x\<rparr>\<rparr>)"
begin

lemma inv_sent: "I s \<Longrightarrow> maybe_send sns key subject body s = (fired, s') \<Longrightarrow> I s'"
  using inv_send [of s key subject body] by simp

lemma inv_env: "I s \<Longrightarrow> secs (env s) \<le> secs w \<Longrightarrow> I (s\<lparr>env := w\<rparr>)"
  using inv_frame [of s w "leaderless_since (mgr s)"] by simp

lemma inv_timer: "I s \<Longrightarrow> I (s\<lparr>mgr := (mgr s)\<lparr>leaderless_since := x\<rparr>\<rparr>)"
  using inv_frame [of s "env s" x] by simp

lemma inv_send_split_alerts: "I s \<Longrightarrow> I (snd (send_split_alerts sns snap msg items alerts s))"
proof (induction items arbitrary: alerts s)
  case (Cons item items)
  then show ?case by (cases item) (auto simp: Let_def split: prod.splits dest: inv_sent)
qed simp

lemma inv_split_brain: "I s \<Longrightarrow> I (snd (check_split_brain sns snap alerts s))"
  by (simp add: check_split_brain_def inv_send_split_alerts split: option.splits)

lemma inv_no_leader: "I s \<Longrightarrow> I (snd (check_no_leader sns snap alerts s))"
  using inv_env [of s "tick (env s)"] inv_frame [of s "tick (env s)"] inv_timer [of s]
  by (auto simp: check_no_leader_def now_def Let_def split: option.splits prod.splits dest: inv_sent)

lemma inv_quorum_loss: "I s \<Longrightarrow> I (snd (check_quorum_loss sns snap alerts s))"
  by (auto simp: check_quorum_loss_def Let_def split: prod.splits dest: inv_sent)

lemma inv_check: "I s \<Longrightarrow> I (snd (check sns snap s))"
  by (simp add: check_def case_prod_beta Let_def inv_split_brain inv_no_leader inv_quorum_loss)

lemma inv_round: "I s \<Longrightarrow> I (alert_round sns r s)"
  unfolding alert_round_def by (rule inv_check, rule inv_env) auto

lemma inv_run: "I s \<Longrightarrow> I (alert_run sns rs s)"
  unfolding alert_run_def by (induction rs arbitrary: s) (auto simp: inv_round)

end

interpretation spacing: manager_invariant sns alert_ok
  for sns :: "nat \<Rightarrow> sns_answer"
proof unfold_locales
  show "alert_ok (snd (maybe_send sns key subject body s))" if "alert_ok s" for key subject body s
    using gate.ok_send [of s sns key "(subject, body)"] that by (simp add: alert_ok_def)
  show "alert_ok (s\<lparr>env := w, mgr := (mgr s)\<lparr>leaderless_since := x\<rparr>\<rparr>)"
    if "alert_ok s" "secs (env s) \<le> secs w" for s w x
    using gate.ok_later [of s "s\<lparr>env := w, mgr := (mgr s)\<lparr>leaderless_since := x\<rparr>\<rparr>"] that
    by (simp add: alert_ok_def alert_log_def)
qed

definition outbox_late :: "alert_env \<Rightarrow> bool" where
  "outbox_late s \<longleftrightarrow>
     (\<forall>k l. dget (last_sent (mgr s)) k = Some l \<longrightarrow> 0 \<le> l) \<and>
     (\<forall>c \<in> set (outbox s). COOLDOWN_S \<le> call_at c \<and> call_at c \<le> secs (env s))"

interpretation late: manager_invariant sns outbox_late
  for sns :: "nat \<Rightarrow> sns_answer"
proof unfold_locales
  have nonneg: "0 \<le> secs w" for w by (simp add: secs_def)
  show "outbox_late (snd (maybe_send sns key subject body s))" if "outbox_late s" for key subject body s
    using that nonneg order_trans [OF _ secs_tick]
    by (fastforce simp: outbox_late_def maybe_send_unfold Let_def dget_default_def split: option.splits)
  show "outbox_late (s\<lparr>env := w, mgr := (mgr s)\<lparr>leaderless_since := x\<rparr>\<rparr>)"
    if "outbox_late s" "secs (env s) \<le> secs w" for s w x
    using that by (auto simp: outbox_late_def intro: order_trans)
qed

definition subjects_short :: "alert_env \<Rightarrow> bool" where
  "subjects_short s \<longleftrightarrow> (\<forall>c \<in> set (outbox s). cp_length (call_subject c) \<le> 100)"

interpretation short: manager_invariant sns subjects_short
  for sns :: "nat \<Rightarrow> sns_answer"
  by unfold_locales (auto simp: subjects_short_def maybe_send_unfold Let_def cp_length_cp_take)

lemma alert_start_invariants:
  "alert_ok (alert_start arn disable w)" "outbox_late (alert_start arn disable w)"
  "subjects_short (alert_start arn disable w)"
  by (simp_all add: alert_ok_def alert_start_def alert_log_def alert_manager_init_def gate_ok_def
      spaced_def outbox_late_def subjects_short_def)

section \<open>What a check reports\<close>

lemma maybe_send_frame:
  "maybe_send sns key subject body s = (fired, s') \<Longrightarrow>
     leaderless_since (mgr s') = leaderless_since (mgr s) \<and> disable_sns (mgr s') = disable_sns (mgr s) \<and>
     topic_arn (mgr s') = topic_arn (mgr s) \<and> secs (env s) \<le> secs (env s')"
  using gate.clock_send [of s sns key "(subject, body)"]
  by (auto simp: maybe_send_unfold Let_def split: if_splits)

lemma send_split_alerts_fst:
  "\<exists>tags. fst (send_split_alerts sns snap msg items alerts s) = alerts @ map (\<lambda>b. msg @ tag b) tags \<and>
     length tags = length (filter (\<lambda>(t, ls). 1 < length ls) items)"
proof (induction items arbitrary: alerts s)
  case (Cons item items)
  obtain t ls where item: "item = (t, ls)" by fastforce
  show ?case
  proof (cases "1 < length ls")
    case True
    obtain fired s' where m: "maybe_send sns (split_key t ls)
        (''[Driftless] SPLIT-BRAIN DETECTED in term '' @ dec_int t) (split_body msg snap) s = (fired, s')"
      by fastforce
    obtain tags where
      "fst (send_split_alerts sns snap msg items (alerts @ [msg @ tag fired]) s') =
         (alerts @ [msg @ tag fired]) @ map (\<lambda>b. msg @ tag b) tags"
      "length tags = length (filter (\<lambda>(t, ls). 1 < length ls) items)"
      using Cons [of "alerts @ [msg @ tag fired]" s'] by blast
    with True m show ?thesis by (intro exI [of _ "fired # tags"]) (simp add: item Let_def)
  next
    case False
    with Cons [of alerts s] show ?thesis by (simp add: item)
  qed
qed simp

lemma send_split_alerts_frame:
  "leaderless_since (mgr (snd (send_split_alerts sns snap msg items alerts s))) = leaderless_since (mgr s) \<and>
   secs (env s) \<le> secs (env (snd (send_split_alerts sns snap msg items alerts s)))"
proof (induction items arbitrary: alerts s)
  case (Cons item items)
  then show ?case
    by (cases item) (auto simp: Let_def split: prod.splits dest!: maybe_send_frame intro: order_trans)
qed simp

lemma check_split_brain_frame:
  "leaderless_since (mgr (snd (check_split_brain sns snap alerts s))) = leaderless_since (mgr s) \<and>
   secs (env s) \<le> secs (env (snd (check_split_brain sns snap alerts s)))"
  using send_split_alerts_frame by (simp add: check_split_brain_def split: option.splits)

lemma check_quorum_loss_frame:
  "leaderless_since (mgr (snd (check_quorum_loss sns snap alerts s))) = leaderless_since (mgr s) \<and>
   secs (env s) \<le> secs (env (snd (check_quorum_loss sns snap alerts s)))"
  by (auto simp: check_quorum_loss_def Let_def split: prod.splits dest!: maybe_send_frame)

text \<open>The clock reading with which \<open>_check_no_leader\<close> works during a check.\<close>

definition check_time :: "(nat \<Rightarrow> sns_answer) \<Rightarrow> cluster_snapshot \<Rightarrow> alert_env \<Rightarrow> real" where
  "check_time sns snap s = secs (tick (env (snd (check_split_brain sns snap [] s))))"

lemma check_split_brain_fst:
  "\<exists>sp. fst (check_split_brain sns snap alerts s) = alerts @ sp \<and>
     length sp = length (filter (\<lambda>(t, ls). 1 < length ls) (leaders_by_term snap)) \<and>
     (\<forall>m \<in> set sp. \<exists>msg b. split_brain_message snap = Some msg \<and> m = msg @ tag b)"
proof (cases "split_brain_message snap")
  case None
  then have "filter (\<lambda>(t, ls). 1 < length ls) (leaders_by_term snap) = []"
    using split_brain_message_None [of snap] by (auto simp: split_brain_items filter_empty_conv)
  with None show ?thesis by (simp add: check_split_brain_def)
next
  case (Some msg)
  then show ?thesis
    using send_split_alerts_fst [of sns snap msg "leaders_by_term snap" alerts s]
    by (auto simp: check_split_brain_def)
qed

lemma check_no_leader_fst:
  "\<exists>nl. fst (check_no_leader sns snap alerts s) = alerts @ nl \<and>
     length nl = (if leader snap = None \<and>
       (\<exists>since. leaderless_since (mgr s) = Some since \<and> NO_LEADER_TIMEOUT_S \<le> secs (tick (env s)) - since)
       then 1 else 0)"
  by (auto simp: check_no_leader_def now_def Let_def split: option.splits prod.splits)

lemma check_quorum_loss_fst:
  "\<exists>q. fst (check_quorum_loss sns snap alerts s) = alerts @ q \<and>
     length q = (if nodes snap \<noteq> [] \<and> 2 * reachable_count snap \<le> length (nodes snap) then 1 else 0)"
proof -
  have arith: "\<not> length (nodes snap) div 2 + 1 \<le> reachable_count snap \<longleftrightarrow>
      2 * reachable_count snap \<le> length (nodes snap)" by linarith
  show ?thesis
    by (auto simp: check_quorum_loss_def Let_def arith [simplified] split: prod.splits)
qed

lemma check_no_leader_timer:
  "\<exists>t. secs (env s) \<le> t \<and> t \<le> secs (env (snd (check_no_leader sns snap alerts s))) \<and>
     leaderless_since (mgr (snd (check_no_leader sns snap alerts s))) =
       (if leader snap = None then Some (get_or (leaderless_since (mgr s)) t) else None)"
  by (rule exI [of _ "if leader snap = None then secs (tick (env s)) else secs (env s)"])
     (auto simp: check_no_leader_def now_def Let_def get_or_def split: option.splits prod.splits
       dest!: maybe_send_frame)

lemma check_timer:
  "\<exists>t. secs (env s) \<le> t \<and> t \<le> secs (env (snd (check sns snap s))) \<and>
     leaderless_since (mgr (snd (check sns snap s))) =
       (if leader snap = None then Some (get_or (leaderless_since (mgr s)) t) else None)"
proof -
  let ?a = "check_split_brain sns snap [] s"
  let ?b = "check_no_leader sns snap (fst ?a) (snd ?a)"
  have c: "check sns snap s = check_quorum_loss sns snap (fst ?b) (snd ?b)"
    by (simp add: check_def case_prod_beta Let_def)
  obtain t where t: "secs (env (snd ?a)) \<le> t" "t \<le> secs (env (snd ?b))"
    "leaderless_since (mgr (snd ?b)) =
       (if leader snap = None then Some (get_or (leaderless_since (mgr (snd ?a))) t) else None)"
    using check_no_leader_timer by blast
  show ?thesis
    using t check_split_brain_frame [of sns snap "[]" s] check_quorum_loss_frame [of sns snap "fst ?b" "snd ?b"]
    by (intro exI [of _ t]) (auto simp: c)
qed

lemma alert_round_timer:
  "\<exists>t. secs (env s) \<le> t \<and> t \<le> secs (env (alert_round sns r s)) \<and>
     leaderless_since (mgr (alert_round sns r s)) =
       (if leader (snd r) = None then Some (get_or (leaderless_since (mgr s)) t) else None)"
proof -
  let ?s = "s\<lparr>env := sleep (fst r) (env s)\<rparr>"
  obtain t where t: "secs (env ?s) \<le> t" "t \<le> secs (env (snd (check sns (snd r) ?s)))"
    "leaderless_since (mgr (snd (check sns (snd r) ?s))) =
       (if leader (snd r) = None then Some (get_or (leaderless_since (mgr ?s)) t) else None)"
    using check_timer by blast
  moreover have "secs (env s) \<le> t"
    using order_trans [OF secs_sleep_mono [of "env s" "fst r"], of t] t(1) by simp
  ultimately show ?thesis by (intro exI [of _ t]) (auto simp: alert_round_def)
qed

text \<open>
  \<open>timer_started_at sns s0 rs i since\<close>: round \<open>i\<close> begins the leaderless streak that lasts to
  the end of \<open>rs\<close>, and \<open>since\<close> is a time within that round.
\<close>

definition timer_started_at ::
  "(nat \<Rightarrow> sns_answer) \<Rightarrow> alert_env \<Rightarrow> (real \<times> cluster_snapshot) list \<Rightarrow> nat \<Rightarrow> real \<Rightarrow> bool" where
  "timer_started_at sns s0 rs i since \<longleftrightarrow>
     {i ..< length rs} \<subseteq> {j. leader (snd (rs ! j)) = None} \<and>
     (i = 0 \<or> (\<exists>n. leader (snd (rs ! (i - 1))) = Some n)) \<and>
     secs (env (alert_run sns (take i rs) s0)) \<le> since \<and>
     since \<le> secs (env (alert_run sns (take (Suc i) rs) s0))"

lemma timer_started_at_snoc:
  assumes "i < length rs" "timer_started_at sns s0 rs i since" "leader (snd r) = None"
  shows "timer_started_at sns s0 (rs @ [r]) i since"
  using assms by (auto simp: timer_started_at_def nth_append less_Suc_eq subset_iff)

lemma append_sep_inject:
  assumes "xs @ c # ys = xs' @ c # ys'" "c \<notin> set xs" "c \<notin> set xs'"
  shows "xs = xs' \<and> ys = ys'"
  using assms
proof (induction xs arbitrary: xs')
  case Nil
  then show ?case by (cases xs') auto
next
  case (Cons x xs)
  then show ?case by (cases xs') auto
qed

lemma colon_notin_dec_int: "CHR '':'' \<notin> set (dec_int i)"
  by (auto dest!: set_dec_int simp: is_digit_def)

lemma slash_notin_dec_nat: "CHR ''/'' \<notin> set (dec_nat n)"
  using dec_nat_digits [of n] by (auto simp: is_digit_def)

section \<open>Properties\<close>

text \<open>
  C1: notifications are rate limited.  Whatever snapshots arrive, however much time passes between
  them and whatever SNS answers, two publish calls for the same alert key are at least
  \<open>COOLDOWN_S\<close> (120) seconds apart.
\<close>

theorem alerts_spaced:
  "spaced COOLDOWN_S (alert_log (alert_run sns rounds (alert_start arn disable w)))"
  using spacing.inv_run [OF alert_start_invariants(1)] by (simp add: alert_ok_def gate_ok_def)

text \<open>
  C33: nothing is published in the first two minutes of the monotonic clock.  The cooldown test
  compares with 0.0 for a key that was never sent, so while \<open>time.monotonic()\<close> is below 120
  every alert, split-brain included, is suppressed as if it were a duplicate.
\<close>

theorem cold_start_silent:
  assumes "secs (env (alert_run sns rounds (alert_start arn disable w))) < COOLDOWN_S"
  shows "outbox (alert_run sns rounds (alert_start arn disable w)) = []"
proof -
  let ?s = "alert_run sns rounds (alert_start arn disable w)"
  have late: "outbox_late ?s" by (rule late.inv_run [OF alert_start_invariants(2)])
  show ?thesis
  proof (rule ccontr)
    assume "outbox ?s \<noteq> []"
    then obtain c where "c \<in> set (outbox ?s)" by (cases "outbox ?s") auto
    with late have "COOLDOWN_S \<le> secs (env ?s)" by (auto simp: outbox_late_def)
    with assms show False by simp
  qed
qed


text \<open>
  C28: the leaderless timer measures the current leaderless streak.  After any run it is unset
  exactly when there was no round or the last snapshot had a single leader; otherwise it holds a
  clock reading taken in the first round of the unbroken sequence of leaderless snapshots that
  ends with the last one.
\<close>

theorem leaderless_timer_streak:
  fixes rounds :: "(real \<times> cluster_snapshot) list"
  shows "case leaderless_since (mgr (alert_run sns rounds (alert_start arn disable w))) of
     None \<Rightarrow> rounds = [] \<or> (\<exists>n. leader (snd (last rounds)) = Some n)
   | Some since \<Rightarrow> (\<exists>i < length rounds. timer_started_at sns (alert_start arn disable w) rounds i since)"
proof (induction rounds rule: rev_induct)
  case Nil
  show ?case by (simp add: alert_run_def alert_start_def alert_manager_init_def)
next
  case (snoc r rs)
  let ?init = "alert_start arn disable w"
  let ?mid = "alert_run sns rs ?init"
  obtain t where t: "secs (env ?mid) \<le> t" "t \<le> secs (env (alert_round sns r ?mid))"
    "leaderless_since (mgr (alert_round sns r ?mid)) =
       (if leader (snd r) = None then Some (get_or (leaderless_since (mgr ?mid)) t) else None)"
    using alert_round_timer by blast
  have run: "alert_run sns (rs @ [r]) ?init = alert_round sns r ?mid" by (simp add: alert_run_def)
  show ?case
  proof (cases "leader (snd r)")
    case (Some n)
    then show ?thesis using t(3) by (simp add: run)
  next
    case None
    show ?thesis
    proof (cases "leaderless_since (mgr ?mid)")
      case since: None
      with snoc have "rs = [] \<or> (\<exists>n. leader (snd (last rs)) = Some n)" by simp
      then have "timer_started_at sns ?init (rs @ [r]) (length rs) t"
        using None t(1,2)
        by (cases rs rule: rev_cases) (auto simp: timer_started_at_def nth_append alert_run_def)
      then show ?thesis using t(3) None since by (auto simp: run get_or_def)
    next
      case (Some since)
      with snoc obtain i where "i < length rs" "timer_started_at sns ?init rs i since" by auto
      then have "timer_started_at sns ?init (rs @ [r]) i since" using None by (rule timer_started_at_snoc)
      with \<open>i < length rs\<close> show ?thesis using t(3) None Some by (auto simp: run get_or_def intro!: exI [of _ i])
    qed
  qed
qed

text \<open>
  Alert keys identify incidents.  Keys of different detectors never coincide, no-leader keys
  determine the term, quorum-loss keys the counts, and split-brain keys the term and the sorted
  list of leaders, provided node ids contain no comma.
\<close>

theorem alert_keys_identify:
  assumes "\<forall>x \<in> set ls \<union> set ls'. CHR '','' \<notin> set x" "ls \<noteq> []" "ls' \<noteq> []"
  shows "(split_key t ls = split_key t' ls' \<longleftrightarrow> t = t' \<and> sort ls = sort ls') \<and>
    (no_leader_key t = no_leader_key t' \<longleftrightarrow> t = t') \<and>
    (quorum_key m n = quorum_key m' n' \<longleftrightarrow> m = m' \<and> n = n') \<and>
    split_key t ls \<noteq> no_leader_key t' \<and> split_key t ls \<noteq> quorum_key m n \<and>
    no_leader_key t \<noteq> quorum_key m n"
proof -
  have sort_ne: "sort ls \<noteq> []" "sort ls' \<noteq> []" using assms(2,3) by (metis set_empty set_sort)+
  have "split_key t ls = split_key t' ls' \<longleftrightarrow> t = t' \<and> sort ls = sort ls'"
  proof
    assume "split_key t ls = split_key t' ls'"
    then have "dec_int t @ CHR '':'' # ''leaders='' @ join [CHR '',''] (sort ls) =
        dec_int t' @ CHR '':'' # ''leaders='' @ join [CHR '',''] (sort ls')"
      by (simp add: split_key_def)
    then have "dec_int t = dec_int t'" and j: "join [CHR '',''] (sort ls) = join [CHR '',''] (sort ls')"
      by (auto dest!: append_sep_inject [OF _ colon_notin_dec_int colon_notin_dec_int])
    moreover have "sort ls = sort ls'"
      using j sort_ne assms(1) by (intro join_inject [OF j]) auto
    ultimately show "t = t' \<and> sort ls = sort ls'" by simp
  qed (simp add: split_key_def)
  moreover have "quorum_key m n = quorum_key m' n' \<longleftrightarrow> m = m' \<and> n = n'"
    by (auto simp: quorum_key_def dest!: append_sep_inject [OF _ slash_notin_dec_nat slash_notin_dec_nat])
  ultimately show ?thesis by (simp add: no_leader_key_def split_key_def quorum_key_def)
qed

theorem alert_keys_identify_witness:
  "split_key 3 [''b'', ''a''] = split_key 3 [''a'', ''b''] \<and> split_key 3 [''a'', ''b''] \<noteq> split_key 4 [''a'', ''b'']"
  using alert_keys_identify [of "[''b'', ''a'']" "[''a'', ''b'']" 3 3 1 2 1 2]
    alert_keys_identify [of "[''a'', ''b'']" "[''a'', ''b'']" 3 4 1 2 1 2]
  by simp

text \<open>
  Without a quorum-loss line the reachable nodes are a majority: if neither of two snapshots of
  the same non-empty set of nodes makes \<open>_check_quorum_loss\<close> add a line, then some node is
  reachable in both, which is what quorum intersection needs.
\<close>

theorem quorum_intersection:
  assumes "length (nodes snap) = length (nodes snap')" "nodes snap \<noteq> []"
    and "fst (check_quorum_loss sns snap alerts s) = alerts"
    and "fst (check_quorum_loss sns' snap' alerts' s') = alerts'"
  shows "\<exists>i < length (nodes snap). reachable (nodes snap ! i) \<and> reachable (nodes snap' ! i)"
proof -
  let ?n = "length (nodes snap)"
  let ?R = "{i. i < ?n \<and> reachable (nodes snap ! i)}"
  let ?R' = "{i. i < ?n \<and> reachable (nodes snap' ! i)}"
  have "nodes snap' \<noteq> []" using assms(1,2) by auto
  with assms check_quorum_loss_fst [of sns snap alerts s] check_quorum_loss_fst [of sns' snap' alerts' s']
  have "?n < 2 * reachable_count snap" "?n < 2 * reachable_count snap'"
    by (auto split: if_splits)
  then have card: "?n < card ?R + card ?R'"
    by (simp add: reachable_count_def length_filter_conv_card assms(1))
  have "?R \<inter> ?R' \<noteq> {}"
  proof
    assume "?R \<inter> ?R' = {}"
    then have "card ?R + card ?R' = card (?R \<union> ?R')" by (intro card_Un_disjoint [symmetric]) auto
    also have "\<dots> \<le> card {..< ?n}" by (intro card_mono) auto
    finally show False using card by simp
  qed
  then show ?thesis by blast
qed

definition demo_node :: "bool \<Rightarrow> node_state" where
  "demo_node up = (if up then from_dict \<lparr>d_node_id = Some ''coordinator-a'', d_state = Some ''follower'',
      d_current_term = Some 2, d_voted_for = None, d_commit_index = None, d_last_applied = None,
      d_log_length = None, d_match_index = None, d_next_index = None\<rparr> ''h:8080'' 0
    else unreachable ''h:8080'' ''timeout'' 0)"

definition demo_env :: alert_env where
  "demo_env = alert_start ''arn'' False \<lparr>w_ns = 0, w_k = 0, w_delay = (\<lambda>_. 1)\<rparr>"

definition demo_snap :: "bool list \<Rightarrow> cluster_snapshot" where
  "demo_snap ups = \<lparr>nodes = map demo_node ups, snap_polled_at = 0\<rparr>"

theorem quorum_intersection_witness:
  "\<exists>i < 3. reachable (nodes (demo_snap [True, True, False]) ! i) \<and>
     reachable (nodes (demo_snap [False, True, True]) ! i)"
proof -
  have "fst (check_quorum_loss (\<lambda>_. SnsOk) (demo_snap [True, True, False]) [] demo_env) = []"
    "fst (check_quorum_loss (\<lambda>_. SnsOk) (demo_snap [False, True, True]) [] demo_env) = []"
    by code_simp+
  from quorum_intersection [OF _ _ this] show ?thesis by (simp add: demo_snap_def numeral_3_eq_3)
qed

theorem cold_start_silent_witness:
  "outbox (alert_run (\<lambda>_. SnsOk) [(20, \<lparr>nodes = [demo_node False], snap_polled_at = 0\<rparr>)]
     (alert_start ''arn'' False \<lparr>w_ns = 0, w_k = 0, w_delay = (\<lambda>_. 1)\<rparr>)) = []"
proof -
  have "secs (env (alert_run (\<lambda>_. SnsOk) [(20, \<lparr>nodes = [demo_node False], snap_polled_at = 0\<rparr>)]
     (alert_start ''arn'' False \<lparr>w_ns = 0, w_k = 0, w_delay = (\<lambda>_. 1)\<rparr>))) < COOLDOWN_S"
    by (simp add: alert_run_def alert_round_def alert_start_def alert_manager_init_def check_def
        check_split_brain_def split_brain_message_def leaders_by_term_def group_by_def
        check_no_leader_def leader_def leaders_def check_quorum_loss_def reachable_count_def Let_def
        maybe_send_unfold demo_node_def COOLDOWN_S_def world_defs dget_default_def)
  then show ?thesis by (rule cold_start_silent)
qed

end
