(* ===== verification/Metrics.thy ===== *)
theory Metrics
  imports Raft_Client World
begin

text \<open>
  \<open>state-observer/metrics.py\<close>: the Prometheus gauges and the buffered CloudWatch publisher.
  The gauge registry is a dictionary from (metric, label values) to the value last set; the
  requests made of CloudWatch are a list of batches with CloudWatch's answer.  The UTC timestamp
  of a round and the answers of \<open>put_metric_data\<close> are parameters (functions of the
  interaction number), since the wall clock's calendar and CloudWatch are outside the program.
\<close>

section \<open>State\<close>

record datum =
  MetricName :: py_str
  Value :: real
  Unit :: py_str
  Timestamp :: py_str
  Dimensions :: "(py_str \<times> py_str) list option"

datatype put_answer = PutOk | PutFailed py_str

type_synonym gauge_key = "py_str \<times> py_str list"

record metrics_publisher =
  cw_namespace :: py_str
  cw_interval :: real
  disable_cw :: bool
  last_cw_publish :: real
  pending_metrics :: "datum list"

record metrics_env =
  pub :: metrics_publisher
  gauges :: "(gauge_key, int) pydict"
  m_env :: world
  cw_calls :: "(py_str \<times> datum list \<times> put_answer) list"

definition metrics_publisher_init :: "py_str \<Rightarrow> real \<Rightarrow> bool \<Rightarrow> metrics_publisher" where
  "metrics_publisher_init ns interval disable =
     \<lparr>cw_namespace = ns, cw_interval = interval, disable_cw = disable, last_cw_publish = 0,
      pending_metrics = []\<rparr>"

section \<open>Prometheus\<close>

definition flag :: "bool \<Rightarrow> int" where
  "flag b = (if b then 1 else 0)"

definition set_gauge :: "py_str \<Rightarrow> py_str list \<Rightarrow> int \<Rightarrow> (gauge_key, int) pydict \<Rightarrow> (gauge_key, int) pydict" where
  "set_gauge name labels v g = dset (name, labels) v g"

definition node_gauges :: "node_state \<Rightarrow> (gauge_key, int) pydict \<Rightarrow> (gauge_key, int) pydict" where
  "node_gauges n g =
     (let nid = node_id n;
          g1 = set_gauge ''raft_current_term'' [nid] (current_term n) g;
          g2 = set_gauge ''raft_commit_index'' [nid] (commit_index n) g1;
          g3 = set_gauge ''raft_log_length'' [nid] (log_length n) g2;
          g4 = set_gauge ''raft_is_leader'' [nid] (flag (is_leader n)) g3;
          g5 = set_gauge ''raft_node_up'' [nid] (flag (reachable n)) g4
      in fold (\<lambda>(peer_id, lag). set_gauge ''raft_replication_lag'' [nid, peer_id] lag)
           (replication_lags n) g5)"

definition leader_term :: "cluster_snapshot \<Rightarrow> int" where
  "leader_term snap = (case leader snap of None \<Rightarrow> 0 | Some n \<Rightarrow> current_term n)"

definition update_prometheus :: "cluster_snapshot \<Rightarrow> (gauge_key, int) pydict \<Rightarrow> (gauge_key, int) pydict" where
  "update_prometheus snap g =
     (let g1 = fold node_gauges (nodes snap) g;
          g2 = set_gauge ''raft_has_leader'' [] (flag (leader snap \<noteq> None)) g1;
          g3 = set_gauge ''raft_split_brain'' [] (flag (split_brain_message snap \<noteq> None)) g2;
          g4 = set_gauge ''raft_leader_term'' [] (leader_term snap) g3
      in set_gauge ''raft_nodes_up'' [] (int (reachable_count snap)) g4)"

section \<open>CloudWatch\<close>

definition cw_datum :: "py_str \<Rightarrow> int \<Rightarrow> (py_str \<times> py_str) list \<Rightarrow> py_str \<Rightarrow> datum" where
  "cw_datum name v dims ts =
     \<lparr>MetricName = name, Value = of_int v, Unit = ''Count'', Timestamp = ts,
      Dimensions = (if dims = [] then None else Some dims)\<rparr>"

definition node_data :: "py_str \<Rightarrow> node_state \<Rightarrow> datum list" where
  "node_data ts n =
     (let nid = node_id n; dim = [(''NodeId'', nid)]
      in [cw_datum ''CurrentTerm'' (current_term n) dim ts,
          cw_datum ''CommitIndex'' (commit_index n) dim ts,
          cw_datum ''LogLength'' (log_length n) dim ts,
          cw_datum ''IsLeader'' (flag (is_leader n)) dim ts,
          cw_datum ''NodeUp'' (flag (reachable n)) dim ts] @
         map (\<lambda>(peer_id, lag). cw_datum ''ReplicationLag'' lag [(''LeaderId'', nid), (''PeerId'', peer_id)] ts)
           (replication_lags n))"

definition snapshot_data :: "py_str \<Rightarrow> cluster_snapshot \<Rightarrow> datum list" where
  "snapshot_data ts snap =
     concat (map (node_data ts) (nodes snap)) @
     [cw_datum ''HasLeader'' (flag (leader snap \<noteq> None)) [] ts,
      cw_datum ''SplitBrain'' (flag (split_brain_message snap \<noteq> None)) [] ts,
      cw_datum ''LeaderTerm'' (leader_term snap) [] ts,
      cw_datum ''NodesUp'' (int (reachable_count snap)) [] ts]"

definition buffer_cloudwatch :: "(nat \<Rightarrow> py_str) \<Rightarrow> cluster_snapshot \<Rightarrow> metrics_env \<Rightarrow> metrics_env" where
  "buffer_cloudwatch utc snap s =
     (let (ts, w) = call utc (m_env s)
      in s\<lparr>m_env := w, pub := (pub s)\<lparr>pending_metrics := pending_metrics (pub s) @ snapshot_data ts snap\<rparr>\<rparr>)"

fun put_batches :: "(nat \<Rightarrow> put_answer) \<Rightarrow> datum list list \<Rightarrow> metrics_env \<Rightarrow> metrics_env" where
  "put_batches cw [] s = s"
| "put_batches cw (b # bs) s =
     (let (ans, w) = call cw (m_env s)
      in put_batches cw bs (s\<lparr>m_env := w, cw_calls := cw_calls s @ [(cw_namespace (pub s), b, ans)]\<rparr>))"

definition flush_cloudwatch :: "(nat \<Rightarrow> put_answer) \<Rightarrow> metrics_env \<Rightarrow> metrics_env" where
  "flush_cloudwatch cw s =
     (if pending_metrics (pub s) = [] then s
      else
        let batches = chunks 1000 (pending_metrics (pub s));
            (t, w) = now (m_env s)
        in put_batches cw batches
             (s\<lparr>m_env := w, pub := (pub s)\<lparr>pending_metrics := [], last_cw_publish := t\<rparr>\<rparr>))"

definition update :: "(nat \<Rightarrow> py_str) \<Rightarrow> (nat \<Rightarrow> put_answer) \<Rightarrow> cluster_snapshot \<Rightarrow> metrics_env \<Rightarrow> metrics_env" where
  "update utc cw snap s =
     (let s1 = s\<lparr>gauges := update_prometheus snap (gauges s)\<rparr>
      in if disable_cw (pub s1) then s1
         else
           let s2 = buffer_cloudwatch utc snap s1;
               (t, w) = now (m_env s2);
               s3 = s2\<lparr>m_env := w\<rparr>
           in if cw_interval (pub s3) \<le> t - last_cw_publish (pub s3) then flush_cloudwatch cw s3 else s3)"

section \<open>Shared lemmas\<close>

lemma flag_simps [simp]: "flag True = 1" "flag False = 0"
  by (simp_all add: flag_def)

lemma dget_set_gauge [simp]:
  "dget (set_gauge name labels v g) key = (if key = (name, labels) then Some v else dget g key)"
  by (simp add: set_gauge_def)

lemma fold_lags_other:
  assumes "fst key \<noteq> name \<or> hd (snd key) \<noteq> nid"
  shows "dget (fold (\<lambda>(peer_id, lag). set_gauge name [nid, peer_id] lag) lags g) key = dget g key"
proof (induction lags arbitrary: g)
  case (Cons l lags)
  have "key \<noteq> (name, [nid, fst l])" using assms by auto
  with Cons show ?case by (simp add: case_prod_beta)
qed simp

lemma node_gauges_other:
  assumes "snd key \<noteq> []" "hd (snd key) \<noteq> node_id n"
  shows "dget (node_gauges n g) key = dget g key"
proof -
  have "key \<noteq> (name, [node_id n])" for name using assms(2) by auto
  with assms(2) show ?thesis by (simp add: node_gauges_def Let_def fold_lags_other)
qed

lemma node_gauges_cluster:
  "dget (node_gauges n g) (name, []) = dget g (name, [])"
proof -
  have "dget (fold (\<lambda>(peer_id, lag). set_gauge ''raft_replication_lag'' [nid, peer_id] lag) lags h) (name, []) =
      dget h (name, [])" for nid lags h
    by (induction lags arbitrary: h) auto
  then show ?thesis by (simp add: node_gauges_def Let_def)
qed

lemma node_gauges_self:
  "dget (node_gauges n g) (''raft_current_term'', [node_id n]) = Some (current_term n)"
  "dget (node_gauges n g) (''raft_commit_index'', [node_id n]) = Some (commit_index n)"
  "dget (node_gauges n g) (''raft_log_length'', [node_id n]) = Some (log_length n)"
  "dget (node_gauges n g) (''raft_is_leader'', [node_id n]) = Some (flag (is_leader n))"
  "dget (node_gauges n g) (''raft_node_up'', [node_id n]) = Some (flag (reachable n))"
  by (simp_all add: node_gauges_def Let_def fold_lags_other)

lemma fold_node_gauges_other:
  assumes "snd key \<noteq> []" "hd (snd key) \<notin> node_id ` set ns"
  shows "dget (fold node_gauges ns g) key = dget g key"
  using assms by (induction ns arbitrary: g) (auto simp: node_gauges_other)

lemma fold_node_gauges_self:
  assumes "distinct (map node_id ns)" "n \<in> set ns" "snd key = [node_id n]"
    and self: "\<And>g. dget (node_gauges n g) key = Some v"
  shows "dget (fold node_gauges ns g) key = Some v"
  using assms(1,2)
proof (induction ns arbitrary: g)
  case (Cons x ns)
  show ?case
  proof (cases "x = n")
    case True
    with Cons.prems have "hd (snd key) \<notin> node_id ` set ns" using assms(3) by auto
    with True show ?thesis using self assms(3) by (simp add: fold_node_gauges_other)
  next
    case False
    with Cons show ?thesis by simp
  qed
qed simp

lemma update_prometheus_node_key:
  "labels \<noteq> [] \<Longrightarrow> dget (update_prometheus snap g) (name, labels) = dget (fold node_gauges (nodes snap) g) (name, labels)"
  by (simp add: update_prometheus_def Let_def)

lemma put_batches_frame:
  "pub (put_batches cw bs s) = pub s \<and> gauges (put_batches cw bs s) = gauges s \<and>
   secs (m_env s) \<le> secs (m_env (put_batches cw bs s))"
proof (induction bs arbitrary: s)
  case (Cons b bs)
  let ?s = "s\<lparr>m_env := tick (m_env s), cw_calls := cw_calls s @ [(cw_namespace (pub s), b, cw (w_k (m_env s)))]\<rparr>"
  show ?case using Cons [of ?s] order_trans [OF secs_tick, of "m_env s"] by (simp add: call_def)
qed simp

lemma put_batches_sent:
  "map (fst \<circ> snd) (cw_calls (put_batches cw bs s)) = map (fst \<circ> snd) (cw_calls s) @ bs"
  by (induction bs arbitrary: s) (simp_all add: call_def)

definition sent_data :: "metrics_env \<Rightarrow> datum list" where
  "sent_data s = concat (map (fst \<circ> snd) (cw_calls s))"

definition batches_ok :: "metrics_env \<Rightarrow> bool" where
  "batches_ok s \<longleftrightarrow> (\<forall>c \<in> set (cw_calls s). 0 < length (fst (snd c)) \<and> length (fst (snd c)) \<le> 1000)"

lemma batches_ok_frame [simp]:
  "batches_ok (s\<lparr>m_env := v\<rparr>) = batches_ok s" "batches_ok (s\<lparr>gauges := g\<rparr>) = batches_ok s"
  "batches_ok (s\<lparr>pub := q\<rparr>) = batches_ok s"
  by (simp_all add: batches_ok_def)

lemma flush_sent: "sent_data (flush_cloudwatch cw s) @ pending_metrics (pub (flush_cloudwatch cw s)) =
    sent_data s @ pending_metrics (pub s)"
  by (simp add: flush_cloudwatch_def sent_data_def now_def Let_def put_batches_sent put_batches_frame
      concat_chunks)

lemma flush_empties: "pending_metrics (pub (flush_cloudwatch cw s)) = []"
  by (simp add: flush_cloudwatch_def now_def Let_def put_batches_frame)

lemma batches_ok_iff:
  "batches_ok s \<longleftrightarrow> (\<forall>b \<in> set (map (fst \<circ> snd) (cw_calls s)). 0 < length b \<and> length b \<le> 1000)"
  by (auto simp: batches_ok_def)

lemma flush_batches_ok: "batches_ok s \<Longrightarrow> batches_ok (flush_cloudwatch cw s)"
  using chunks_length [of 1000 _ "pending_metrics (pub s)"]
  by (auto simp: batches_ok_iff flush_cloudwatch_def now_def Let_def put_batches_sent
      simp del: map_map set_map)

lemma flush_frame:
  "disable_cw (pub (flush_cloudwatch cw s)) = disable_cw (pub s) \<and>
   cw_interval (pub (flush_cloudwatch cw s)) = cw_interval (pub s) \<and>
   gauges (flush_cloudwatch cw s) = gauges s \<and>
   (cw_calls (flush_cloudwatch cw s) = cw_calls s \<or>
    last_cw_publish (pub (flush_cloudwatch cw s)) = secs (tick (m_env s)))"
  by (simp add: flush_cloudwatch_def now_def Let_def put_batches_frame)

lemma update_unfold:
  "update utc cw snap s =
     (let s1 = s\<lparr>gauges := update_prometheus snap (gauges s)\<rparr>;
          s3 = s1\<lparr>pub := (pub s)\<lparr>pending_metrics := pending_metrics (pub s) @ snapshot_data (utc (w_k (m_env s))) snap\<rparr>,
                  m_env := tick (tick (m_env s))\<rparr>
      in if disable_cw (pub s) then s1
         else if cw_interval (pub s) \<le> secs (tick (tick (m_env s))) - last_cw_publish (pub s)
         then flush_cloudwatch cw s3 else s3)"
  by (simp add: update_def buffer_cloudwatch_def now_def call_def Let_def)

lemma update_sent:
  "\<not> disable_cw (pub s) \<Longrightarrow>
   sent_data (update utc cw snap s) @ pending_metrics (pub (update utc cw snap s)) =
     sent_data s @ pending_metrics (pub s) @ snapshot_data (utc (w_k (m_env s))) snap"
  by (simp add: update_unfold Let_def flush_sent) (simp add: sent_data_def)

lemma update_frame:
  "disable_cw (pub (update utc cw snap s)) = disable_cw (pub s)"
  "gauges (update utc cw snap s) = update_prometheus snap (gauges s)"
  "disable_cw (pub s) \<Longrightarrow> update utc cw snap s = s\<lparr>gauges := update_prometheus snap (gauges s)\<rparr>"
  by (simp_all add: update_unfold Let_def flush_frame)

lemma flush_time: "secs (m_env s) \<le> secs (m_env (flush_cloudwatch cw s))"
proof -
  let ?s = "s\<lparr>m_env := tick (m_env s), pub := (pub s)\<lparr>pending_metrics := [], last_cw_publish := secs (tick (m_env s))\<rparr>\<rparr>"
  have "secs (tick (m_env s)) \<le> secs (m_env (put_batches cw bs ?s))" for bs
    using put_batches_frame [of cw bs ?s] by simp
  with order_trans [OF secs_tick] show ?thesis by (auto simp: flush_cloudwatch_def now_def Let_def)
qed

lemma update_time: "secs (m_env s) \<le> secs (m_env (update utc cw snap s))"
proof -
  have two: "secs (m_env s) \<le> secs (tick (tick (m_env s)))"
    using secs_tick [of "m_env s"] secs_tick [of "tick (m_env s)"] by linarith
  let ?s = "s\<lparr>gauges := update_prometheus snap (gauges s),
      pub := (pub s)\<lparr>pending_metrics := pending_metrics (pub s) @ snapshot_data (utc (w_k (m_env s))) snap\<rparr>,
      m_env := tick (tick (m_env s))\<rparr>"
  from order_trans [OF two, of "secs (m_env (flush_cloudwatch cw ?s))"] flush_time [of ?s cw] two
  show ?thesis by (simp add: update_unfold Let_def)
qed

lemma update_batches_ok: "batches_ok s \<Longrightarrow> batches_ok (update utc cw snap s)"
  by (simp add: update_unfold Let_def flush_batches_ok)

text \<open>A run: time passes between rounds, then the snapshot of the round is published.\<close>

definition metrics_round ::
  "(nat \<Rightarrow> py_str) \<Rightarrow> (nat \<Rightarrow> put_answer) \<Rightarrow> real \<times> cluster_snapshot \<Rightarrow> metrics_env \<Rightarrow> metrics_env" where
  "metrics_round utc cw r s = update utc cw (snd r) (s\<lparr>m_env := sleep (fst r) (m_env s)\<rparr>)"

definition metrics_run ::
  "(nat \<Rightarrow> py_str) \<Rightarrow> (nat \<Rightarrow> put_answer) \<Rightarrow> (real \<times> cluster_snapshot) list \<Rightarrow> metrics_env \<Rightarrow> metrics_env" where
  "metrics_run utc cw rs s = fold (metrics_round utc cw) rs s"

definition metrics_start :: "py_str \<Rightarrow> real \<Rightarrow> bool \<Rightarrow> world \<Rightarrow> metrics_env" where
  "metrics_start ns interval disable w =
     \<lparr>pub = metrics_publisher_init ns interval disable, gauges = [], m_env = w, cw_calls = []\<rparr>"

definition handed_off :: "bool \<Rightarrow> (real \<times> cluster_snapshot) list \<Rightarrow> metrics_env \<Rightarrow> bool" where
  "handed_off disable rounds out \<longleftrightarrow>
     (if disable then cw_calls out = [] \<and> pending_metrics (pub out) = []
      else \<exists>tss. length tss = length rounds \<and>
        sent_data out @ pending_metrics (pub out) =
          concat (map2 (\<lambda>ts r. snapshot_data ts (snd r)) tss rounds))"

lemma handed_off_frame [simp]: "handed_off d rs (s\<lparr>m_env := v\<rparr>) = handed_off d rs s"
  by (simp add: handed_off_def sent_data_def)

lemma update_handed_off:
  assumes "handed_off (disable_cw (pub s)) rs s"
  shows "handed_off (disable_cw (pub s)) (rs @ [(d, snap)]) (update utc cw snap s)"
proof (cases "disable_cw (pub s)")
  case True
  with assms show ?thesis by (simp add: handed_off_def update_frame)
next
  case False
  with assms obtain tss where tss: "length tss = length rs"
    "sent_data s @ pending_metrics (pub s) = concat (map2 (\<lambda>ts r. snapshot_data ts (snd r)) tss rs)"
    by (auto simp: handed_off_def)
  let ?ts = "utc (w_k (m_env s))"
  have "sent_data (update utc cw snap s) @ pending_metrics (pub (update utc cw snap s)) =
      concat (map2 (\<lambda>ts r. snapshot_data ts (snd r)) (tss @ [?ts]) (rs @ [(d, snap)]))"
    using update_sent [OF False, of utc cw snap] tss by simp
  with tss(1) False show ?thesis
    unfolding handed_off_def by (auto intro!: exI [of _ "tss @ [?ts]"])
qed

lemma metrics_run_handed_off:
  fixes rounds :: "(real \<times> cluster_snapshot) list"
  shows "let out = metrics_run utc cw rounds (metrics_start ns interval disable w)
         in batches_ok out \<and> disable_cw (pub out) = disable \<and> handed_off disable rounds out"
proof (induction rounds rule: rev_induct)
  case Nil
  show ?case
    by (simp add: metrics_run_def metrics_start_def metrics_publisher_init_def batches_ok_def
        sent_data_def handed_off_def Let_def)
next
  case (snoc r rs)
  let ?m = "metrics_run utc cw rs (metrics_start ns interval disable w)"
  let ?t = "?m\<lparr>m_env := sleep (fst r) (m_env ?m)\<rparr>"
  have run: "metrics_run utc cw (rs @ [r]) (metrics_start ns interval disable w) = update utc cw (snd r) ?t"
    by (simp add: metrics_run_def metrics_round_def)
  have "batches_ok ?t" "disable_cw (pub ?t) = disable" "handed_off (disable_cw (pub ?t)) rs ?t"
    using snoc by (simp_all add: Let_def)
  then show ?case
    using update_batches_ok [of ?t utc cw "snd r"] update_handed_off [of ?t rs "fst r" "snd r" utc cw]
    unfolding run by (simp add: Let_def update_frame)
qed

section \<open>Properties\<close>

text \<open>
  C2: CloudWatch hand-off is exactly-once and in order.  Over any run with CloudWatch enabled, the
  data points of the batches sent so far followed by those still buffered are exactly the data
  points of all rounds, in order, each round with one timestamp; every batch has between 1 and
  1000 data points, CloudWatch's limit.  With CloudWatch disabled nothing is buffered or sent.
\<close>

theorem cloudwatch_handoff:
  "let out = metrics_run utc cw rounds (metrics_start ns interval disable w) in
   batches_ok out \<and>
   (if disable then cw_calls out = [] \<and> pending_metrics (pub out) = []
    else \<exists>tss. length tss = length rounds \<and>
      sent_data out @ pending_metrics (pub out) =
        concat (map2 (\<lambda>ts r. snapshot_data ts (snd r)) tss rounds))"
  using metrics_run_handed_off [of utc cw rounds ns interval disable w]
  unfolding Let_def handed_off_def by blast

text \<open>
  CloudWatch is called at most once per publish interval: an update either makes no call, or
  moves the time of the last publish forward by at least the configured interval.
\<close>

theorem publish_interval:
  "cw_calls (update utc cw snap s) = cw_calls s \<or>
   last_cw_publish (pub s) + cw_interval (pub s) \<le> last_cw_publish (pub (update utc cw snap s))"
proof -
  let ?s3 = "s\<lparr>gauges := update_prometheus snap (gauges s),
      pub := (pub s)\<lparr>pending_metrics := pending_metrics (pub s) @ snapshot_data (utc (w_k (m_env s))) snap\<rparr>,
      m_env := tick (tick (m_env s))\<rparr>"
  have "secs (tick (tick (m_env s))) \<le> secs (tick (tick (tick (m_env s))))" by simp
  then have "cw_calls (flush_cloudwatch cw ?s3) = cw_calls s \<or>
      secs (tick (tick (m_env s))) \<le> last_cw_publish (pub (flush_cloudwatch cw ?s3))"
    using flush_frame [of cw ?s3] by auto
  then show ?thesis by (auto simp: update_unfold Let_def)
qed

text \<open>
  After an update the Prometheus gauges show the snapshot: every node of it (ids being
  distinct) has its term, commit index, log length, leader flag and up flag, and the cluster
  gauges show whether there is one leader, whether there is a split-brain, the leader's term and
  the number of reachable nodes.
\<close>

theorem gauges_show_snapshot:
  assumes "distinct (map node_id (nodes snap))" "n \<in> set (nodes snap)"
  shows "let g = dget (gauges (update utc cw snap s)) in
    g (''raft_current_term'', [node_id n]) = Some (current_term n) \<and>
    g (''raft_commit_index'', [node_id n]) = Some (commit_index n) \<and>
    g (''raft_log_length'', [node_id n]) = Some (log_length n) \<and>
    g (''raft_is_leader'', [node_id n]) = Some (flag (is_leader n)) \<and>
    g (''raft_node_up'', [node_id n]) = Some (flag (reachable n)) \<and>
    g (''raft_has_leader'', []) = Some (flag (leader snap \<noteq> None)) \<and>
    g (''raft_split_brain'', []) = Some (flag (split_brain snap)) \<and>
    g (''raft_leader_term'', []) = Some (leader_term snap) \<and>
    g (''raft_nodes_up'', []) = Some (int (reachable_count snap))"
proof -
  note self = fold_node_gauges_self [OF assms _ node_gauges_self(1), simplified]
    fold_node_gauges_self [OF assms _ node_gauges_self(2), simplified]
    fold_node_gauges_self [OF assms _ node_gauges_self(3), simplified]
    fold_node_gauges_self [OF assms _ node_gauges_self(4), simplified]
    fold_node_gauges_self [OF assms _ node_gauges_self(5), simplified]
  have "split_brain_message snap \<noteq> None \<longleftrightarrow> split_brain snap"
    using split_brain_message_None [of snap] by (cases "split_brain_message snap") simp_all
  then show ?thesis
    by (simp add: Let_def update_frame update_prometheus_node_key self) (simp add: update_prometheus_def Let_def)
qed


definition demo_doc :: state_doc where
  "demo_doc = \<lparr>d_node_id = Some ''coordinator-a'', d_state = Some ''leader'', d_current_term = Some 7,
     d_voted_for = Some ''coordinator-a'', d_commit_index = Some 40, d_last_applied = Some 40,
     d_log_length = Some 41, d_match_index = Some [(''coordinator-b'', 38)], d_next_index = None\<rparr>"

definition demo_http :: "bool \<Rightarrow> py_str \<Rightarrow> py_str + state_doc" where
  "demo_http up url = (if up then Inr demo_doc else Inl ''timed out'')"

definition demo_metrics :: metrics_env where
  "demo_metrics = metrics_start ''Driftless/Raft'' 60 True \<lparr>w_ns = 0, w_k = 0, w_delay = (\<lambda>_. 1)\<rparr>"

theorem gauges_show_snapshot_witness:
  "let g = dget (gauges (update (\<lambda>_. ''ts'') (\<lambda>_. PutOk) (poll (demo_http True) (\<lambda>_. 0) [''10.0.0.7:8080'']) demo_metrics))
   in g (''raft_current_term'', [''coordinator-a'']) = Some 7 \<and> g (''raft_is_leader'', [''coordinator-a'']) = Some 1"
proof -
  let ?snap = "poll (demo_http True) (\<lambda>_. 0) [''10.0.0.7:8080'']"
  let ?n = "from_dict demo_doc ''10.0.0.7:8080'' 0"
  have n: "nodes ?snap = [?n]" by (simp add: poll_def poll_one_def demo_http_def)
  have "distinct (map node_id (nodes ?snap))" "?n \<in> set (nodes ?snap)" by (simp_all add: n)
  from gauges_show_snapshot [OF this, of "\<lambda>_. ''ts''" "\<lambda>_. PutOk" demo_metrics]
  show ?thesis by (simp add: Let_def demo_doc_def get_or_def)
qed


end
