(* ===== verification/Dashboard.thy ===== *)
theory Dashboard
  imports Raft_Client World
begin

text \<open>
  \<open>state-observer/dashboard.py\<close>: what the terminal dashboard shows.  A Rich \<open>Text\<close> is a list
  of styled spans, a table is its column names and rows, a panel has a title, a border style and a
  body; how Rich lays them out on the terminal is not modelled.  Attributes that \<open>__init__\<close>
  assigns late are optional in the state, so that reading one before it is assigned is the
  \<open>AttributeError\<close> Python raises.
\<close>

section \<open>Rich text, tables and panels\<close>

type_synonym rich_text = "(py_str \<times> py_str) list"

datatype panel_body = TextBody rich_text | TableBody "py_str list" "rich_text list list"

record panel =
  p_title :: py_str
  p_border :: py_str
  p_body :: panel_body

definition middle_dot :: py_str where "middle_dot = [CHR 0xC2, CHR 0xB7]"
definition ellipsis :: py_str where "ellipsis = [CHR 0xE2, CHR 0x80, CHR 0xA6]"
definition warning_sign :: py_str where "warning_sign = [CHR 0xE2, CHR 0x9A, CHR 0xA0]"
definition long_dash :: py_str where "long_dash = [CHR 0xE2, CHR 0x80, CHR 0x94]"
definition check_mark :: py_str where "check_mark = [CHR 0xE2, CHR 0x9C, CHR 0x93]"
definition cross_mark :: py_str where "cross_mark = [CHR 0xE2, CHR 0x9C, CHR 0x97]"
definition line_char :: py_str where "line_char = [CHR 0xE2, CHR 0x94, CHR 0x80]"
definition full_block :: py_str where "full_block = [CHR 0xE2, CHR 0x96, CHR 0x88]"
definition star_char :: py_str where "star_char = [CHR 0xE2, CHR 0x98, CHR 0x85]"
definition diamond_char :: py_str where "diamond_char = [CHR 0xE2, CHR 0x97, CHR 0x86]"

section \<open>State\<close>

definition THROUGHPUT_WINDOW :: real where "THROUGHPUT_WINDOW = 10"

record dashboard =
  dash_poll_interval :: real
  commit_history :: "(real \<times> int) list option"
  latest_snapshot :: "cluster_snapshot option"
  latest_alerts :: "py_str list"

text \<open>\<open>deque(maxlen=n).append(x)\<close> drops from the left.\<close>

definition deque_append :: "nat \<Rightarrow> 'a \<Rightarrow> 'a list \<Rightarrow> 'a list" where
  "deque_append n x xs = drop (length xs + 1 - n) (xs @ [x])"

section \<open>Rendering\<close>

definition format_state :: "py_str \<Rightarrow> py_str \<times> py_str" where
  "format_state st =
     (if st = ''leader'' then (star_char @ '' LEADER'', ''bold green'')
      else if st = ''candidate'' then (diamond_char @ '' candidate'', ''bold yellow'')
      else if st = ''follower'' then (''  follower'', [])
      else if st = ''unreachable'' then (''  unreachable'', ''dim red'')
      else (st, ''dim''))"

definition header :: "dashboard \<Rightarrow> py_str \<Rightarrow> rich_text" where
  "header d hms =
     [(''refreshed '', ''dim''), (hms, ''bold white''),
      (''  '' @ middle_dot @ ''  poll every '' @ fmt_fixed 1 (dash_poll_interval d) @ ''s'', ''dim'')]"

definition summary :: "cluster_snapshot option \<Rightarrow> panel" where
  "summary snap_opt =
     (case snap_opt of
        None \<Rightarrow> \<lparr>p_title = [], p_border = [],
                p_body = TextBody [(''Waiting for first poll'' @ ellipsis, ''dim'')]\<rparr>
      | Some snap \<Rightarrow>
          let leader_text =
                (case leader snap of
                   Some n \<Rightarrow> [(''Leader: '', ''dim''), (node_id n, ''bold green''),
                             (''  '' @ middle_dot @ ''  Term: '', ''dim''),
                             (dec_int (current_term n), ''bold white'')]
                 | None \<Rightarrow>
                     if 1 < length (leaders snap)
                     then [(warning_sign @ ''  SPLIT-BRAIN '' @ long_dash @ '' multiple leaders'', ''bold red'')]
                     else [(warning_sign @ ''  No leader elected'', ''bold yellow'')]);
              up_total = dec_nat (reachable_count snap) @ ''/'' @ dec_nat (length (nodes snap));
              up_color = (if reachable_count snap = length (nodes snap) then ''green'' else ''yellow'')
          in \<lparr>p_title = ''Cluster Summary'', p_border = ''blue'',
              p_body = TextBody (leader_text @
                [(''  '' @ middle_dot @ ''  Nodes up: '', ''dim''), (up_total, ''bold '' @ up_color)])\<rparr>)"

definition node_columns :: "py_str list" where
  "node_columns = [''Node'', ''State'', ''Term'', ''Commit'', ''Applied'', ''Log Len'', ''Status'']"

definition node_row :: "node_state \<Rightarrow> rich_text list" where
  "node_row n =
     [[(node_id n, if is_leader n then ''bold'' else [])],
      [format_state (role_state n)],
      [(dec_int (current_term n), [])], [(dec_int (commit_index n), [])],
      [(dec_int (last_applied n), [])], [(dec_int (log_length n), [])],
      [if reachable n then (check_mark @ '' up'', ''green'') else (cross_mark @ '' down'', ''red'')]]"

definition node_table :: "cluster_snapshot option \<Rightarrow> panel" where
  "node_table snap_opt =
     \<lparr>p_title = ''Node Status'', p_border = ''blue'',
      p_body = TableBody node_columns
        (case snap_opt of None \<Rightarrow> [] | Some snap \<Rightarrow> map node_row (sort_key node_id (nodes snap)))\<rparr>"

definition lag_style :: "int \<Rightarrow> py_str" where
  "lag_style lag = (if lag = 0 then ''green'' else if lag \<le> 3 then ''yellow'' else ''red'')"

definition lag_bar :: "int \<Rightarrow> py_str" where
  "lag_bar lag = concat (replicate (nat (min lag 20)) full_block)"

definition lag_row :: "node_state \<Rightarrow> py_str \<Rightarrow> rich_text list" where
  "lag_row n peer_id =
     (let lag = dget_default (replication_lags n) peer_id 0;
          match = dget_default (get_or (match_index n) []) peer_id 0
      in [[(peer_id, [])], [(dec_int match, [])], [(dec_int lag, lag_style lag)], [(lag_bar lag, lag_style lag)]])"

definition replication_table :: "cluster_snapshot option \<Rightarrow> panel" where
  "replication_table snap_opt =
     (case Option.bind snap_opt leader of
        None \<Rightarrow>
          \<lparr>p_title = ''Replication Lag'', p_border = ''blue'',
           p_body = TextBody [(line_char @ ''  No leader; replication lag unavailable'', ''dim'')]\<rparr>
      | Some n \<Rightarrow>
          let title = ''Replication Lag  (leader: '' @ node_id n @ '')''
          in if replication_lags n = []
             then \<lparr>p_title = title, p_border = ''blue'',
                   p_body = TextBody [(line_char @ ''  No peer replication data (single-node cluster?)'', ''dim'')]\<rparr>
             else \<lparr>p_title = title, p_border = ''blue'',
                   p_body = TableBody [''Peer'', ''Match Index'', ''Lag'', []]
                     (map (lag_row n) (sort (map fst (replication_lags n))))\<rparr>)"

definition commit_rate :: "dashboard \<Rightarrow> world \<Rightarrow> real option result \<times> world" where
  "commit_rate d w =
     (case commit_history d of
        None \<Rightarrow> (Inl (AttributeError ''_commit_history''), w)
      | Some hist \<Rightarrow>
          if length hist < 2 then (Inr None, w)
          else
            let (t, w1) = now w;
                window = filter (\<lambda>(u, c). t - THROUGHPUT_WINDOW \<le> u) hist
            in if length window < 2 then (Inr None, w1)
               else
                 let dt = fst (last window) - fst (hd window);
                     dc = snd (last window) - snd (hd window)
                 in if dt \<le> 0 then (Inr None, w1) else (Inr (Some (max 0 (of_int dc / dt))), w1))"

definition throughput_panel :: "dashboard \<Rightarrow> world \<Rightarrow> panel result \<times> world" where
  "throughput_panel d w =
     (let (rate, w1) = commit_rate d w
      in (bind_res rate (\<lambda>r. Inr
            \<lparr>p_title = ''Throughput'', p_border = ''blue'',
             p_body = TextBody ((''Commit rate: '', ''dim'') #
               (case r of
                  None \<Rightarrow> [(''calculating'' @ ellipsis, ''dim italic'')]
                | Some v \<Rightarrow> [(fmt_fixed 1 v @ '' entries/s'', ''bold '' @ (if 0 < v then ''green'' else ''dim''))]))\<rparr>),
          w1))"

definition alert_color :: "py_str \<Rightarrow> py_str" where
  "alert_color alert =
     (if contains alert ''SPLIT-BRAIN'' \<or> contains alert ''Quorum'' then ''red'' else ''yellow'')"

definition alerts_panel :: "py_str list \<Rightarrow> panel" where
  "alerts_panel alerts =
     \<lparr>p_title = ''Alerts'', p_border = (if alerts \<noteq> [] then ''red'' else ''blue''),
      p_body = TextBody
        (if alerts = [] then [(check_mark @ ''  No active alerts'', ''green'')]
         else map (\<lambda>a. (warning_sign @ ''  '' @ a @ [CHR 0x0A], alert_color a)) alerts)\<rparr>"

record screen =
  s_header :: rich_text
  s_summary :: panel
  s_nodes :: panel
  s_replication :: panel
  s_throughput :: panel
  s_alerts :: panel
  s_alerts_size :: nat

definition render :: "dashboard \<Rightarrow> py_str \<Rightarrow> cluster_snapshot option \<Rightarrow> py_str list \<Rightarrow> world \<Rightarrow> screen result \<times> world" where
  "render d hms snap_opt alerts w =
     (let (tp, w1) = throughput_panel d w
      in (bind_res tp (\<lambda>p. Inr
            \<lparr>s_header = header d hms, s_summary = summary snap_opt, s_nodes = node_table snap_opt,
             s_replication = replication_table snap_opt, s_throughput = p,
             s_alerts = alerts_panel alerts, s_alerts_size = max 3 (length alerts + 2)\<rparr>),
          w1))"

section \<open>Lifecycle and updates\<close>

text \<open>
  \<open>__init__\<close>: \<open>_poll_interval\<close> is assigned, then \<open>_live\<close> is built from a first
  \<open>_render(None, [])\<close>, and only then \<open>_commit_history\<close> and the other attributes.
\<close>

definition dashboard_init :: "real \<Rightarrow> py_str \<Rightarrow> world \<Rightarrow> dashboard result \<times> world" where
  "dashboard_init interval hms w =
     (let d = \<lparr>dash_poll_interval = interval, commit_history = None, latest_snapshot = None, latest_alerts = []\<rparr>;
          (scr, w1) = render d hms None [] w
      in (bind_res scr (\<lambda>_. Inr (d\<lparr>commit_history := Some []\<rparr>)), w1))"

definition dash_update ::
  "dashboard \<Rightarrow> py_str \<Rightarrow> cluster_snapshot \<Rightarrow> py_str list \<Rightarrow> world \<Rightarrow> (screen result \<times> dashboard) \<times> world" where
  "dash_update d hms snap alerts w =
     (let d1 = d\<lparr>latest_snapshot := Some snap, latest_alerts := alerts\<rparr>
      in case leader snap of
           None \<Rightarrow> let (scr, w1) = render d1 hms (Some snap) alerts w in ((scr, d1), w1)
         | Some n \<Rightarrow>
             (case commit_history d1 of
                None \<Rightarrow> ((Inl (AttributeError ''_commit_history''), d1), w)
              | Some hist \<Rightarrow>
                  let (t, w1) = now w;
                      d2 = d1\<lparr>commit_history := Some (deque_append 64 (t, commit_index n) hist)\<rparr>;
                      (scr, w2) = render d2 hms (Some snap) alerts w1
                  in ((scr, d2), w2)))"

section \<open>The history of commit samples\<close>

text \<open>
  A run of the dashboard: one \<open>dash_update\<close> per poll round, with any snapshots, alerts and
  displayed times.
\<close>

type_synonym dash_input = "py_str \<times> cluster_snapshot \<times> py_str list"

fun dash_run :: "dash_input list \<Rightarrow> dashboard \<times> world \<Rightarrow> dashboard \<times> world" where
  "dash_run [] s = s"
| "dash_run ((hms, snap, alerts) # ins) s =
     dash_run ins (let ((scr, d), w) = dash_update (fst s) hms snap alerts (snd s) in (d, w))"

lemma deque_append_length: "0 < n \<Longrightarrow> length xs \<le> n \<Longrightarrow> length (deque_append n x xs) \<le> n"
  by (simp add: deque_append_def)

lemma deque_append_set: "set (deque_append n x xs) \<subseteq> insert x (set xs)"
  unfolding deque_append_def using set_drop_subset [of _ "xs @ [x]"] by fastforce

lemma deque_append_last: "0 < n \<Longrightarrow> length xs \<le> n \<Longrightarrow> last (deque_append n x xs) = x \<and> deque_append n x xs \<noteq> []"
  by (simp add: deque_append_def)

lemma sorted_deque_append:
  "sorted (map f xs) \<Longrightarrow> \<forall>y \<in> set xs. f y \<le> f x \<Longrightarrow> sorted (map f (deque_append n x xs))"
  unfolding deque_append_def drop_map [symmetric] by (intro sorted_wrt_drop) (auto simp: sorted_append)

lemma commit_rate_world [simp]:
  "secs w \<le> secs (snd (commit_rate d w))"
  by (auto simp: commit_rate_def Let_def now_def split: option.splits)

lemma commit_rate_ok [simp]: "isl (fst (commit_rate d w)) \<longleftrightarrow> commit_history d = None"
  by (auto simp: commit_rate_def Let_def now_def split: option.splits)

lemma render_commit_rate:
  "snd (render d hms snap alerts w) = snd (commit_rate d w)"
  "isl (fst (render d hms snap alerts w)) \<longleftrightarrow> commit_history d = None"
proof -
  obtain r w1 where cr: "commit_rate d w = (r, w1)" by fastforce
  with commit_rate_ok [of d w] show "isl (fst (render d hms snap alerts w)) \<longleftrightarrow> commit_history d = None"
    by (cases r) (simp_all add: render_def throughput_panel_def)
  from cr show "snd (render d hms snap alerts w) = snd (commit_rate d w)"
    by (simp add: render_def throughput_panel_def)
qed

lemma dash_update_history:
  "commit_history (snd (fst (dash_update d hms snap alerts w))) =
     (case leader snap of
        None \<Rightarrow> commit_history d
      | Some n \<Rightarrow> map_option (deque_append 64 (secs (tick w), commit_index n)) (commit_history d))"
  by (simp add: dash_update_def Let_def now_def case_prod_beta split: option.splits)

lemma dash_update_shows:
  "commit_history d \<noteq> None \<Longrightarrow> \<not> isl (fst (fst (dash_update d hms snap alerts w)))"
  using render_commit_rate(2)
  by (auto simp: dash_update_def Let_def now_def case_prod_beta split: option.splits)

lemma dash_update_time: "secs w \<le> secs (snd (dash_update d hms snap alerts w))"
proof -
  have "secs w \<le> secs (snd (render d' hms snap' alerts w))"
    and "secs w \<le> secs (snd (render d' hms snap' alerts (tick w)))" for d' snap'
    using secs_tick [of w] commit_rate_world [of w] commit_rate_world [of "tick w"]
    by (metis render_commit_rate(1), metis order_trans render_commit_rate(1))
  then show ?thesis
    by (auto simp: dash_update_def Let_def now_def case_prod_beta split: option.splits)
qed

lemma dash_update_sample_time:
  "leader snap = Some n \<Longrightarrow> commit_history d = Some h \<Longrightarrow>
     secs (tick w) \<le> secs (snd (dash_update d hms snap alerts w))"
  by (simp add: dash_update_def Let_def now_def case_prod_beta render_commit_rate(1))

definition history_ok :: "dashboard \<times> world \<Rightarrow> bool" where
  "history_ok s \<longleftrightarrow>
     (\<exists>h. commit_history (fst s) = Some h \<and> length h \<le> 64 \<and> sorted (map fst h) \<and>
          list_all (\<lambda>x. fst x \<le> secs (snd s)) h)"

lemma history_ok_update:
  assumes "history_ok (d, w)"
  shows "history_ok (let ((scr, d'), w') = dash_update d hms snap alerts w in (d', w'))"
proof -
  obtain scr d' w' where u: "dash_update d hms snap alerts w = ((scr, d'), w')" by (metis prod.exhaust)
  from assms obtain h where h: "commit_history d = Some h" "length h \<le> 64" "sorted (map fst h)"
      "\<forall>x \<in> set h. fst x \<le> secs w" by (auto simp: history_ok_def list_all_iff)
  have late: "secs w \<le> secs w'" using dash_update_time [of w d hms snap alerts] by (simp add: u)
  show ?thesis
  proof (cases "leader snap")
    case None
    with h late dash_update_history [of d hms snap alerts w] show ?thesis
      by (force simp: u history_ok_def list_all_iff)
  next
    case (Some n)
    let ?x = "(secs (tick w), commit_index n)"
    have h': "commit_history d' = Some (deque_append 64 ?x h)"
      using dash_update_history [of d hms snap alerts w] by (simp add: u Some h(1))
    have before: "\<forall>y \<in> set h. fst y \<le> secs (tick w)" using h(4) order_trans [OF _ secs_tick [of w]] by blast
    have "secs (tick w) \<le> secs w'"
      using dash_update_sample_time [OF Some, of d h w hms alerts] h(1) by (simp add: u)
    then have "\<forall>y \<in> set (deque_append 64 ?x h). fst y \<le> secs w'"
      using deque_append_set [of 64 ?x h] before by fastforce
    moreover have "sorted (map fst (deque_append 64 ?x h))"
      using h(3) before by (intro sorted_deque_append) auto
    ultimately show ?thesis
      using h' deque_append_length [of 64 h ?x] h(2) by (simp add: u history_ok_def list_all_iff)
  qed
qed

lemma history_ok_run: "history_ok s \<Longrightarrow> history_ok (dash_run ins s)"
proof (induction ins arbitrary: s)
  case (Cons i ins)
  obtain hms snap alerts d w where i: "i = (hms, snap, alerts)" "s = (d, w)" by (metis prod.exhaust)
  show ?case using Cons.IH [OF history_ok_update [of d w hms snap alerts]] Cons.prems i by simp
qed simp

lemma filter_sorted_ends:
  assumes "sorted (map fst xs)" "xs \<noteq> []"
  shows "fst ` set xs \<subseteq> {fst (hd xs) .. fst (last xs)}"
proof -
  have "fst (hd xs) \<le> fst x \<and> fst x \<le> fst (last xs)" if "x \<in> set xs" for x
  proof -
    from that obtain i where i: "i < length xs" "x = xs ! i" by (auto simp: in_set_conv_nth)
    with assms show ?thesis
      using sorted_nth_mono [OF assms(1), of 0 i] sorted_nth_mono [OF assms(1), of i "length xs - 1"]
      by (simp add: hd_conv_nth last_conv_nth)
  qed
  then show ?thesis by auto
qed

lemma commit_rate_sorted:
  assumes h: "commit_history d' = Some h" "length h \<le> 64" "sorted (map fst h)" "\<forall>x \<in> set h. fst x \<le> secs w'"
  shows "case fst (commit_rate d' w') of
       Inl _ \<Rightarrow> False
     | Inr None \<Rightarrow> (\<exists>t. fst ` {x \<in> set h. secs (tick w') - 10 \<le> fst x} \<subseteq> {t})
     | Inr (Some v) \<Rightarrow> (\<exists>x y. x \<in> {x \<in> set h. secs (tick w') - 10 \<le> fst x} \<and>
          y \<in> {x \<in> set h. secs (tick w') - 10 \<le> fst x} \<and>
          fst ` {x \<in> set h. secs (tick w') - 10 \<le> fst x} \<subseteq> {fst x .. fst y} \<and>
          fst x < fst y \<and> fst y \<le> fst x + 10 \<and> v = max 0 (of_int (snd y - snd x) / (fst y - fst x)))"
proof -
  let ?t = "secs (tick w')"
  define win where "win = filter (\<lambda>x. ?t - 10 \<le> fst x) h"
  have win_set: "{x \<in> set h. ?t - 10 \<le> fst x} = set win" by (auto simp: win_def)
  have ends: "win \<noteq> [] \<Longrightarrow> fst ` set win \<subseteq> {fst (hd win) .. fst (last win)}"
    using h(3) by (intro filter_sorted_ends) (simp_all add: win_def sorted_filter)
  have len: "length win \<le> length h" by (simp add: win_def)
  have win': "filter (\<lambda>(u, c). ?t - 10 \<le> u) h = win" unfolding win_def by (rule filter_cong) auto
  have rate: "fst (commit_rate d' w') =
      (if length win < 2 then Inr None
       else if fst (last win) - fst (hd win) \<le> 0 then Inr None
       else Inr (Some (max 0 (of_int (snd (last win) - snd (hd win)) / (fst (last win) - fst (hd win))))))"
    using len by (simp add: commit_rate_def h(1) now_def Let_def THROUGHPUT_WINDOW_def win')
  show ?thesis
  proof (cases "length win < 2")
    case True
    then have "\<exists>t. fst ` set win \<subseteq> {t}" by (cases win) auto
    with True show ?thesis by (simp add: rate win_set)
  next
    case False
    then have ne: "win \<noteq> []" by auto
    show ?thesis
    proof (cases "fst (last win) \<le> fst (hd win)")
      case True
      then have "fst ` set win \<subseteq> {fst (hd win)}" using ends [OF ne] by fastforce
      with False True show ?thesis by (auto simp: rate win_set)
    next
      case up: False
      have "last win \<in> set h" "?t - 10 \<le> fst (hd win)"
        using ne last_in_set [OF ne] hd_in_set [OF ne] unfolding win_def by auto
      moreover from this h(4) have "fst (last win) \<le> secs w'" by blast
      ultimately have "fst (last win) \<le> fst (hd win) + 10" using secs_tick [of w'] by linarith
      with ends [OF ne] up have "\<exists>x y. x \<in> set win \<and> y \<in> set win \<and> fst ` set win \<subseteq> {fst x .. fst y} \<and>
          fst x < fst y \<and> fst y \<le> fst x + 10 \<and>
          max 0 (of_int (snd (last win) - snd (hd win)) / (fst (last win) - fst (hd win))) =
          max 0 (of_int (snd y - snd x) / (fst y - fst x))"
        using hd_in_set [OF ne] last_in_set [OF ne]
        by (intro exI [of _ "hd win"] exI [of _ "last win"]) simp
      with False up show ?thesis by (simp add: rate win_set)
    qed
  qed
qed

lemma dashboard_init_raises: "dashboard_init interval hms w = (Inl (AttributeError ''_commit_history''), w)"
  by (simp add: dashboard_init_def render_def throughput_panel_def commit_rate_def)

section \<open>Properties\<close>

text \<open>
  The dashboard cannot be constructed.  \<open>__init__\<close> renders a first screen while
  \<open>_commit_history\<close> is still unassigned, and rendering reads it, so every construction raises
  \<open>AttributeError\<close>, whatever the poll interval and the time.
\<close>

theorem dashboard_init_crashes:
  "fst (dashboard_init interval hms w) = Inl (AttributeError ''_commit_history'')"
  by (simp add: dashboard_init_raises)

text \<open>
  The commit rate.  After any sequence of updates from an empty history, at most 64 samples are
  kept, and with \<open>win\<close> the samples of the last ten seconds: no rate is shown exactly when they were
  all taken at one time; otherwise the rate is the growth of the commit index from the earliest
  to the latest sample of \<open>win\<close>, divided by the time between them (at most ten seconds), and 0 where
  the index went back.
\<close>

theorem commit_rate_of_history:
  "let s = dash_run ins (d\<lparr>commit_history := Some []\<rparr>, w);
       hist = get_or (commit_history (fst s)) [];
       win = {x \<in> set hist. secs (tick (snd s)) - 10 \<le> fst x}
   in length hist \<le> 64 \<and>
      (case fst (commit_rate (fst s) (snd s)) of
         Inl _ \<Rightarrow> False
       | Inr None \<Rightarrow> (\<exists>t. fst ` win \<subseteq> {t})
       | Inr (Some v) \<Rightarrow> (\<exists>x y. x \<in> win \<and> y \<in> win \<and> fst ` win \<subseteq> {fst x .. fst y} \<and>
            fst x < fst y \<and> fst y \<le> fst x + 10 \<and> v = max 0 (of_int (snd y - snd x) / (fst y - fst x))))"
proof -
  let ?s = "dash_run ins (d\<lparr>commit_history := Some []\<rparr>, w)"
  obtain d' w' where s: "?s = (d', w')" by fastforce
  have "history_ok ?s" by (rule history_ok_run) (simp add: history_ok_def)
  then obtain h where h: "commit_history d' = Some h" "length h \<le> 64" "sorted (map fst h)"
      "\<forall>x \<in> set h. fst x \<le> secs w'" by (auto simp: s history_ok_def list_all_iff)
  have "get_or (commit_history d') [] = h" by (simp add: h(1) get_or_def)
  with commit_rate_sorted [OF h] h(2) show ?thesis
    unfolding s Let_def fst_conv snd_conv by (simp only: simp_thms)
qed

text \<open>The summary line that announces a split-brain.\<close>

definition shows_split_brain :: "cluster_snapshot \<Rightarrow> bool" where
  "shows_split_brain snap \<longleftrightarrow>
     (case p_body (summary (Some snap)) of
        TextBody spans \<Rightarrow>
          (warning_sign @ ''  SPLIT-BRAIN '' @ long_dash @ '' multiple leaders'', ''bold red'') \<in> set spans
      | TableBody _ _ \<Rightarrow> False)"

lemma shows_split_brain_iff: "shows_split_brain snap \<longleftrightarrow> 1 < length (leaders snap)"
proof (cases "leader snap")
  case None
  then show ?thesis
    by (auto simp: shows_split_brain_def summary_def Let_def warning_sign_def)
next
  case (Some n)
  then have "leaders snap = [n]" by (simp add: leader_Some)
  with Some show ?thesis
    by (simp add: shows_split_brain_def summary_def Let_def)
qed

text \<open>
  The dashboard and the alerts disagree on what a split-brain is.  Every snapshot that the
  alerts treat as a split-brain (two leaders in one term) shows the red split-brain line, but the
  line also appears for some snapshots that are none: two leaders in different terms, as after an
  election whose old leader has not stepped down yet.
\<close>

theorem summary_overreports_split_brain:
  "{snap. split_brain snap} \<subset> {snap. shows_split_brain snap}"
proof -
  have sub: "split_brain snap \<Longrightarrow> 1 < length (leaders snap)" for snap
    unfolding split_brain_def leaders_def two_indices_of_filter by blast
  define ldr :: "int \<Rightarrow> node_state" where
    "ldr t = from_dict \<lparr>d_node_id = None, d_state = Some ''leader'', d_current_term = Some t, d_voted_for = None,
       d_commit_index = None, d_last_applied = None, d_log_length = None, d_match_index = None,
       d_next_index = None\<rparr> ''a'' 0" for t
  let ?snap = "\<lparr>nodes = [ldr 1, ldr 2], snap_polled_at = 0\<rparr>"
  have "\<not> split_brain ?snap"
    by (auto simp: split_brain_def ldr_def get_or_def less_Suc_eq_0_disj nth_Cons split: nat.splits)
  moreover have "1 < length (leaders ?snap)" by (simp add: leaders_def ldr_def)
  ultimately show ?thesis using sub by (auto simp: shows_split_brain_iff)
qed

end
