(* ===== verification/Observer.thy ===== *)
theory Observer
  imports Observer_Config Alerts Metrics Dashboard
begin

text \<open>
  \<open>state-observer/peers.py\<close> and \<open>state-observer/main.py\<close>: resolving coordinator addresses from
  the peers table, the initial retry loop, the periodic refresh and the observation loop that
  drives the client, the alerts, the metrics and the dashboard.  DynamoDB's answers, the HTTP
  exchange, SNS and CloudWatch are parameters.  The refresh task and the poll loop interleave at
  their \<open>await\<close> points only, so a run is a sequence of refresh and poll events in any order, with
  any delay before each.
\<close>

section \<open>Resolving addresses (peers.py)\<close>

type_synonym ddb_item = "(py_str, (py_str, py_str) pydict) pydict"

datatype get_answer = GetFailed py_str | GetItem "ddb_item option"

type_synonym peers_db = "nat \<Rightarrow> py_str \<Rightarrow> get_answer"

text \<open>The address a row contributes: none when the call failed, the row is missing or malformed.\<close>

definition row_addr :: "get_answer \<Rightarrow> py_str option" where
  "row_addr ans =
     (case ans of
        GetFailed exc \<Rightarrow> None
      | GetItem None \<Rightarrow> None
      | GetItem (Some item) \<Rightarrow>
          if item = [] then None
          else (case dget (dget_default item ''http_addr'' []) ''S'' of
                  None \<Rightarrow> None
                | Some a \<Rightarrow> if a = [] then None else Some a))"

fun resolve_addrs :: "peers_db \<Rightarrow> py_str list \<Rightarrow> world \<Rightarrow> py_str list \<times> world" where
  "resolve_addrs db [] w = ([], w)"
| "resolve_addrs db (nid # ids) w =
     (let (ans, w1) = call (\<lambda>k. db k nid) w;
          (addrs, w2) = resolve_addrs db ids w1
      in (case row_addr ans of None \<Rightarrow> addrs | Some a \<Rightarrow> a # addrs, w2))"

section \<open>Initial addresses\<close>

definition uses_peers_table :: "config \<Rightarrow> bool" where
  "uses_peers_table cfg \<longleftrightarrow> peers_table cfg \<noteq> [] \<and> coordinator_node_ids cfg \<noteq> []"

definition initial_body :: "peers_db \<Rightarrow> py_str list \<Rightarrow> unit \<Rightarrow> world \<Rightarrow> (py_str list + unit) \<times> world" where
  "initial_body db ids s w =
     (let (addrs, w1) = resolve_addrs db ids w
      in if addrs \<noteq> [] then (Inl addrs, w1) else (Inr (), sleep 2 w1))"

definition resolve_initial_addrs :: "peers_db \<Rightarrow> config \<Rightarrow> world \<Rightarrow> (py_str list \<times> world) option" where
  "resolve_initial_addrs db cfg w =
     (if \<not> uses_peers_table cfg then Some (coordinator_addrs cfg, w)
      else
        let (t, w1) = now w
        in map_option (\<lambda>(out, w2). (case out of Inl addrs \<Rightarrow> addrs | Inr _ \<Rightarrow> coordinator_addrs cfg, w2))
             (deadline_loop (t + 120) (initial_body db (coordinator_node_ids cfg)) () w1))"

section \<open>The observation loop\<close>

record observer =
  client_addrs :: "py_str list"
  ob_alerts :: alert_env
  ob_metrics :: metrics_env
  ob_dash :: dashboard
  ob_world :: world
  ob_snapshots :: "cluster_snapshot list"
  ob_errors :: "py_error list"

record services =
  sv_db :: peers_db
  sv_sns :: "nat \<Rightarrow> sns_answer"
  sv_utc :: "nat \<Rightarrow> py_str"
  sv_cw :: "nat \<Rightarrow> put_answer"
  sv_hms :: "nat \<Rightarrow> py_str"
  sv_start :: "py_error option"

text \<open>
  One turn of the poll loop: poll, check, publish, render, each working at the time the one before
  left; an exception of the dashboard is logged and the loop goes on.
\<close>

definition poll_round ::
  "services \<Rightarrow> (py_str \<Rightarrow> py_str + state_doc) \<Rightarrow> (nat \<Rightarrow> real) \<Rightarrow> observer \<Rightarrow> observer" where
  "poll_round sv http clk s =
     (let snap = poll http clk (client_addrs s);
          w1 = tick (ob_world s);
          (active, al) = check (sv_sns sv) snap ((ob_alerts s)\<lparr>env := w1\<rparr>);
          me = Metrics.update (sv_utc sv) (sv_cw sv) snap ((ob_metrics s)\<lparr>m_env := env al\<rparr>);
          ((scr, da), w2) = dash_update (ob_dash s) (sv_hms sv (w_k (m_env me))) snap active (m_env me)
      in s\<lparr>ob_alerts := al, ob_metrics := me, ob_dash := da, ob_world := w2,
           ob_snapshots := ob_snapshots s @ [snap],
           ob_errors := (case scr of Inl e \<Rightarrow> ob_errors s @ [e] | Inr _ \<Rightarrow> ob_errors s)\<rparr>)"

text \<open>One turn of \<open>_refresh_addrs_loop\<close>; it does nothing when no peers table is configured.\<close>

definition refresh_addrs :: "services \<Rightarrow> config \<Rightarrow> observer \<Rightarrow> observer" where
  "refresh_addrs sv cfg s =
     (if \<not> uses_peers_table cfg then s
      else
        let (addrs, w1) = resolve_addrs (sv_db sv) (coordinator_node_ids cfg) (ob_world s)
        in if addrs \<noteq> [] \<and> set addrs \<noteq> set (client_addrs s)
           then s\<lparr>client_addrs := addrs, ob_world := w1\<rparr> else s\<lparr>ob_world := w1\<rparr>)"

datatype event = PollEvent "py_str \<Rightarrow> py_str + state_doc" "nat \<Rightarrow> real" | RefreshEvent

fun observe_step :: "services \<Rightarrow> config \<Rightarrow> real \<times> event \<Rightarrow> observer \<Rightarrow> observer" where
  "observe_step sv cfg (delay, PollEvent http clk) s =
     poll_round sv http clk (s\<lparr>ob_world := sleep delay (ob_world s)\<rparr>)"
| "observe_step sv cfg (delay, RefreshEvent) s =
     refresh_addrs sv cfg (s\<lparr>ob_world := sleep delay (ob_world s)\<rparr>)"

definition observe_run :: "services \<Rightarrow> config \<Rightarrow> (real \<times> event) list \<Rightarrow> observer \<Rightarrow> observer" where
  "observe_run sv cfg evs s = fold (observe_step sv cfg) evs s"

definition observer_start :: "config \<Rightarrow> py_str list \<Rightarrow> real \<Rightarrow> dashboard \<Rightarrow> world \<Rightarrow> observer" where
  "observer_start cfg addrs publish_s d w =
     \<lparr>client_addrs = addrs,
      ob_alerts = alert_start (sns_topic_arn cfg) (cfg_disable_sns cfg) w,
      ob_metrics = metrics_start (cfg_cw_namespace cfg) publish_s (disable_cloudwatch cfg) w,
      ob_dash = d, ob_world = w, ob_snapshots = [], ob_errors = []\<rparr>"

text \<open>
  \<open>observe\<close>: addresses, client, metrics, alerts, the refresh task, then the dashboard, whose
  constructor may raise; only then the loop.  The events are those until the stop event is set.
  \<open>sv_start\<close> is the exception, if any, of the third-party calls in the constructors before the
  dashboard: the metrics server may find its port taken, a client may find no credentials.
\<close>

definition observe ::
  "services \<Rightarrow> config \<Rightarrow> real \<Rightarrow> real \<Rightarrow> (real \<times> event) list \<Rightarrow> world \<Rightarrow> observer result option" where
  "observe sv cfg poll_s publish_s evs w =
     (case resolve_initial_addrs (sv_db sv) cfg w of
        None \<Rightarrow> None
      | Some (addrs, w1) \<Rightarrow>
          Some (case sv_start sv of
                  Some e \<Rightarrow> Inl e
                | None \<Rightarrow>
                    (case dashboard_init poll_s (sv_hms sv (w_k w1)) w1 of
                       (Inl e, _) \<Rightarrow> Inl e
                     | (Inr d, w2) \<Rightarrow> Inr (observe_run sv cfg evs (observer_start cfg addrs publish_s d w2)))))"

section \<open>Lemmas\<close>

lemma resolve_addrs_eq:
  "fst (resolve_addrs db ids w) =
     List.map_filter (\<lambda>i. row_addr (db (w_k w + i) (ids ! i))) [0 ..< length ids]"
proof (induction ids arbitrary: w)
  case (Cons nid ids)
  have "[0 ..< length (nid # ids)] = 0 # map Suc [0 ..< length ids]"
    by (simp add: upt_conv_Cons map_Suc_upt del: upt_Suc)
  moreover have "w_k (tick w) = Suc (w_k w)" by (simp add: tick_def)
  ultimately show ?case
    using Cons [of "tick w"]
    by (simp add: call_def Let_def case_prod_beta map_filter_def filter_map comp_def del: upt_Suc
        split: option.split)
qed (simp add: map_filter_def)

lemma resolve_addrs_time [simp]: "secs w \<le> secs (snd (resolve_addrs db ids w))"
proof (induction ids arbitrary: w)
  case (Cons nid ids)
  from order_trans [OF secs_tick Cons [of "tick w"]] show ?case
    by (simp add: call_def Let_def case_prod_beta)
qed simp

lemma resolve_addrs_k [simp]: "w_k w \<le> w_k (snd (resolve_addrs db ids w))"
proof (induction ids arbitrary: w)
  case (Cons nid ids)
  from Cons [of "tick w"] show ?case
    by (simp add: call_def Let_def case_prod_beta tick_def)
qed simp

interpretation initial: deadline_poll "initial_body db ids" 2
  for db :: peers_db and ids :: "py_str list"
proof unfold_locales
  show "secs w + 2 \<le> secs w'" if "initial_body db ids s w = (Inr s', w')" for s w s' w'
    using that secs_sleep_after [OF resolve_addrs_time [of w db ids]]
    by (auto simp: initial_body_def Let_def case_prod_beta split: if_splits)
qed simp

lemma check_time_mono: "secs (env s) \<le> secs (env (snd (check sns snap s)))"
  using check_timer [of s sns snap] by (meson order_trans)

definition is_poll :: "real \<times> event \<Rightarrow> bool" where
  "is_poll ev \<longleftrightarrow> (case snd ev of PollEvent _ _ \<Rightarrow> True | RefreshEvent \<Rightarrow> False)"

text \<open>What every event keeps; \<open>fresh\<close> says that the dashboard's history exists.\<close>

definition observer_ok :: "bool \<Rightarrow> bool \<Rightarrow> observer \<Rightarrow> bool" where
  "observer_ok disable fresh s \<longleftrightarrow>
     alert_ok (ob_alerts s) \<and> secs (env (ob_alerts s)) \<le> secs (ob_world s) \<and>
     disable_cw (pub (ob_metrics s)) = disable \<and>
     handed_off disable (map (Pair 0) (ob_snapshots s)) (ob_metrics s) \<and>
     (fresh \<longrightarrow> commit_history (ob_dash s) \<noteq> None \<and> ob_errors s = []) \<and>
     length (ob_errors s) \<le> length (ob_snapshots s)"

lemma observer_ok_later:
  "observer_ok disable fresh s \<Longrightarrow> secs (ob_world s) \<le> secs w \<Longrightarrow> observer_ok disable fresh (s\<lparr>ob_world := w\<rparr>)"
  by (auto simp: observer_ok_def)

lemma observer_ok_poll:
  assumes "observer_ok disable fresh s"
  shows "observer_ok disable fresh (poll_round sv http clk s)"
proof -
  define snap where "snap = poll http clk (client_addrs s)"
  define al0 where "al0 = (ob_alerts s)\<lparr>env := tick (ob_world s)\<rparr>"
  obtain active al where chk: "check (sv_sns sv) snap al0 = (active, al)" by fastforce
  define me0 where "me0 = (ob_metrics s)\<lparr>m_env := env al\<rparr>"
  define me where "me = Metrics.update (sv_utc sv) (sv_cw sv) snap me0"
  obtain scr da w2 where dash: "dash_update (ob_dash s) (sv_hms sv (w_k (m_env me))) snap active (m_env me) = ((scr, da), w2)"
    by (metis prod.exhaust)
  have round: "poll_round sv http clk s = s\<lparr>ob_alerts := al, ob_metrics := me, ob_dash := da, ob_world := w2,
      ob_snapshots := ob_snapshots s @ [snap],
      ob_errors := (case scr of Inl e \<Rightarrow> ob_errors s @ [e] | Inr _ \<Rightarrow> ob_errors s)\<rparr>"
    using chk dash by (simp add: poll_round_def snap_def al0_def me_def me0_def Let_def)
  have "secs (env (ob_alerts s)) \<le> secs (tick (ob_world s))"
    using assms order_trans [OF _ secs_tick] by (auto simp: observer_ok_def)
  then have "alert_ok al0" using assms spacing.inv_env by (auto simp: observer_ok_def al0_def)
  then have al: "alert_ok al" using spacing.inv_check [of al0 "sv_sns sv" snap] chk by simp
  have t1: "secs (env al) \<le> secs (m_env me)"
    using update_time [of me0 "sv_utc sv" "sv_cw sv" snap] by (simp add: me_def me0_def)
  have t2: "secs (m_env me) \<le> secs w2"
    using dash_update_time [of "m_env me" "ob_dash s" "sv_hms sv (w_k (m_env me))" snap active] dash by simp
  have "handed_off disable (map (Pair 0) (ob_snapshots s) @ [(0, snap)]) me"
    using assms update_handed_off [of me0 "map (Pair 0) (ob_snapshots s)" 0 snap "sv_utc sv" "sv_cw sv"]
    by (simp add: observer_ok_def me_def me0_def)
  moreover have "disable_cw (pub me) = disable"
    using assms by (simp add: observer_ok_def me_def me0_def update_frame)
  moreover have "commit_history da \<noteq> None \<and> \<not> isl scr" if "commit_history (ob_dash s) \<noteq> None"
    using that dash_update_history [of "ob_dash s" "sv_hms sv (w_k (m_env me))" snap active "m_env me"]
      dash_update_shows [of "ob_dash s" "sv_hms sv (w_k (m_env me))" snap active "m_env me"] dash
    by (auto split: option.splits)
  ultimately show ?thesis
    using assms al order_trans [OF t1 t2] by (auto simp: observer_ok_def round split: sum.splits)
qed

lemma observer_ok_refresh:
  assumes "observer_ok disable fresh s"
  shows "observer_ok disable fresh (refresh_addrs sv cfg s)"
proof -
  obtain addrs w where r: "resolve_addrs (sv_db sv) (coordinator_node_ids cfg) (ob_world s) = (addrs, w)"
    by fastforce
  then have "secs (ob_world s) \<le> secs w"
    using resolve_addrs_time [of "ob_world s" "sv_db sv" "coordinator_node_ids cfg"] by simp
  with observer_ok_later [OF assms] have "observer_ok disable fresh (s\<lparr>ob_world := w\<rparr>)" .
  with assms show ?thesis by (simp add: refresh_addrs_def r Let_def observer_ok_def)
qed

lemma observer_ok_run: "observer_ok disable fresh s \<Longrightarrow> observer_ok disable fresh (observe_run sv cfg evs s)"
  unfolding observe_run_def
proof (induction evs arbitrary: s)
  case (Cons ev evs)
  have "observer_ok disable fresh (observe_step sv cfg ev s)"
    using observer_ok_later [OF Cons.prems, of "sleep (fst ev) (ob_world s)"]
    by (cases "(sv, cfg, ev, s)" rule: observe_step.cases) (auto intro: observer_ok_poll observer_ok_refresh)
  then show ?case by (simp add: Cons.IH)
qed simp

lemma refresh_snapshots [simp]:
  "ob_snapshots (refresh_addrs sv cfg s) = ob_snapshots s"
  by (simp add: refresh_addrs_def case_prod_beta Let_def)

lemma poll_round_snapshots [simp]:
  "ob_snapshots (poll_round sv http clk s) = ob_snapshots s @ [poll http clk (client_addrs s)]"
  by (simp add: poll_round_def case_prod_beta Let_def)

lemma observe_run_snapshots:
  "length (ob_snapshots (observe_run sv cfg evs s)) = length (ob_snapshots s) + length (filter is_poll evs)"
  unfolding observe_run_def
proof (induction evs arbitrary: s)
  case (Cons ev evs)
  then show ?case by (cases "(sv, cfg, ev, s)" rule: observe_step.cases) (simp_all add: is_poll_def)
qed simp

section \<open>Properties\<close>

text \<open>
  C26: the observer never reaches its loop.  Whatever the configuration, the environment and the
  events, \<open>observe\<close> ends with the \<open>AttributeError\<close> of the dashboard's constructor, which is outside
  the loop's own exception handler, before the first poll, unless the metrics server or an AWS
  client already failed to start.
\<close>

theorem observe_raises:
  "observe sv cfg poll_s publish_s evs w = Some (Inl (case sv_start sv of Some e \<Rightarrow> e | None \<Rightarrow> AttributeError ''_commit_history''))"
proof -
  have "\<exists>z. resolve_initial_addrs (sv_db sv) cfg w = Some z"
    using initial.loop_returns [of "secs (tick w) + 120" "sv_db sv" "coordinator_node_ids cfg" "()" "tick w"]
    by (cases "uses_peers_table cfg") (auto simp: resolve_initial_addrs_def now_def Let_def)
  then obtain addrs w1 where "resolve_initial_addrs (sv_db sv) cfg w = Some (addrs, w1)" by auto
  then show ?thesis by (simp add: observe_def dashboard_init_raises split: option.split)
qed

text \<open>
  Resolving the initial addresses always returns, without a peers table at once with the
  configured addresses; with one either a non-empty result of a look-up begun within the two
  minutes, or the configured addresses, and those only once two minutes have passed.
\<close>

theorem resolve_initial_addrs_returns:
  "\<exists>addrs w'. resolve_initial_addrs db cfg w = Some (addrs, w') \<and>
     (if uses_peers_table cfg
      then (addrs = coordinator_addrs cfg \<and> secs (tick w) + 120 \<le> secs w') \<or>
           (0 < length addrs \<and> (\<exists>w1. w_k w < w_k w1 \<and> secs w1 < secs (tick w) + 120 \<and>
              resolve_addrs db (coordinator_node_ids cfg) w1 = (addrs, w')))
      else addrs = coordinator_addrs cfg \<and> w' = w)"
proof (cases "uses_peers_table cfg")
  case False
  then show ?thesis by (simp add: resolve_initial_addrs_def)
next
  case True
  let ?dl = "secs (tick w) + 120" and ?body = "initial_body db (coordinator_node_ids cfg)"
  obtain out w' where loop: "deadline_loop ?dl ?body () (tick w) = Some (out, w')"
    using initial.loop_returns by fastforce
  have "case out of Inl addrs \<Rightarrow> 0 < length addrs \<and> (\<exists>w1. w_k w < w_k w1 \<and> secs w1 < ?dl \<and>
          resolve_addrs db (coordinator_node_ids cfg) w1 = (addrs, w')) | Inr _ \<Rightarrow> ?dl \<le> secs w'"
  proof (rule deadline_loop_rule [OF loop, where I = "\<lambda>_ v. w_k w < w_k v"])
    show "w_k w < w_k v'" if "w_k w < w_k v" "secs v < ?dl" "?body s v = (Inr s', v')" for s v s' v'
      using that(2,3) less_le_trans [OF that(1) resolve_addrs_k [of v db "coordinator_node_ids cfg"]]
      by (auto simp: initial_body_def Let_def case_prod_beta sleep_def tick_def split: if_splits)
  qed (auto simp: initial_body_def Let_def tick_def case_prod_beta prod_eq_iff split: if_splits)
  with loop True show ?thesis
    by (cases out) (auto simp: resolve_initial_addrs_def now_def Let_def)
qed

text \<open>
  A refresh takes over what the peers table says.  At any point of a run, after a refresh that
  resolved at least one address the client's address set is exactly what was resolved, otherwise
  it is unchanged; and the next poll asks exactly the client's addresses, in order.
\<close>

theorem refresh_takes_over:
  "let s = observe_run sv cfg evs s0;
       found = fst (resolve_addrs (sv_db sv) (coordinator_node_ids cfg) (sleep d (ob_world s)));
       s' = observe_step sv cfg (d, RefreshEvent) s;
       s'' = observe_step sv cfg (d', PollEvent http clk) s'
   in set (client_addrs s') = (if uses_peers_table cfg \<and> found \<noteq> [] then set found else set (client_addrs s)) \<and>
      ob_snapshots s'' = ob_snapshots s @ [poll http clk (client_addrs s')] \<and>
      map node_addr (nodes (last (ob_snapshots s''))) = client_addrs s'"
  by (simp add: refresh_addrs_def Let_def case_prod_beta poll_def comp_def map_nth)


end
