(* ===== verification/Alerts_Live.thy ===== *)
theory Alerts_Live
  imports Alerts
begin

text \<open>
  What \<open>state-observer/alerts.py\<close> promises of a lasting outage: a cluster that stays without a leader is
  announced again and again.  The observer polls forever, so a run is an infinite sequence of rounds
  and the states of the manager are those after each finite prefix.
\<close>

section \<open>Infinite runs\<close>

definition state_at :: "(nat \<Rightarrow> sns_answer) \<Rightarrow> alert_env \<Rightarrow> (nat \<Rightarrow> real \<times> cluster_snapshot) \<Rightarrow> nat \<Rightarrow> alert_env" where
  "state_at sns s0 rounds j = alert_run sns (map rounds [0 ..< j]) s0"

lemma state_at_simps [simp]:
  "state_at sns s0 rounds 0 = s0"
  "state_at sns s0 rounds (Suc j) = alert_round sns (rounds j) (state_at sns s0 rounds j)"
  by (simp_all add: state_at_def alert_run_def)

text \<open>Every entry of \<open>_last_sent\<close> is the time of a publish call.\<close>

definition sent_logged :: "alert_env \<Rightarrow> bool" where
  "sent_logged s \<longleftrightarrow>
     \<not> disable_sns (mgr s) \<and>
     (\<forall>k l. dget (last_sent (mgr s)) k = Some l \<longrightarrow> (\<exists>c \<in> set (outbox s). call_key c = k \<and> call_at c = l))"

interpretation logged: manager_invariant sns sent_logged
  for sns :: "nat \<Rightarrow> sns_answer"
  by unfold_locales (auto simp: sent_logged_def maybe_send_unfold Let_def)

lemma sent_logged_start: "arn \<noteq> [] \<Longrightarrow> sent_logged (alert_start arn False w)"
  by (simp add: sent_logged_def alert_start_def alert_manager_init_def)

lemma sent_logged_at: "arn \<noteq> [] \<Longrightarrow> sent_logged (state_at sns (alert_start arn False w) rounds j)"
  unfolding state_at_def by (rule logged.inv_run [OF sent_logged_start])

section \<open>Time passes\<close>

lemma check_no_leader_frame: "secs (env s) \<le> secs (env (snd (check_no_leader sns snap alerts s)))"
  using check_no_leader_timer [of s sns snap alerts] by auto

lemma round_clock: "secs (env s) + fst r \<le> secs (env (alert_round sns r s))"
proof -
  let ?s = "s\<lparr>env := sleep (fst r) (env s)\<rparr>"
  obtain t where "secs (env ?s) \<le> t" "t \<le> secs (env (snd (check sns (snd r) ?s)))" using check_timer by blast
  with secs_sleep [of "env s" "fst r"] show ?thesis by (simp add: alert_round_def)
qed

lemma clock_grows:
  assumes "\<And>j. d \<le> fst (rounds j)"
  shows "secs (env s0) + real j * d \<le> secs (env (state_at sns s0 rounds j))"
proof (induction j)
  case (Suc j)
  with round_clock [of "state_at sns s0 rounds j" "rounds j" sns] assms [of j] show ?case by (simp add: algebra_simps)
qed simp

lemma clock_unbounded:
  assumes "0 < d" "\<And>j. d \<le> fst (rounds j)"
  shows "\<exists>j \<ge> i. N \<le> secs (env (state_at sns s0 rounds j))"
proof -
  obtain n :: nat where n: "N - secs (env s0) < real n * d" using reals_Archimedean3 [OF assms(1)] by blast
  let ?j = "max i n"
  have "real n * d \<le> real ?j * d" using assms(1) by simp
  with n clock_grows [of d rounds s0 ?j sns, OF assms(2)] show ?thesis by (intro exI [of _ ?j]) auto
qed

section \<open>The leaderless timer keeps running\<close>

lemma timer_kept:
  assumes "\<And>j. i \<le> j \<Longrightarrow> leader (snd (rounds j)) = None"
  shows "\<exists>since. \<forall>j > i. leaderless_since (mgr (state_at sns s0 rounds j)) = Some since"
proof -
  obtain since where first: "leaderless_since (mgr (state_at sns s0 rounds (Suc i))) = Some since"
    using alert_round_timer [of "state_at sns s0 rounds i" sns "rounds i"] assms [of i] by auto
  have "leaderless_since (mgr (state_at sns s0 rounds (Suc i + k))) = Some since" for k
  proof (induction k)
    case (Suc k)
    then show ?case
      using alert_round_timer [of "state_at sns s0 rounds (Suc i + k)" sns "rounds (Suc i + k)"] assms [of "Suc i + k"]
      by (auto simp: get_or_def)
  qed (use first in simp)
  then have "leaderless_since (mgr (state_at sns s0 rounds j)) = Some since" if "i < j" for j
    using that by (metis less_iff_Suc_add add_Suc)
  then show ?thesis by blast
qed

section \<open>A late check publishes\<close>

text \<open>After an attempt to send, a call with the key has been made less than the cooldown ago.\<close>

lemma maybe_send_recent:
  assumes "sent_logged s" "COOLDOWN_S \<le> secs (env s)"
  shows "\<exists>c \<in> set (outbox (snd (maybe_send sns key subject body s))). call_key c = key \<and> secs (env s) - COOLDOWN_S < call_at c"
proof -
  let ?t = "secs (tick (env s))"
  have t: "secs (env s) \<le> ?t" by simp
  show ?thesis
  proof (cases "?t - dget_default (last_sent (mgr s)) key 0 < COOLDOWN_S")
    case True
    then have "dget_default (last_sent (mgr s)) key 0 \<noteq> 0" using t assms(2) by linarith
    then obtain l where l: "dget (last_sent (mgr s)) key = Some l" by (auto simp: dget_default_def split: option.splits)
    with assms(1) obtain c where "c \<in> set (outbox s)" "call_key c = key" "call_at c = l" by (auto simp: sent_logged_def)
    moreover have "secs (env s) - COOLDOWN_S < l" using True l t by (simp add: dget_default_def del: secs_tick)
    ultimately show ?thesis using True l by (intro bexI [of _ c]) (auto simp: maybe_send_unfold Let_def)
  next
    case False
    moreover have "secs (env s) - COOLDOWN_S < ?t" using t by (simp add: COOLDOWN_S_def del: secs_tick)
    ultimately show ?thesis using assms(1) by (auto simp: maybe_send_unfold Let_def sent_logged_def)
  qed
qed

lemma quorum_loss_outbox: "set (outbox s) \<subseteq> set (outbox (snd (check_quorum_loss sns snap alerts s)))"
proof -
  have "set (outbox s) \<subseteq> set (outbox (snd (maybe_send sns key subject body s)))" for key subject body
    by (auto simp: maybe_send_unfold Let_def)
  then show ?thesis by (simp add: check_quorum_loss_def Let_def case_prod_unfold)
qed

lemma check_recent:
  assumes "sent_logged s" "COOLDOWN_S \<le> secs (env s)" "leader snap = None"
    and since: "leaderless_since (mgr s) = Some since" "since + NO_LEADER_TIMEOUT_S \<le> secs (env s)"
  shows "\<exists>c \<in> set (outbox (snd (check sns snap s))).
     call_key c = no_leader_key (snap_current_term snap) \<and> secs (env s) - COOLDOWN_S < call_at c"
proof -
  let ?a = "check_split_brain sns snap [] s"
  let ?b = "check_no_leader sns snap (fst ?a) (snd ?a)"
  let ?s1 = "(snd ?a)\<lparr>env := tick (env (snd ?a))\<rparr>"
  have c: "check sns snap s = check_quorum_loss sns snap (fst ?b) (snd ?b)" by (simp add: check_def case_prod_beta Let_def)
  have a: "leaderless_since (mgr (snd ?a)) = Some since" "secs (env s) \<le> secs (env (snd ?a))"
    using check_split_brain_frame [of sns snap "[]" s] since(1) by auto
  have t: "secs (env s) \<le> secs (env ?s1)" using order_trans [OF a(2) secs_tick] by simp
  have "sent_logged (snd ?a)" by (rule logged.inv_split_brain [OF assms(1)])
  then have log: "sent_logged ?s1" by (simp add: sent_logged_def)
  have "\<not> secs (tick (env (snd ?a))) - since < NO_LEADER_TIMEOUT_S" using t since(2) by simp
  then obtain subject body where "snd ?b = snd (maybe_send sns (no_leader_key (snap_current_term snap)) subject body ?s1)"
    using a(1) assms(3) by (simp add: check_no_leader_def now_def Let_def case_prod_unfold)
  with maybe_send_recent [OF log, of sns "no_leader_key (snap_current_term snap)" subject body] t assms(2)
  obtain call where "call \<in> set (outbox (snd ?b))" "call_key call = no_leader_key (snap_current_term snap)"
    "secs (env s) - COOLDOWN_S < call_at call" by fastforce
  with quorum_loss_outbox show ?thesis unfolding c by blast
qed

section \<open>Properties\<close>

text \<open>
  C25: a lasting outage is announced for ever.  Let SNS be configured and enabled, every round take at least some positive
  time, and from round \<open>i\<close> on let no snapshot have a single leader and the highest term stay the
  same.  Then however late a time \<open>N\<close> is, the missing leader is published again after it.
\<close>

theorem outage_announced_forever:
  assumes "arn \<noteq> []" "0 < d" "\<And>j. d \<le> fst (rounds j)"
    and "\<And>j. i \<le> j \<Longrightarrow> leader (snd (rounds j)) = None \<and> snap_current_term (snd (rounds j)) = term"
  shows "\<exists>j. \<exists>c \<in> set (outbox (state_at sns (alert_start arn False w) rounds j)). call_key c = no_leader_key term \<and> N \<le> call_at c"
proof -
  let ?S = "state_at sns (alert_start arn False w) rounds"
  obtain since where since: "\<And>j. i < j \<Longrightarrow> leaderless_since (mgr (?S j)) = Some since"
    using timer_kept [of i rounds sns] assms(4) by meson
  obtain j where j: "Suc i \<le> j" "max (N + COOLDOWN_S) (max COOLDOWN_S (since + NO_LEADER_TIMEOUT_S)) \<le> secs (env (?S j))"
    using clock_unbounded [of d rounds "Suc i" _ sns, OF assms(2,3)] by blast
  let ?s = "(?S j)\<lparr>env := sleep (fst (rounds j)) (env (?S j))\<rparr>"
  have t: "secs (env (?S j)) \<le> secs (env ?s)" by simp
  have "sent_logged ?s" using sent_logged_at [OF assms(1)] by (simp add: sent_logged_def)
  moreover have "COOLDOWN_S \<le> secs (env ?s)" "since + NO_LEADER_TIMEOUT_S \<le> secs (env ?s)" "N + COOLDOWN_S \<le> secs (env ?s)"
    using j(2) t by linarith+
  moreover have "leader (snd (rounds j)) = None" "snap_current_term (snd (rounds j)) = term" using assms(4) [of j] j(1) by auto
  moreover have "leaderless_since (mgr ?s) = Some since" using since [of j] j(1) by simp
  ultimately obtain c where c: "c \<in> set (outbox (snd (check sns (snd (rounds j)) ?s)))" "call_key c = no_leader_key term"
    "secs (env ?s) - COOLDOWN_S < call_at c" "N + COOLDOWN_S \<le> secs (env ?s)"
    using check_recent [of ?s "snd (rounds j)" since sns] by auto
  then show ?thesis by (intro exI [of _ "Suc j"] bexI [of _ c]) (auto simp: alert_round_def)
qed

theorem outage_announced_forever_witness:
  "\<exists>j. \<exists>c \<in> set (outbox (state_at (\<lambda>_. SnsOk) (alert_start ''arn:topic'' False \<lparr>w_ns = 0, w_k = 0, w_delay = (\<lambda>_. 0)\<rparr>)
      (\<lambda>_. (2, \<lparr>nodes = [], snap_polled_at = 0\<rparr>)) j)). call_key c = no_leader_key 0 \<and> 1000 \<le> call_at c"
proof (rule outage_announced_forever [where d = 2 and i = 0])
  show "leader (snd (2 :: real, \<lparr>nodes = [], snap_polled_at = 0\<rparr>)) = None \<and> snap_current_term (snd (2 :: real, \<lparr>nodes = [], snap_polled_at = 0\<rparr>)) = 0"
    by (simp add: leader_def leaders_def snap_current_term_def)
qed simp_all

end
