(* ===== verification/Interleaving.thy ===== *)
theory Interleaving
  imports Main "HOL-Library.Multiset" "HOL-Library.Sublist"
begin

text \<open>
  Threads that append to shared logs.  Each thread produces its own sequence of entries, and what
  the log shows is an interleaving of those sequences: repeatedly some thread that is not finished
  appends its next entry.
\<close>

inductive interleaved :: "'a list list \<Rightarrow> 'a list \<Rightarrow> bool" where
  finished: "\<forall>t \<in> set ts. t = [] \<Longrightarrow> interleaved ts []"
| append_next: "i < length ts \<Longrightarrow> ts ! i = x # xs \<Longrightarrow> interleaved (ts[i := xs]) zs \<Longrightarrow> interleaved ts (x # zs)"

inductive_cases interleaved_NilE: "interleaved ts []"
inductive_cases interleaved_ConsE: "interleaved ts (x # zs)"

lemma mset_concat_update:
  "i < length ts \<Longrightarrow> ts ! i = x # xs \<Longrightarrow> mset (concat ts) = add_mset x (mset (concat (ts[i := xs])))"
proof (induction ts arbitrary: i)
  case (Cons t ts)
  then show ?case by (cases i) simp_all
qed simp

lemma interleaved_mset: "interleaved ts zs \<Longrightarrow> mset zs = mset (concat ts)"
proof (induction rule: interleaved.induct)
  case (finished ts)
  then have "concat ts = []" by (induction ts) auto
  then show ?case by simp
next
  case (append_next i ts x xs zs)
  then show ?case using mset_concat_update [of i ts x xs] by simp
qed

lemma interleaved_set: "interleaved ts zs \<Longrightarrow> set zs = (\<Union>t \<in> set ts. set t)"
  using interleaved_mset [of ts zs] by (metis mset_eq_setD set_concat)

lemma interleaved_prefix:
  assumes "interleaved ts zs" "zs = pre @ m # post"
  shows "\<exists>i pre' post'. i < length ts \<and> ts ! i = pre' @ m # post' \<and> subseq pre' pre"
  using assms
proof (induction arbitrary: pre rule: interleaved.induct)
  case (append_next i ts x xs zs)
  show ?case
  proof (cases pre)
    case Nil
    with append_next.prems append_next.hyps(1,2) show ?thesis
      by (intro exI [of _ i] exI [of _ "[]"] exI [of _ xs]) simp
  next
    case (Cons y pre2)
    with append_next.prems have y: "y = x" "zs = pre2 @ m # post" by simp_all
    from append_next.IH [OF y(2)] obtain j pre' post' where
      j: "j < length ts" "ts[i := xs] ! j = pre' @ m # post'" "subseq pre' pre2" by auto
    show ?thesis
    proof (cases "j = i")
      case True
      with j append_next.hyps(1,2) have "ts ! i = (x # pre') @ m # post'" by simp
      moreover have "subseq (x # pre') pre" using j(3) Cons y(1) by simp
      ultimately show ?thesis using append_next.hyps(1) by blast
    next
      case False
      with j have "ts ! j = pre' @ m # post'" by simp
      moreover have "subseq pre' pre" using j(3) Cons by (simp add: list_emb_Cons)
      ultimately show ?thesis using j(1) by blast
    qed
  qed
qed simp

lemma interleaved_filter_count:
  "interleaved ts zs \<Longrightarrow> length (filter P zs) = (\<Sum>t \<leftarrow> ts. length (filter P t))"
proof -
  assume "interleaved ts zs"
  then have "size (filter_mset P (mset zs)) = size (filter_mset P (mset (concat ts)))"
    using interleaved_mset by fastforce
  then have "length (filter P zs) = length (filter P (concat ts))"
    by (simp flip: mset_filter)
  then show ?thesis by (simp add: filter_concat length_concat comp_def)
qed

lemma interleaved_filter_sum:
  fixes f :: "'a \<Rightarrow> 'b::comm_monoid_add"
  assumes "interleaved ts zs"
  shows "sum_list (map f (filter P zs)) = (\<Sum>t \<leftarrow> ts. sum_list (map f (filter P t)))"
proof -
  have "mset (filter P zs) = mset (filter P (concat ts))" using interleaved_mset [OF assms] by simp
  then have "sum_list (map f (filter P zs)) = sum_list (map f (filter P (concat ts)))"
    by (metis mset_map sum_mset_sum_list)
  also have "\<dots> = (\<Sum>t \<leftarrow> ts. sum_list (map f (filter P t)))" by (induction ts) simp_all
  finally show ?thesis .
qed

text \<open>Entries that only one thread writes appear in that thread's order.\<close>

lemma interleaved_filter_own:
  assumes "interleaved ts zs" "i < length ts" "\<forall>j < length ts. j \<noteq> i \<longrightarrow> filter P (ts ! j) = []"
  shows "filter P zs = filter P (ts ! i)"
  using assms
proof (induction rule: interleaved.induct)
  case (finished ts)
  then have "ts ! i = []" by simp
  then show ?case by simp
next
  case (append_next j ts x xs zs)
  have "filter P (ts[j := xs] ! k) = []" if "k < length ts" "k \<noteq> i" for k
    using that append_next.prems(2) append_next.hyps(1,2) by (cases "k = j") (auto split: if_splits)
  with append_next.IH append_next.prems(1) have IH: "filter P zs = filter P (ts[j := xs] ! i)" by simp
  show ?case
  proof (cases "j = i")
    case True
    with IH append_next.hyps(1,2) show ?thesis by simp
  next
    case False
    then have "filter P (ts ! j) = []" using append_next.prems(2) append_next.hyps(1) by blast
    with append_next.hyps(2) have "\<not> P x" by (auto split: if_splits)
    with IH False show ?thesis by simp
  qed
qed

text \<open>The threads running one after the other are an interleaving.\<close>

lemma interleaved_idle: "interleaved ts zs \<Longrightarrow> interleaved ([] # ts) zs"
proof (induction rule: interleaved.induct)
  case (append_next i ts x xs zs)
  then show ?case by (intro interleaved.append_next [of "Suc i" _ x xs]) simp_all
qed (simp add: interleaved.finished)

lemma interleaved_concat: "interleaved ts (concat ts)"
proof (induction ts)
  case (Cons t ts)
  have "interleaved (t # ts) (t @ concat ts)"
  proof (induction t)
    case Nil
    show ?case using Cons by (simp add: interleaved_idle)
  next
    case (Cons x t)
    then show ?case unfolding append_Cons by (intro append_next [of 0 _ x t]) simp_all
  qed
  then show ?case by simp
qed (simp add: finished)

lemma interleaved_one: "interleaved [xs] xs"
  using interleaved_concat [of "[xs]"] by simp

end
