(* ===== verification/Submitter.thy ===== *)
theory Submitter
  imports Py_Strings World Interleaving
begin

text \<open>
  \<open>chaos-bench/config.py\<close> and \<open>chaos-bench/submitter.py\<close>: the client's configuration, the
  submission of a task (payload to S3, row to DynamoDB, message to SQS) and the look-up of a task's
  status.  The log of AWS calls keeps each call with whether it succeeded; what the services
  answer, the fresh task ids and the formatted time are parameters.
\<close>

section \<open>Configuration\<close>

record bench_config =
  bc_aws_region :: py_str
  bc_account_id :: py_str
  bc_cluster_name :: py_str
  bc_tasks_table :: py_str
  bc_peers_table :: py_str
  bc_payload_bucket :: py_str
  bc_snapshot_bucket :: py_str
  bc_ingest_queue_url :: py_str
  bc_coordinator_services :: "py_str list"
  bc_worker_service :: py_str
  bc_ingest_service :: py_str
  bc_history_dir :: py_str

definition bench_from_env :: "(py_str, py_str) pydict \<Rightarrow> bench_config" where
  "bench_from_env e =
     (let region = dget_default e ''AWS_REGION'' ''us-east-1'';
          account = dget_default e ''AWS_ACCOUNT_ID'' [];
          env = dget_default e ''DRIFTLESS_ENV'' ''dev'';
          project = dget_default e ''DRIFTLESS_PROJECT'' ''raft-coordinator'';
          prefix = project @ ''-'' @ env;
          coord_ids = split_on CHR '','' (dget_default e ''COORDINATOR_SERVICES'' (prefix @ ''-coordinator-a''))
      in \<lparr>bc_aws_region = region, bc_account_id = account,
          bc_cluster_name = dget_default e ''CLUSTER_NAME'' (prefix @ ''-cluster''),
          bc_tasks_table = dget_default e ''TASKS_TABLE'' (prefix @ ''-tasks''),
          bc_peers_table = dget_default e ''PEERS_TABLE'' (prefix @ ''-peers''),
          bc_payload_bucket = dget_default e ''PAYLOAD_BUCKET'' (prefix @ ''-task-data-'' @ account),
          bc_snapshot_bucket = dget_default e ''SNAPSHOT_BUCKET'' (prefix @ ''-raft-snapshots-'' @ account),
          bc_ingest_queue_url = dget_default e ''INGEST_QUEUE_URL''
            (''https://sqs.'' @ region @ ''.amazonaws.com/'' @ account @ ''/'' @ prefix @ ''-ingest''),
          bc_coordinator_services = filter (\<lambda>s. s \<noteq> []) (map strip coord_ids),
          bc_worker_service = dget_default e ''WORKER_SERVICE'' (prefix @ ''-worker''),
          bc_ingest_service = dget_default e ''INGEST_SERVICE'' (prefix @ ''-ingest''),
          bc_history_dir = dget_default e ''HISTORY_DIR'' ''./histories''\<rparr>)"

section \<open>Submitting a task\<close>

type_synonym ddb_row = "(py_str, (py_str, py_str) pydict) pydict"

datatype aws_call =
    S3Put py_str py_str py_str
  | DdbPut py_str ddb_row
  | SqsSend py_str py_str

record aws_env =
  aws_log :: "(aws_call \<times> bool) list"
  aws_world :: world

record submit_result =
  sr_task_id :: py_str
  sr_submitted_ns :: int

record submit_services =
  ss_uuid :: "nat \<Rightarrow> py_str"
  ss_utc :: "nat \<Rightarrow> py_str"
  ss_answer :: "nat \<Rightarrow> py_error option"

definition issue :: "submit_services \<Rightarrow> aws_call \<Rightarrow> aws_env \<Rightarrow> unit result \<times> aws_env" where
  "issue sv c s =
     (let (ans, w) = call (ss_answer sv) (aws_world s)
      in (case ans of None \<Rightarrow> Inr () | Some e \<Rightarrow> Inl e,
          s\<lparr>aws_log := aws_log s @ [(c, ans = None)], aws_world := w\<rparr>))"

definition payload_key :: "py_str \<Rightarrow> py_str" where
  "payload_key tid = ''tasks/'' @ tid @ ''/payload''"

definition task_row :: "py_str \<Rightarrow> int \<Rightarrow> py_str \<Rightarrow> ddb_row" where
  "task_row tid priority ts =
     [(''task_id'', [(''S'', tid)]), (''status'', [(''S'', ''PENDING'')]),
      (''priority'', [(''N'', dec_int priority)]), (''s3_key'', [(''S'', payload_key tid)]),
      (''created_at'', [(''S'', ts)]), (''updated_at'', [(''S'', ts)])]"

definition task_message :: "py_str \<Rightarrow> int \<Rightarrow> py_str" where
  "task_message tid priority =
     ''{\"task_id\":\"'' @ tid @ ''\",\"priority\":'' @ dec_int priority @ ''}''"

definition submit :: "submit_services \<Rightarrow> bench_config \<Rightarrow> py_str \<Rightarrow> int \<Rightarrow> aws_env \<Rightarrow> submit_result result \<times> aws_env" where
  "submit sv cfg payload priority s =
     (let (tid, w1) = call (ss_uuid sv) (aws_world s);
          (ts, w2) = call (ss_utc sv) w1;
          (r1, s1) = issue sv (S3Put (bc_payload_bucket cfg) (payload_key tid) payload) (s\<lparr>aws_world := w2\<rparr>)
      in case r1 of
           Inl e \<Rightarrow> (Inl e, s1)
         | Inr _ \<Rightarrow>
             let (r2, s2) = issue sv (DdbPut (bc_tasks_table cfg) (task_row tid priority ts)) s1
             in case r2 of
                  Inl e \<Rightarrow> (Inl e, s2)
                | Inr _ \<Rightarrow>
                    let (r3, s3) = issue sv (SqsSend (bc_ingest_queue_url cfg) (task_message tid priority)) s2
                    in case r3 of
                         Inl e \<Rightarrow> (Inl e, s3)
                       | Inr _ \<Rightarrow>
                           let (t, w3) = now_ns (aws_world s3)
                           in (Inr \<lparr>sr_task_id = tid, sr_submitted_ns = t\<rparr>, s3\<lparr>aws_world := w3\<rparr>))"

section \<open>Looking up a status\<close>

type_synonym tasks_db = "nat \<Rightarrow> py_str \<Rightarrow> ddb_row option result"

definition row_status :: "ddb_row option \<Rightarrow> py_str option" where
  "row_status item =
     (case item of
        None \<Rightarrow> None
      | Some row \<Rightarrow> if row = [] then None else dget (dget_default row ''status'' []) ''S'')"

definition poll_status :: "tasks_db \<Rightarrow> py_str \<Rightarrow> world \<Rightarrow> py_str option result \<times> world" where
  "poll_status db tid w =
     (let (ans, w1) = call (\<lambda>k. db k tid) w in (bind_res ans (\<lambda>item. Inr (row_status item)), w1))"

section \<open>Lemmas\<close>

lemma issue_eq:
  "issue sv c s =
     (case ss_answer sv (w_k (aws_world s)) of None \<Rightarrow> Inr () | Some e \<Rightarrow> Inl e,
      s\<lparr>aws_log := aws_log s @ [(c, ss_answer sv (w_k (aws_world s)) = None)], aws_world := tick (aws_world s)\<rparr>)"
  by (simp add: issue_def call_def)

lemma row_status_task_row [simp]: "row_status (Some (task_row tid p ts)) = Some ''PENDING''"
  by (simp add: row_status_def task_row_def dget_default_def)

lemma poll_status_time [simp]: "snd (poll_status db tid w) = tick w"
  by (simp add: poll_status_def call_def)

text \<open>
  \<open>stored_before calls body\<close>: the log contains, in this order, the successful writes of the payload
  and of the row of the task that the message \<open>body\<close> announces.  \<open>announced_after_stored\<close>: this
  holds of the log before every message that was sent or attempted.
\<close>

definition stored_before :: "(aws_call \<times> bool) list \<Rightarrow> py_str \<Rightarrow> bool" where
  "stored_before calls body \<longleftrightarrow>
     (\<exists>tid p ts bucket table payload. body = task_message tid p \<and>
        subseq [(S3Put bucket (payload_key tid) payload, True), (DdbPut table (task_row tid p ts), True)] calls)"

definition announced_after_stored :: "(aws_call \<times> bool) list \<Rightarrow> bool" where
  "announced_after_stored calls \<longleftrightarrow>
     (\<forall>pre url body ok post. calls = pre @ (SqsSend url body, ok) # post \<longrightarrow> stored_before pre body)"

lemma stored_before_subseq: "stored_before calls body \<Longrightarrow> subseq calls calls' \<Longrightarrow> stored_before calls' body"
  unfolding stored_before_def using subseq_order.trans [of _ calls calls'] by blast

lemma announced_snoc:
  "announced_after_stored (calls @ [(c, ok)]) \<longleftrightarrow>
     announced_after_stored calls \<and> (\<forall>url body. c = SqsSend url body \<longrightarrow> stored_before calls body)"
proof -
  have "calls @ [(c, ok)] = pre @ (SqsSend url body, ok') # post \<longleftrightarrow>
      (\<exists>post'. post = post' @ [(c, ok)] \<and> calls = pre @ (SqsSend url body, ok') # post') \<or>
      post = [] \<and> pre = calls \<and> c = SqsSend url body \<and> ok' = ok" for pre url body ok' post
    by (cases post rule: rev_cases) auto
  note split = this
  show ?thesis (is "?l \<longleftrightarrow> ?r")
  proof
    assume l: ?l
    show ?r
      using l [unfolded announced_after_stored_def] unfolding announced_after_stored_def split by blast
  next
    assume r: ?r
    show ?l
      unfolding announced_after_stored_def split using r [unfolded announced_after_stored_def] by blast
  qed
qed

lemma announced_Nil [simp]: "announced_after_stored []"
  by (simp add: announced_after_stored_def)

lemma submit_announced:
  assumes "aws_log s = []"
  shows "announced_after_stored (aws_log (snd (submit sv cfg payload priority s)))"
proof -
  have "stored_before [(S3Put b (payload_key tid) payload, True), (DdbPut t (task_row tid p ts), True)]
      (task_message tid p)" for b t tid p ts
    unfolding stored_before_def by blast
  with assms show ?thesis
    using announced_snoc [of "[]"] announced_snoc [of "[_]"] announced_snoc [of "[_, _]"]
    by (auto simp: submit_def issue_eq call_def Let_def now_ns_def split: option.splits)
qed

section \<open>Properties\<close>

text \<open>
  C4: no task is announced before it is stored.  However many submissions run concurrently and
  however their AWS calls interleave and fail, every message sent (or attempted) to the ingest
  queue comes after the successful writes of that task's payload and, after it, of its
  \<open>PENDING\<close> row.
\<close>

theorem submissions_announce_stored:
  fixes starts :: "(submit_services \<times> world) list"
  assumes "interleaved (map (\<lambda>(sv, w). aws_log (snd (submit sv cfg payload priority \<lparr>aws_log = [], aws_world = w\<rparr>))) starts) calls"
  shows "announced_after_stored calls"
  unfolding announced_after_stored_def
proof (intro allI impI)
  fix pre url body ok post
  assume "calls = pre @ (SqsSend url body, ok) # post"
  from interleaved_prefix [OF assms this] obtain i pre' post' sv w where
    log: "aws_log (snd (submit sv cfg payload priority \<lparr>aws_log = [], aws_world = w\<rparr>)) =
      pre' @ (SqsSend url body, ok) # post'" and sub: "subseq pre' pre"
    by (auto simp: case_prod_beta)
  have "announced_after_stored (pre' @ (SqsSend url body, ok) # post')"
    unfolding log [symmetric] by (rule submit_announced) simp
  then have "stored_before pre' body" unfolding announced_after_stored_def by blast
  then show "stored_before pre body" using sub by (rule stored_before_subseq)
qed

definition demo_submit_services :: submit_services where
  "demo_submit_services = \<lparr>ss_uuid = (\<lambda>_. ''t1''), ss_utc = (\<lambda>_. ''2026-01-01T00:00:00Z''), ss_answer = (\<lambda>_. None)\<rparr>"

definition demo_bench_config :: bench_config where
  "demo_bench_config = bench_from_env []"

theorem submissions_announce_stored_witness:
  "announced_after_stored
     [(S3Put ''raft-coordinator-dev-task-data-'' ''tasks/t1/payload'' ''x'', True),
      (DdbPut ''raft-coordinator-dev-tasks'' (task_row ''t1'' 5 ''2026-01-01T00:00:00Z''), True),
      (SqsSend ''https://sqs.us-east-1.amazonaws.com//raft-coordinator-dev-ingest'' (task_message ''t1'' 5), True)]"
proof -
  let ?w = "\<lparr>w_ns = 0, w_k = 0, w_delay = (\<lambda>_. 1)\<rparr>"
  have "aws_log (snd (submit demo_submit_services demo_bench_config ''x'' 5 \<lparr>aws_log = [], aws_world = ?w\<rparr>)) =
     [(S3Put ''raft-coordinator-dev-task-data-'' ''tasks/t1/payload'' ''x'', True),
      (DdbPut ''raft-coordinator-dev-tasks'' (task_row ''t1'' 5 ''2026-01-01T00:00:00Z''), True),
      (SqsSend ''https://sqs.us-east-1.amazonaws.com//raft-coordinator-dev-ingest'' (task_message ''t1'' 5), True)]"
    by (simp add: submit_def issue_eq call_def now_ns_def Let_def demo_submit_services_def demo_bench_config_def
        bench_from_env_def payload_key_def)
  then show ?thesis
    using submissions_announce_stored [of demo_bench_config "''x''" 5 "[(demo_submit_services, ?w)]", OF _]
      interleaved_one [of "aws_log (snd (submit demo_submit_services demo_bench_config ''x'' 5 \<lparr>aws_log = [], aws_world = ?w\<rparr>))"]
    by simp
qed

end
