(* ===== verification/History.thy ===== *)
theory History
  imports Py_Strings World
begin

text \<open>
  \<open>chaos-bench/recorder.py\<close> and the readers of its files.  A history is the list of the lines
  of \<open>history.jsonl\<close>, each blank or the JSON document of one event.  An event is a record whose
  fields are optional (\<open>ev.get(key)\<close> is \<open>None\<close> for an absent key); \<open>e_info\<close> keeps the
  descriptive string fields that no reader looks at.  The text of the file, and that reading it gives
  these events back, is in \<open>History_File\<close>.  Writers append under a lock, so every
  \<open>record\<close> is one step and concurrent writers interleave whole lines.
\<close>

section \<open>Events and lines\<close>

record hist_event =
  e_op :: "py_str option"
  e_task_id :: "py_str option"
  e_submitted_ns :: "int option"
  e_completed_ns :: "int option"
  e_call_ns :: "int option"
  e_return_ns :: "int option"
  e_wall_ns :: "int option"
  e_killed_ns :: "int option"
  e_status :: "py_str option"
  e_node_id :: "py_str option"
  e_redelivered :: "int option"
  e_commit_index :: "int option"
  e_info :: "(py_str, py_str) pydict"

definition event_of :: "py_str \<Rightarrow> hist_event" where
  "event_of op =
     \<lparr>e_op = Some op, e_task_id = None, e_submitted_ns = None, e_completed_ns = None, e_call_ns = None,
      e_return_ns = None, e_wall_ns = None, e_killed_ns = None, e_status = None, e_node_id = None,
      e_redelivered = None, e_commit_index = None, e_info = []\<rparr>"

lemma event_of_simps [simp]:
  "e_op (event_of op) = Some op" "e_task_id (event_of op) = None" "e_submitted_ns (event_of op) = None"
  "e_completed_ns (event_of op) = None" "e_wall_ns (event_of op) = None" "e_killed_ns (event_of op) = None"
  "e_status (event_of op) = None" "e_node_id (event_of op) = None" "e_redelivered (event_of op) = None"
  "e_call_ns (event_of op) = None" "e_return_ns (event_of op) = None"
  by (simp_all add: event_of_def)

datatype hist_line = BlankLine | EventLine hist_event

type_synonym history = "hist_line list"

fun events_of :: "history \<Rightarrow> hist_event list" where
  "events_of [] = []"
| "events_of (BlankLine # ls) = events_of ls"
| "events_of (EventLine ev # ls) = ev # events_of ls"

lemma events_of_append [simp]: "events_of (h @ h') = events_of h @ events_of h'"
  by (induction h rule: events_of.induct) auto

definition is_op :: "py_str \<Rightarrow> hist_event \<Rightarrow> bool" where
  "is_op op ev \<longleftrightarrow> e_op ev = Some op"

lemma is_op_event_of [simp]:
  "is_op op (event_of op') \<longleftrightarrow> op = op'"
  "is_op op (ev\<lparr>e_task_id := a\<rparr>) = is_op op ev" "is_op op (ev\<lparr>e_submitted_ns := i\<rparr>) = is_op op ev"
  "is_op op (ev\<lparr>e_completed_ns := i\<rparr>) = is_op op ev" "is_op op (ev\<lparr>e_wall_ns := i\<rparr>) = is_op op ev"
  "is_op op (ev\<lparr>e_status := a\<rparr>) = is_op op ev" "is_op op (ev\<lparr>e_call_ns := i\<rparr>) = is_op op ev"
  "is_op op (ev\<lparr>e_return_ns := i\<rparr>) = is_op op ev" "is_op op (ev\<lparr>e_info := d\<rparr>) = is_op op ev"
  "is_op op (ev\<lparr>e_killed_ns := i\<rparr>) = is_op op ev" "is_op op (ev\<lparr>e_node_id := a\<rparr>) = is_op op ev"
  "is_op op (ev\<lparr>e_redelivered := i\<rparr>) = is_op op ev"
  by (auto simp: is_op_def)

section \<open>HistoryRecorder\<close>

text \<open>\<open>record\<close> reads the clock first and keeps a \<open>wall_ns\<close> that the caller passed.\<close>

definition record_event :: "hist_event \<Rightarrow> history \<times> world \<Rightarrow> history \<times> world" where
  "record_event ev s =
     (let (t, w) = now_ns (snd s);
          ev' = (case e_wall_ns ev of None \<Rightarrow> ev\<lparr>e_wall_ns := Some t\<rparr> | Some _ \<Rightarrow> ev)
      in (fst s @ [EventLine ev'], w))"

definition stamp :: "int \<Rightarrow> hist_event \<Rightarrow> hist_event" where
  "stamp t ev = (case e_wall_ns ev of None \<Rightarrow> ev\<lparr>e_wall_ns := Some t\<rparr> | Some _ \<Rightarrow> ev)"

lemma record_event_eq:
  "record_event ev s = (fst s @ [EventLine (stamp (int (w_ns (tick (snd s)))) ev)], tick (snd s))"
  by (simp add: record_event_def now_ns_def stamp_def Let_def)

lemma stamp_simps [simp]:
  "e_op (stamp t ev) = e_op ev" "e_task_id (stamp t ev) = e_task_id ev" "e_status (stamp t ev) = e_status ev"
  "e_submitted_ns (stamp t ev) = e_submitted_ns ev" "e_completed_ns (stamp t ev) = e_completed_ns ev"
  "e_call_ns (stamp t ev) = e_call_ns ev" "e_return_ns (stamp t ev) = e_return_ns ev"
  "e_node_id (stamp t ev) = e_node_id ev" "is_op op (stamp t ev) = is_op op ev"
  "e_killed_ns (stamp t ev) = e_killed_ns ev"
  by (simp_all add: stamp_def is_op_def split: option.splits)

section \<open>Submitted task ids\<close>

definition is_submit :: "hist_event \<Rightarrow> bool" where
  "is_submit ev \<longleftrightarrow> is_op ''submit'' ev"

text \<open>One line of \<open>_task_ids_from_history\<close>; \<open>seen\<close> is always the set of the ids listed so far.\<close>

definition note_task_id :: "hist_event \<Rightarrow> py_str list \<times> py_str set \<Rightarrow> py_str list \<times> py_str set" where
  "note_task_id ev acc =
     (if \<not> is_submit ev then acc
      else case e_task_id ev of
             None \<Rightarrow> acc
           | Some tid \<Rightarrow>
               if tid \<noteq> [] \<and> tid \<notin> snd acc then (fst acc @ [tid], insert tid (snd acc)) else acc)"

definition task_ids_from_history :: "history \<Rightarrow> py_str list" where
  "task_ids_from_history h = fst (fold note_task_id (events_of h) ([], {}))"

text \<open>The specification: the non-empty ids of the submit events, each at its first occurrence.\<close>

definition submit_id :: "hist_event \<Rightarrow> py_str option" where
  "submit_id ev =
     (if is_submit ev then (case e_task_id ev of None \<Rightarrow> None | Some t \<Rightarrow> if t = [] then None else Some t)
      else None)"

definition submit_ids :: "hist_event list \<Rightarrow> py_str list" where
  "submit_ids evs = List.map_filter submit_id evs"

lemma submit_ids_Nil [simp]: "submit_ids [] = []"
  by (simp add: submit_ids_def map_filter_simps)

lemma submit_ids_Cons:
  "submit_id ev = None \<Longrightarrow> submit_ids (ev # evs) = submit_ids evs"
  "submit_id ev = Some t \<Longrightarrow> submit_ids (ev # evs) = t # submit_ids evs"
  by (simp_all add: submit_ids_def map_filter_simps)

lemma submit_ids_append [simp]: "submit_ids (xs @ ys) = submit_ids xs @ submit_ids ys"
  by (simp add: submit_ids_def map_filter_def)

lemma note_task_id_eq:
  "submit_id ev = None \<Longrightarrow> note_task_id ev acc = acc"
  "submit_id ev = Some t \<Longrightarrow>
     note_task_id ev acc = (if t \<in> snd acc then acc else (fst acc @ [t], insert t (snd acc)))"
  by (auto simp: note_task_id_def submit_id_def split: if_splits option.splits)

fun first_occs :: "'a list \<Rightarrow> 'a list" where
  "first_occs [] = []"
| "first_occs (x # xs) = x # filter (\<lambda>y. y \<noteq> x) (first_occs xs)"

lemma set_first_occs [simp]: "set (first_occs xs) = set xs"
  by (induction xs) auto

lemma distinct_first_occs [simp]: "distinct (first_occs xs)"
  by (induction xs) auto

lemma first_occs_snoc:
  "first_occs (xs @ [x]) = first_occs xs @ (if x \<in> set xs then [] else [x])"
  by (induction xs) auto

lemma fold_note_task_id:
  "fold note_task_id evs ([], {}) = (first_occs (submit_ids evs), set (submit_ids evs))"
proof (induction evs rule: rev_induct)
  case (snoc ev evs)
  show ?case
  proof (cases "submit_id ev")
    case None
    with snoc show ?thesis by (simp add: note_task_id_eq submit_ids_Cons)
  next
    case (Some t)
    with snoc show ?thesis by (simp add: note_task_id_eq submit_ids_Cons first_occs_snoc insert_absorb)
  qed
qed simp

lemma task_ids_from_history_eq: "task_ids_from_history h = first_occs (submit_ids (events_of h))"
  by (simp add: task_ids_from_history_def fold_note_task_id)

end
