(* ===== verification/Bench.thy ===== *)
theory Bench
  imports Submitter History
begin

text \<open>
  \<open>chaos-bench/bench.py\<close> and the bench worker of \<open>exp1.py\<close>: polling a task to completion, the
  submission of one task with its outcome events, and the pacing of submissions.  A task's thread
  is run against its own world (any delays, any answers), and the history of a run is an
  interleaving of what the threads record.
\<close>

section \<open>Polling a task to completion\<close>

definition is_terminal :: "py_str option \<Rightarrow> bool" where
  "is_terminal st \<longleftrightarrow> st = Some ''COMPLETED'' \<or> st = Some ''FAILED''"

definition complete_event :: "py_str \<Rightarrow> int \<Rightarrow> int \<Rightarrow> py_str option \<Rightarrow> hist_event" where
  "complete_event tid submitted_ns t st =
     (event_of ''complete'')\<lparr>e_task_id := Some tid, e_submitted_ns := Some submitted_ns,
       e_completed_ns := Some t, e_status := st\<rparr>"

definition timeout_event :: "py_str \<Rightarrow> int \<Rightarrow> int \<Rightarrow> hist_event" where
  "timeout_event tid submitted_ns t =
     (event_of ''timeout'')\<lparr>e_task_id := Some tid, e_submitted_ns := Some submitted_ns,
       e_completed_ns := Some t, e_status := Some ''TIMEOUT''\<rparr>"

definition poll_body ::
  "tasks_db \<Rightarrow> py_str \<Rightarrow> int \<Rightarrow> real \<Rightarrow> history \<Rightarrow> world \<Rightarrow> ((unit result \<times> history) + history) \<times> world" where
  "poll_body db tid submitted_ns interval h w =
     (let (r, w1) = poll_status db tid w
      in case r of
           Inl e \<Rightarrow> (Inl (Inl e, h), w1)
         | Inr st \<Rightarrow>
             if is_terminal st then
               let (t, w2) = now_ns w1;
                   (h', w3) = record_event (complete_event tid submitted_ns t st) (h, w2)
               in (Inl (Inr (), h'), w3)
             else (Inr h, sleep interval w1))"

definition poll_to_completion ::
  "tasks_db \<Rightarrow> py_str \<Rightarrow> int \<Rightarrow> real \<Rightarrow> real \<Rightarrow> history \<Rightarrow> world \<Rightarrow> ((unit result \<times> history) \<times> world) option" where
  "poll_to_completion db tid submitted_ns timeout_s interval h w =
     (let (t0, w1) = now w
      in map_option (\<lambda>(out, w2).
           case out of
             Inl res \<Rightarrow> (res, w2)
           | Inr h' \<Rightarrow>
               let (t, w3) = now_ns w2;
                   (h'', w4) = record_event (timeout_event tid submitted_ns t) (h', w3)
               in ((Inr (), h''), w4))
         (deadline_loop (t0 + timeout_s) (poll_body db tid submitted_ns interval) h w1))"

lemma poll_body_eq:
  "poll_body db tid submitted_ns interval h w =
     (case fst (poll_status db tid w) of
        Inl e \<Rightarrow> (Inl (Inl e, h), tick w)
      | Inr st \<Rightarrow>
          if is_terminal st then
            (Inl (Inr (), h @ [EventLine (stamp (int (w_ns (tick (tick (tick w)))))
                (complete_event tid submitted_ns (int (w_ns (tick (tick w)))) st))]), tick (tick (tick w)))
          else (Inr h, sleep interval (tick w)))"
  using poll_status_time [of db tid w]
  by (cases "poll_status db tid w") (simp add: poll_body_def now_ns_def record_event_eq Let_def split: sum.split)

lemma poll_body_advances:
  "poll_body db tid submitted_ns interval h w = (Inr h', w') \<Longrightarrow> h' = h \<and> secs w + interval \<le> secs w'"
  using secs_sleep_after [of w "tick w" interval] by (auto simp: poll_body_eq split: sum.splits if_splits)

lemma completion_polls: "0 < interval \<Longrightarrow> deadline_poll (poll_body db tid submitted_ns interval) interval"
  by unfold_locales (auto dest: poll_body_advances)

text \<open>What one call of \<open>_poll_to_completion\<close> adds to the history.\<close>

definition outcome_ok :: "tasks_db \<Rightarrow> py_str \<Rightarrow> int \<Rightarrow> real \<Rightarrow> hist_event \<Rightarrow> bool" where
  "outcome_ok db tid submitted_ns dl ev \<longleftrightarrow>
     e_task_id ev = Some tid \<and> e_submitted_ns ev = Some submitted_ns \<and>
     (is_op ''complete'' ev \<and> is_terminal (e_status ev) \<and> (\<exists>k row. db k tid = Inr row \<and> row_status row = e_status ev) \<or>
      is_op ''timeout'' ev \<and> e_status ev = Some ''TIMEOUT'' \<and> dl * 1000000000 \<le> of_int (the (e_completed_ns ev)))"

lemma poll_status_Inr:
  "fst (poll_status db tid w) = Inr st \<Longrightarrow> \<exists>k row. db k tid = Inr row \<and> row_status row = st"
  by (auto simp: poll_status_def call_def)

lemma poll_to_completion_outcome_lemma:
  assumes "0 < interval"
  shows "\<exists>r h' w'. poll_to_completion db tid submitted_ns timeout_s interval h w = Some ((r, h'), w') \<and>
     (case r of Inl e \<Rightarrow> h' = h
      | Inr _ \<Rightarrow> (\<exists>ev. h' = h @ [EventLine ev] \<and> outcome_ok db tid submitted_ns (secs (tick w) + timeout_s) ev))"
proof -
  let ?dl = "secs (tick w) + timeout_s" and ?body = "poll_body db tid submitted_ns interval"
  obtain out w2 where loop: "deadline_loop ?dl ?body h (tick w) = Some (out, w2)"
    using deadline_poll.loop_returns [OF completion_polls [OF assms]] by fastforce
  have "case out of
          Inl (r, h') \<Rightarrow> (case r of Inl e \<Rightarrow> h' = h
            | Inr _ \<Rightarrow> (\<exists>ev. h' = h @ [EventLine ev] \<and> outcome_ok db tid submitted_ns ?dl ev))
        | Inr h' \<Rightarrow> h' = h \<and> ?dl \<le> secs w2"
  proof (rule deadline_loop_rule [OF loop, where I = "\<lambda>h' _. h' = h"])
    show "case Inl r of Inl (r, h') \<Rightarrow> (case r of Inl e \<Rightarrow> h' = h
            | Inr _ \<Rightarrow> (\<exists>ev. h' = h @ [EventLine ev] \<and> outcome_ok db tid submitted_ns ?dl ev))
        | Inr h' \<Rightarrow> h' = h \<and> ?dl \<le> secs v'"
      if "s = h" "secs v < ?dl" "?body s v = (Inl r, v')" for s v r v'
      using that poll_status_Inr [of db tid v]
      by (auto simp: poll_body_eq outcome_ok_def complete_event_def split: sum.splits if_splits) blast
  qed (auto dest: poll_body_advances)
  moreover have "outcome_ok db tid submitted_ns ?dl (stamp t (timeout_event tid submitted_ns (int (w_ns (tick w2)))))"
    if "?dl \<le> secs w2" for t
  proof -
    from that order_trans [OF _ secs_tick] have "?dl \<le> secs (tick w2)" by blast
    then show ?thesis by (simp add: outcome_ok_def timeout_event_def secs_def field_simps)
  qed
  ultimately show ?thesis
    using loop by (cases out) (auto simp: poll_to_completion_def now_def now_ns_def record_event_eq Let_def)
qed

section \<open>Submitting one task\<close>

record run_params =
  rate_per_min :: real
  duration_s :: real
  payload_bytes :: int
  rp_priority :: int
  rp_poll_interval_s :: real
  completion_timeout_s :: real

text \<open>The text of an exception, as \<open>str(e)\<close> gives it.\<close>

definition error_text :: "py_error \<Rightarrow> py_str" where
  "error_text e = (case e of ServiceError s \<Rightarrow> s | RuntimeError s \<Rightarrow> s | TimeoutError s \<Rightarrow> s
     | KeyError s \<Rightarrow> repr_str s | AttributeError s \<Rightarrow> s | _ \<Rightarrow> [])"

definition submit_event :: "submit_result \<Rightarrow> hist_event" where
  "submit_event r = (event_of ''submit'')\<lparr>e_task_id := Some (sr_task_id r), e_submitted_ns := Some (sr_submitted_ns r)\<rparr>"

definition submit_error_event :: "py_error \<Rightarrow> hist_event" where
  "submit_error_event e = (event_of ''submit_error'')\<lparr>e_info := [(''err'', error_text e)]\<rparr>"

text \<open>
  \<open>do_submit\<close> of the bench workers of \<open>exp1.py\<close>, \<open>exp3.py\<close> and \<open>exp4.py\<close>: a failed submission is
  recorded and not polled.
\<close>

definition do_submit ::
  "submit_services \<Rightarrow> bench_config \<Rightarrow> run_params \<Rightarrow> world \<Rightarrow> submit_result option \<times> history \<times> world" where
  "do_submit sv cfg params w =
     (let payload = replicate (nat (payload_bytes params)) CHR ''x'';
          (r, s) = submit sv cfg payload (rp_priority params) \<lparr>aws_log = [], aws_world = w\<rparr>
      in case r of
           Inl e \<Rightarrow> (None, record_event (submit_error_event e) ([], aws_world s))
         | Inr sr \<Rightarrow> (Some sr, record_event (submit_event sr) ([], aws_world s)))"

text \<open>
  Everything one task's threads record: \<open>do_submit\<close>, then the poll that it schedules.  An exception of
  the poll ends its thread and is dropped with the future, so nothing more is recorded.
\<close>

definition task_thread ::
  "submit_services \<Rightarrow> tasks_db \<Rightarrow> bench_config \<Rightarrow> run_params \<Rightarrow> world \<Rightarrow> history option" where
  "task_thread sv db cfg params w =
     (let (sr, h, w1) = do_submit sv cfg params w
      in case sr of
           None \<Rightarrow> Some h
         | Some r \<Rightarrow>
             map_option (\<lambda>((_, h'), _). h')
               (poll_to_completion db (sr_task_id r) (sr_submitted_ns r) (completion_timeout_s params)
                  (rp_poll_interval_s params) h w1))"

text \<open>What becomes of a task, as far as its events show.\<close>

datatype fate = NotSubmitted | PollFailed | Completed | TimedOut

definition thread_shape :: "py_str \<Rightarrow> fate \<Rightarrow> hist_event list \<Rightarrow> bool" where
  "thread_shape tid f evs \<longleftrightarrow>
     (case f of
        NotSubmitted \<Rightarrow> (\<exists>ev. evs = [ev] \<and> is_op ''submit_error'' ev)
      | PollFailed \<Rightarrow> (\<exists>ev. evs = [ev] \<and> is_op ''submit'' ev \<and> e_task_id ev = Some tid)
      | Completed \<Rightarrow> (\<exists>ev ev'. evs = [ev, ev'] \<and> is_op ''submit'' ev \<and> e_task_id ev = Some tid \<and>
          is_op ''complete'' ev' \<and> e_task_id ev' = Some tid)
      | TimedOut \<Rightarrow> (\<exists>ev ev'. evs = [ev, ev'] \<and> is_op ''submit'' ev \<and> e_task_id ev = Some tid \<and>
          is_op ''timeout'' ev' \<and> e_task_id ev' = Some tid))"

definition thread_tid :: "submit_services \<Rightarrow> world \<Rightarrow> py_str" where
  "thread_tid sv w = ss_uuid sv (w_k w)"

lemma submit_task_id:
  "fst (submit sv cfg payload p \<lparr>aws_log = [], aws_world = w\<rparr>) = Inr sr \<Longrightarrow> sr_task_id sr = thread_tid sv w"
  by (auto simp: submit_def issue_eq call_def Let_def now_ns_def thread_tid_def split: option.splits)

lemma task_thread_shape:
  assumes "0 < rp_poll_interval_s params"
  shows "\<exists>h f. task_thread sv db cfg params w = Some h \<and> thread_shape (thread_tid sv w) f (events_of h)"
proof -
  let ?sub = "submit sv cfg (replicate (nat (payload_bytes params)) CHR ''x'') (rp_priority params) \<lparr>aws_log = [], aws_world = w\<rparr>"
  obtain r s where sub: "?sub = (r, s)" by fastforce
  show ?thesis
  proof (cases r)
    case (Inl e)
    then show ?thesis
      using sub by (intro exI [of _ "fst (record_event (submit_error_event e) ([], aws_world s))"] exI [of _ NotSubmitted])
        (simp add: task_thread_def do_submit_def record_event_eq thread_shape_def submit_error_event_def Let_def)
  next
    case (Inr sr)
    let ?h = "fst (record_event (submit_event sr) ([], aws_world s))" and ?w = "tick (aws_world s)"
    have tid: "sr_task_id sr = thread_tid sv w" 
      using submit_task_id [of sv cfg "replicate (nat (payload_bytes params)) CHR ''x''" "rp_priority params" w sr] sub Inr
      by simp
    have h: "?h = [EventLine (stamp (int (w_ns ?w)) (submit_event sr))]" by (simp add: record_event_eq)
    from poll_to_completion_outcome_lemma [OF assms, of db "sr_task_id sr" "sr_submitted_ns sr" "completion_timeout_s params" ?h ?w]
    obtain r' h' w' where p: "poll_to_completion db (sr_task_id sr) (sr_submitted_ns sr) (completion_timeout_s params)
        (rp_poll_interval_s params) ?h ?w = Some ((r', h'), w')"
      and out: "case r' of Inl e \<Rightarrow> h' = ?h | Inr _ \<Rightarrow> (\<exists>ev. h' = ?h @ [EventLine ev] \<and>
        outcome_ok db (sr_task_id sr) (sr_submitted_ns sr) (secs (tick ?w) + completion_timeout_s params) ev)"
      by blast
    have "task_thread sv db cfg params w = Some h'"
      using p sub Inr by (simp add: task_thread_def do_submit_def record_event_eq Let_def)
    moreover have "\<exists>f. thread_shape (thread_tid sv w) f (events_of h')"
    proof (cases r')
      case (Inl e)
      with out h tid show ?thesis
        by (intro exI [of _ PollFailed]) (simp add: thread_shape_def submit_event_def)
    next
      case (Inr u)
      with out obtain ev where ev: "h' = ?h @ [EventLine ev]" "e_task_id ev = Some (thread_tid sv w)"
        "is_op ''complete'' ev \<or> is_op ''timeout'' ev" by (auto simp: outcome_ok_def tid)
      then show ?thesis
        using h tid by (elim disjE; intro exI [of _ "if is_op ''complete'' ev then Completed else TimedOut"])
          (auto simp: thread_shape_def submit_event_def)
    qed
    ultimately show ?thesis by blast
  qed
qed

section \<open>Pacing the submissions\<close>

text \<open>
  The loop of \<open>run_bench\<close>: \<open>ts\<close> collects the clock readings at which a submission was handed to the
  pool, \<open>next\<close> is \<open>next_submit\<close>.
\<close>

definition interval_of :: "run_params \<Rightarrow> real" where
  "interval_of params = (if 0 < rate_per_min params then 60 / rate_per_min params else 0)"

partial_function (option) pace_loop ::
  "real \<Rightarrow> real \<Rightarrow> real \<Rightarrow> real \<Rightarrow> real list \<Rightarrow> world \<Rightarrow> (real list \<times> world) option" where
  "pace_loop t0 dur interval nxt ts w =
     (let (t, w1) = now w
      in if t - t0 < dur then
           let nxt' = nxt + interval;
               (t2, w2) = now w1;
               sleep_s = nxt' - t2
           in pace_loop t0 dur interval nxt' (ts @ [t]) (if 0 < sleep_s then sleep sleep_s w2 else w2)
         else Some (ts, w1))"

definition run_pacing :: "run_params \<Rightarrow> world \<Rightarrow> (real \<times> real list \<times> world) option" where
  "run_pacing params w =
     (let (t0, w1) = now w
      in map_option (\<lambda>(ts, w2). (t0, ts, w2))
           (pace_loop t0 (duration_s params) (interval_of params) t0 [] w1))"

lemma pace_wait: "nxt' \<le> secs (if 0 < nxt' - secs w2 then sleep (nxt' - secs w2) w2 else w2)"
  using secs_sleep [of w2 "nxt' - secs w2"] by auto

lemma pace_loop_returns:
  assumes "0 < interval" "nxt \<le> secs w"
  shows "\<exists>ts' w'. pace_loop t0 dur interval nxt ts w = Some (ts @ ts', w') \<and>
     (\<forall>i < length ts'. nxt + i * interval \<le> ts' ! i \<and> ts' ! i < t0 + dur) \<and> t0 + dur \<le> secs w'"
  using assms(2)
proof (induction "nat \<lceil>(t0 + dur - nxt) / interval\<rceil>" arbitrary: nxt ts w rule: less_induct)
  case less
  let ?t = "secs (tick w)" and ?w2 = "tick (tick w)" and ?n = "nxt + interval"
  have late: "nxt \<le> ?t" using less.prems secs_tick [of w] by linarith
  show ?case
  proof (cases "?t - t0 < dur")
    case False
    then show ?thesis by (subst pace_loop.simps) (simp add: now_def Let_def)
  next
    case True
    define w3 where "w3 = (if 0 < ?n - secs ?w2 then sleep (?n - secs ?w2) ?w2 else ?w2)"
    have "0 < (t0 + dur - nxt) / interval" using True late assms(1) by simp
    moreover have "(t0 + dur - ?n) / interval = (t0 + dur - nxt) / interval - 1"
      using assms(1) by (simp add: field_simps)
    ultimately have "nat \<lceil>(t0 + dur - ?n) / interval\<rceil> < nat \<lceil>(t0 + dur - nxt) / interval\<rceil>" by linarith
    moreover have "?n \<le> secs w3" unfolding w3_def by (rule pace_wait)
    ultimately obtain ts' w' where IH: "pace_loop t0 dur interval ?n (ts @ [?t]) w3 = Some ((ts @ [?t]) @ ts', w')"
      "\<forall>i < length ts'. ?n + i * interval \<le> ts' ! i \<and> ts' ! i < t0 + dur" "t0 + dur \<le> secs w'"
      using less.hyps [of ?n w3 "ts @ [?t]"] by blast
    have "pace_loop t0 dur interval nxt ts w = Some (ts @ (?t # ts'), w')"
      using True IH(1) by (subst pace_loop.simps) (simp add: now_def Let_def w3_def)
    moreover have "\<forall>i < length (?t # ts'). nxt + i * interval \<le> (?t # ts') ! i \<and> (?t # ts') ! i < t0 + dur"
      using IH(2) True late by (auto simp: less_Suc_eq_0_disj algebra_simps)
    ultimately show ?thesis using IH(3) by blast
  qed
qed

section \<open>Properties\<close>

text \<open>
  C29: polling a task ends.  With a positive poll interval \<open>_poll_to_completion\<close> always returns.
  When a poll raises it adds nothing to the history; otherwise it adds exactly one event for this
  task: a completion with a terminal status that the table did return, or a timeout, and a timeout
  only once the deadline has passed.
\<close>

theorem poll_to_completion_outcome:
  assumes "0 < interval"
  shows "\<exists>r h' w'. poll_to_completion db tid submitted_ns timeout_s interval h w = Some ((r, h'), w') \<and>
     (case r of Inl e \<Rightarrow> h' = h
      | Inr _ \<Rightarrow> (\<exists>ev. h' = h @ [EventLine ev] \<and> outcome_ok db tid submitted_ns (secs (tick w) + timeout_s) ev))"
  by (rule poll_to_completion_outcome_lemma [OF assms])

theorem poll_to_completion_outcome_witness:
  "\<exists>r h' w'. poll_to_completion (\<lambda>_ tid. Inr (Some (task_row tid 5 ''ts''))) ''t1'' 7 60 (1/2) []
       \<lparr>w_ns = 0, w_k = 0, w_delay = (\<lambda>_. 1)\<rparr> = Some ((r, h'), w') \<and>
     (case r of Inl e \<Rightarrow> h' = []
      | Inr _ \<Rightarrow> (\<exists>ev. h' = [] @ [EventLine ev] \<and> outcome_ok (\<lambda>_ tid. Inr (Some (task_row tid 5 ''ts''))) ''t1'' 7
          (secs (tick \<lparr>w_ns = 0, w_k = 0, w_delay = (\<lambda>_. 1)\<rparr>) + 60) ev))"
  by (rule poll_to_completion_outcome) simp

text \<open>
  Submissions are paced.  For a positive rate the loop of \<open>run_bench\<close> ends after the duration;
  submission number \<open>i\<close> is not made before \<open>i\<close> intervals after the start and none after the end,
  so there are fewer than \<open>duration / interval + 1\<close> of them: a slow service never makes the loop
  exceed its target rate.
\<close>

theorem run_pacing_rate:
  assumes "0 < rate_per_min params"
  shows "\<exists>t0 ts w'. run_pacing params w = Some (t0, ts, w') \<and> t0 + duration_s params \<le> secs w' \<and>
     (\<forall>i < length ts. t0 + i * (60 / rate_per_min params) \<le> ts ! i \<and> ts ! i < t0 + duration_s params) \<and>
     (ts = [] \<or> length ts < duration_s params / (60 / rate_per_min params) + 1)"
proof -
  let ?d = "60 / rate_per_min params" and ?t0 = "secs (tick w)"
  have pos: "0 < ?d" using assms by simp
  from pace_loop_returns [OF pos, of ?t0 "tick w" ?t0 "duration_s params" "[]"]
  obtain ts w' where loop: "pace_loop ?t0 (duration_s params) ?d ?t0 [] (tick w) = Some (ts, w')"
    "\<forall>i < length ts. ?t0 + i * ?d \<le> ts ! i \<and> ts ! i < ?t0 + duration_s params" "?t0 + duration_s params \<le> secs w'"
    by auto
  have "length ts < duration_s params / ?d + 1" if "ts \<noteq> []"
  proof -
    from that loop(2) have "?t0 + real (length ts - 1) * ?d < ?t0 + duration_s params"
      by (metis diff_less length_greater_0_conv less_one order_le_less_trans)
    then have "real (length ts - 1) < duration_s params / ?d" 
      unfolding pos_less_divide_eq [OF pos] by linarith
    with that show ?thesis by (cases ts) auto
  qed
  with loop assms show ?thesis
    by (intro exI [of _ ?t0] exI [of _ ts] exI [of _ w']) (auto simp: run_pacing_def now_def interval_of_def Let_def)
qed

definition demo_params :: run_params where
  "demo_params = \<lparr>rate_per_min = 100, duration_s = 60, payload_bytes = 128, rp_priority = 5, rp_poll_interval_s = 1/2,
     completion_timeout_s = 60\<rparr>"

theorem run_pacing_rate_witness:
  "\<exists>t0 ts w'. run_pacing demo_params \<lparr>w_ns = 0, w_k = 0, w_delay = (\<lambda>_. 1)\<rparr> = Some (t0, ts, w') \<and>
     t0 + 60 \<le> secs w' \<and> length ts < (101::real)"
proof -
  have "0 < rate_per_min demo_params" by (simp add: demo_params_def)
  from run_pacing_rate [OF this, of "\<lparr>w_ns = 0, w_k = 0, w_delay = (\<lambda>_. 1)\<rparr>"]
  obtain t0 ts w' where "run_pacing demo_params \<lparr>w_ns = 0, w_k = 0, w_delay = (\<lambda>_. 1)\<rparr> = Some (t0, ts, w')"
    "t0 + 60 \<le> secs w'" "ts = [] \<or> length ts < (101::real)" by (auto simp: demo_params_def)
  then show ?thesis by auto
qed

end
