(* ===== verification/Workers.thy ===== *)
theory Workers
  imports Bench
begin

text \<open>
  The submission loops of the bench workers, which run until a stop event: \<open>_bench_worker\<close> of \<open>exp1.py\<close>
  and \<open>exp4.py\<close>, and the count-based one of \<open>exp3.py\<close>.  A \<open>threading.Event\<close> is modelled by the time at
  which another thread sets it, if one ever does.
\<close>

section \<open>Stop events\<close>

type_synonym stop_event = "real option"

definition is_set :: "stop_event \<Rightarrow> world \<Rightarrow> bool" where
  "is_set stop w = (case stop of None \<Rightarrow> False | Some t \<Rightarrow> t \<le> secs w)"

text \<open>\<open>stop.wait(d)\<close>: returns whether the event was set before \<open>d\<close> seconds had passed.\<close>

definition stop_wait :: "stop_event \<Rightarrow> real \<Rightarrow> world \<Rightarrow> bool \<times> world" where
  "stop_wait stop d w =
     (case stop of
        None \<Rightarrow> (False, sleep d w)
      | Some t \<Rightarrow>
          if t \<le> secs w then (True, tick w)
          else if t \<le> secs w + d then (True, sleep (t - secs w) w)
          else (False, sleep d w))"

lemma stop_wait_set: "stop_wait stop d w = (True, w') \<Longrightarrow> is_set stop w'"
  using secs_tick [of w] secs_sleep [of w "the stop - secs w"]
  by (auto simp: stop_wait_def is_set_def simp del: secs_tick split: option.splits if_splits)

lemma stop_wait_slept: "stop_wait stop d w = (False, w') \<Longrightarrow> secs w + d \<le> secs w'"
  using secs_sleep [of w d] by (auto simp: stop_wait_def split: option.splits if_splits)

section \<open>The loops\<close>

text \<open>
  The end of a turn: \<open>next_submit\<close> is advanced, and the thread waits for it unless it is late.  \<open>True\<close>
  means that the wait was ended by the stop event.
\<close>

definition pace_wait_stop :: "stop_event \<Rightarrow> real \<Rightarrow> world \<Rightarrow> bool \<times> world" where
  "pace_wait_stop stop nxt w =
     (let (t, w1) = now w; sleep_s = nxt - t
      in if 0 < sleep_s then stop_wait stop sleep_s w1 else (False, w1))"

text \<open>\<open>exp1.py\<close> and \<open>exp4.py\<close>; the list collects the times of the submissions.\<close>

partial_function (option) stop_pace ::
  "stop_event \<Rightarrow> real \<Rightarrow> real \<Rightarrow> real list \<Rightarrow> world \<Rightarrow> (real list \<times> world) option" where
  "stop_pace stop interval nxt ts w =
     (if is_set stop (tick w) then Some (ts, tick w)
      else
        let (stopping, w2) = pace_wait_stop stop (nxt + interval) (tick w)
        in if stopping then Some (ts @ [secs (tick w)], w2)
           else stop_pace stop interval (nxt + interval) (ts @ [secs (tick w)]) w2)"

definition worker_submissions :: "stop_event \<Rightarrow> run_params \<Rightarrow> world \<Rightarrow> (real \<times> real list \<times> world) option" where
  "worker_submissions stop params w =
     (let (t0, w1) = now w
      in map_option (\<lambda>(ts, w2). (t0, ts, w2)) (stop_pace stop (interval_of params) t0 [] w1))"

text \<open>\<open>exp3.py\<close>; the first argument after the event is \<open>target_count - submitted\<close>.\<close>

fun count_pace :: "stop_event \<Rightarrow> nat \<Rightarrow> real \<Rightarrow> real \<Rightarrow> real list \<Rightarrow> world \<Rightarrow> real list \<times> world" where
  "count_pace stop 0 interval nxt ts w = (ts, w)"
| "count_pace stop (Suc n) interval nxt ts w =
     (if is_set stop (tick w) then (ts, tick w)
      else
        let (stopping, w2) = pace_wait_stop stop (nxt + interval) (tick w)
        in if stopping then (ts @ [secs (tick w)], w2)
           else count_pace stop n interval (nxt + interval) (ts @ [secs (tick w)]) w2)"

definition exp3_submissions :: "stop_event \<Rightarrow> run_params \<Rightarrow> int \<Rightarrow> world \<Rightarrow> real \<times> real list \<times> world" where
  "exp3_submissions stop params target_count w =
     (let (t0, w1) = now w
      in (t0, count_pace stop (nat target_count) (interval_of params) t0 [] w1))"

text \<open>
  \<open>_bench_worker\<close> of \<open>exp4.py\<close> is a copy of that of \<open>exp1.py\<close> with larger pools: the threads of one task, and the
  submission loop.
\<close>

definition exp4_bench_thread ::
  "submit_services \<Rightarrow> tasks_db \<Rightarrow> bench_config \<Rightarrow> run_params \<Rightarrow> world \<Rightarrow> history option" where
  "exp4_bench_thread sv db cfg params w =
     (let payload = replicate (nat (payload_bytes params)) CHR ''x'';
          (r, s) = submit sv cfg payload (rp_priority params) \<lparr>aws_log = [], aws_world = w\<rparr>
      in case r of
           Inl e \<Rightarrow> Some (fst (record_event (submit_error_event e) ([], aws_world s)))
         | Inr sr \<Rightarrow>
             let (h, w1) = record_event (submit_event sr) ([], aws_world s)
             in map_option (\<lambda>((_, h'), _). h')
                  (poll_to_completion db (sr_task_id sr) (sr_submitted_ns sr) (completion_timeout_s params)
                     (rp_poll_interval_s params) h w1))"

definition exp4_submissions :: "stop_event \<Rightarrow> run_params \<Rightarrow> world \<Rightarrow> (real \<times> real list \<times> world) option" where
  "exp4_submissions stop params w =
     (let interval_s = (if 0 < rate_per_min params then 60 / rate_per_min params else 0);
          (next_submit, w1) = now w
      in map_option (\<lambda>(ts, w2). (next_submit, ts, w2)) (stop_pace stop interval_s next_submit [] w1))"

section \<open>Lemmas\<close>

lemma exp4_bench_thread_eq: "exp4_bench_thread sv db cfg params w = task_thread sv db cfg params w"
  by (auto simp: exp4_bench_thread_def task_thread_def do_submit_def Let_def split: prod.split sum.split)

lemma exp4_submissions_eq: "exp4_submissions stop params w = worker_submissions stop params w"
  by (simp add: exp4_submissions_def worker_submissions_def interval_of_def Let_def)

text \<open>Submission \<open>i\<close> is not made before \<open>nxt + i * interval\<close>, and none once the event is set.\<close>

fun paced :: "stop_event \<Rightarrow> real \<Rightarrow> real \<Rightarrow> real list \<Rightarrow> bool" where
  "paced stop interval nxt [] = True"
| "paced stop interval nxt (t # ts) =
     (nxt \<le> t \<and> (case stop of None \<Rightarrow> True | Some end \<Rightarrow> t < end) \<and> paced stop interval (nxt + interval) ts)"

lemma paced_nth: "paced stop interval nxt ts \<Longrightarrow> i < length ts \<Longrightarrow> nxt + i * interval \<le> ts ! i"
  by (induction ts arbitrary: nxt i) (force simp: less_Suc_eq_0_disj algebra_simps)+

lemma paced_before: "paced (Some T) interval nxt ts \<Longrightarrow> i < length ts \<Longrightarrow> ts ! i < T"
  by (induction ts arbitrary: nxt i) (force simp: less_Suc_eq_0_disj)+

lemma pace_wait_stop_False: "pace_wait_stop stop nxt w = (False, w') \<Longrightarrow> nxt \<le> secs w' \<and> secs w \<le> secs w'"
  using stop_wait_slept [of stop "nxt - secs (tick w)" "tick w" w'] secs_tick [of w]
  by (auto simp: pace_wait_stop_def now_def Let_def simp del: secs_tick split: if_splits)

lemma pace_wait_stop_True: "pace_wait_stop stop nxt w = (True, w') \<Longrightarrow> is_set stop w'"
  by (auto simp: pace_wait_stop_def now_def Let_def dest: stop_wait_set split: if_splits)

lemma not_set_before: "\<not> is_set stop w \<Longrightarrow> case stop of None \<Rightarrow> True | Some end \<Rightarrow> secs w < end"
  by (auto simp: is_set_def split: option.splits)

lemma count_pace_paced:
  assumes "nxt \<le> secs w"
  shows "\<exists>ts' w'. count_pace stop n interval nxt ts w = (ts @ ts', w') \<and> paced stop interval nxt ts' \<and>
     length ts' \<le> n \<and> (length ts' = n \<or> is_set stop w')"
  using assms
proof (induction n arbitrary: nxt ts w)
  case (Suc n)
  have late: "nxt \<le> secs (tick w)" using Suc.prems secs_tick [of w] by linarith
  obtain b w2 where wait: "pace_wait_stop stop (nxt + interval) (tick w) = (b, w2)" by fastforce
  consider "is_set stop (tick w)" | "\<not> is_set stop (tick w)" b | "\<not> is_set stop (tick w)" "\<not> b" by blast
  then show ?case
  proof cases
    case 1
    then show ?thesis by simp
  next
    case 2
    then show ?thesis
      using wait late pace_wait_stop_True [of stop _ "tick w" w2] not_set_before [of stop "tick w"] by auto
  next
    case 3
    with wait have w2: "nxt + interval \<le> secs w2" using pace_wait_stop_False by auto
    from Suc.IH [OF w2, of "ts @ [secs (tick w)]"] obtain ts' w' where
      "count_pace stop n interval (nxt + interval) (ts @ [secs (tick w)]) w2 = ((ts @ [secs (tick w)]) @ ts', w')"
      "paced stop interval (nxt + interval) ts'" "length ts' \<le> n" "length ts' = n \<or> is_set stop w'" by blast
    then show ?thesis
      using 3 wait late not_set_before [of stop "tick w"] by (intro exI [of _ "secs (tick w) # ts'"] exI [of _ w']) auto
  qed
qed simp

lemma stop_pace_returns:
  assumes "0 < interval" "nxt \<le> secs w"
  shows "\<exists>ts' w'. stop_pace (Some T) interval nxt ts w = Some (ts @ ts', w') \<and> paced (Some T) interval nxt ts' \<and> T \<le> secs w'"
  using assms(2)
proof (induction "nat \<lceil>(T - nxt) / interval\<rceil>" arbitrary: nxt ts w rule: less_induct)
  case less
  let ?t = "secs (tick w)" and ?n = "nxt + interval"
  have late: "nxt \<le> ?t" using less.prems secs_tick [of w] by linarith
  obtain b w2 where wait: "pace_wait_stop (Some T) ?n (tick w) = (b, w2)" by fastforce
  consider "T \<le> ?t" | "?t < T" b | "?t < T" "\<not> b" by linarith
  then show ?case
  proof cases
    case 1
    then show ?thesis by (subst stop_pace.simps) (simp add: is_set_def)
  next
    case 2
    then have "T \<le> secs w2" using wait pace_wait_stop_True [of "Some T" ?n "tick w" w2] by (simp add: is_set_def)
    with 2 wait late show ?thesis by (subst stop_pace.simps) (simp add: is_set_def)
  next
    case 3
    with wait have w2: "?n \<le> secs w2" using pace_wait_stop_False by auto
    have "0 < (T - nxt) / interval" using 3 late assms(1) by simp
    moreover have "(T - ?n) / interval = (T - nxt) / interval - 1" using assms(1) by (simp add: field_simps)
    ultimately have "nat \<lceil>(T - ?n) / interval\<rceil> < nat \<lceil>(T - nxt) / interval\<rceil>" by linarith
    from less.hyps [OF this w2, of "ts @ [?t]"] obtain ts' w' where
      IH: "stop_pace (Some T) interval ?n (ts @ [?t]) w2 = Some ((ts @ [?t]) @ ts', w')"
        "paced (Some T) interval ?n ts'" "T \<le> secs w'" by blast
    have "stop_pace (Some T) interval nxt ts w = Some (ts @ (?t # ts'), w')"
      using 3 wait IH(1) by (subst stop_pace.simps) (simp add: is_set_def)
    with IH(2,3) 3 late show ?thesis by (intro exI [of _ "?t # ts'"] exI [of _ w']) simp
  qed
qed

lemma paced_length:
  assumes "paced (Some T) interval nxt ts" "0 < interval" "nxt \<le> T"
  shows "length ts < (T - nxt) / interval + 1"
  using assms(1,3)
proof (induction ts arbitrary: nxt)
  case Nil
  have "0 \<le> (T - nxt) / interval" using Nil.prems assms(2) by simp
  then show ?case by simp
next
  case (Cons t ts)
  show ?case
  proof (cases "nxt + interval \<le> T")
    case True
    with Cons have "length ts < (T - (nxt + interval)) / interval + 1" by simp
    then show ?thesis using assms(2) by (simp add: field_simps)
  next
    case False
    with Cons.prems have "ts = []" by (cases ts) auto
    moreover have "0 < (T - nxt) / interval" using Cons.prems assms(2) by simp
    ultimately show ?thesis by simp
  qed
qed

section \<open>Properties\<close>

text \<open>
  C35: the workers of experiments 1 and 4 stop when told to.  If the stop event is set at some time \<open>T\<close> not before
  the start and the rate is positive, the submission loop ends, after \<open>T\<close>, whatever the timing.  It submits
  nothing after \<open>T\<close>, and submission \<open>i\<close> not before \<open>i\<close> intervals after the start, so fewer than
  \<open>(T - start) / interval + 1\<close> tasks.
\<close>

theorem worker_stops:
  assumes "0 < rate_per_min params" "secs (tick w) \<le> T"
  shows "\<exists>t0 ts w'. worker_submissions (Some T) params w = Some (t0, ts, w') \<and>
     exp4_submissions (Some T) params w = Some (t0, ts, w') \<and> T \<le> secs w' \<and>
     (\<forall>i < length ts. t0 + i * (60 / rate_per_min params) \<le> ts ! i \<and> ts ! i < T) \<and>
     length ts < (T - t0) / (60 / rate_per_min params) + 1"
proof -
  let ?iv = "60 / rate_per_min params" and ?t0 = "secs (tick w)"
  have iv: "interval_of params = ?iv" "0 < ?iv" using assms(1) by (simp_all add: interval_of_def)
  obtain ts w' where run: "stop_pace (Some T) ?iv ?t0 [] (tick w) = Some (ts, w')" "paced (Some T) ?iv ?t0 ts" "T \<le> secs w'"
    using stop_pace_returns [OF iv(2), of ?t0 "tick w" T "[]"] by auto
  show ?thesis
    using run paced_nth [OF run(2)] paced_before [OF run(2)] paced_length [OF run(2) iv(2) assms(2)]
    by (simp add: exp4_submissions_eq worker_submissions_def now_def Let_def iv(1))
qed

theorem worker_stops_witness:
  "\<exists>t0 ts w'. worker_submissions (Some 180) demo_params \<lparr>w_ns = 0, w_k = 0, w_delay = (\<lambda>_. 1)\<rparr> = Some (t0, ts, w') \<and>
     180 \<le> secs w' \<and> length ts < (180 - t0) / (60 / 100) + 1"
proof -
  have "0 < rate_per_min demo_params" "secs (tick \<lparr>w_ns = 0, w_k = 0, w_delay = (\<lambda>_. 1)\<rparr>) \<le> 180"
    by (simp_all add: demo_params_def secs_def tick_def)
  from worker_stops [OF this] show ?thesis by (auto simp: demo_params_def)
qed

text \<open>
  The worker of experiment 3 submits its target.  Its loop makes exactly \<open>target_count\<close> submissions (none for
  a negative target) unless the stop event is set while it runs, and never more; submission \<open>i\<close> is
  not made before \<open>i\<close> intervals after the start.
\<close>

theorem exp3_submits_target:
  "let (t0, ts, w') = exp3_submissions stop params target_count w
   in length ts \<le> nat target_count \<and> (length ts = nat target_count \<or> is_set stop w') \<and>
      list_all2 (\<lambda>i t. t0 + real i * interval_of params \<le> t) [0 ..< length ts] ts"
proof -
  obtain ts w' where "count_pace stop (nat target_count) (interval_of params) (secs (tick w)) [] (tick w) = (ts, w')"
    "paced stop (interval_of params) (secs (tick w)) ts" "length ts \<le> nat target_count"
    "length ts = nat target_count \<or> is_set stop w'"
    using count_pace_paced [of "secs (tick w)" "tick w" stop "nat target_count" "interval_of params" "[]"] by auto
  then show ?thesis
    using paced_nth by (auto simp: exp3_submissions_def now_def Let_def list_all2_conv_all_nth)
qed

end
