(* ===== verification/Stats.thy ===== *)
theory Stats
  imports Py_Strings "HOL-Library.Multiset"
begin

text \<open>
  Percentiles.  The analyses pick the element of the sorted sample at an index computed from the
  percentage and the sample size, each with a formula of its own.  The locale states what such a
  formula must give, a valid index that does not fall when the percentage rises, and proves the
  consequences once; the formulas of \<open>chaos-bench/exp1.py\<close> (rounding) and of
  \<open>experiments/metrics-collector/collect.py\<close> (truncation) interpret it.
\<close>

section \<open>Contract of an index formula\<close>

locale percentile_index =
  fixes idx :: "real \<Rightarrow> nat \<Rightarrow> nat"
  assumes idx_bound: "0 < n \<Longrightarrow> idx p n < n"
    and idx_mono: "0 < n \<Longrightarrow> p \<le> q \<Longrightarrow> idx p n \<le> idx q n"
begin

lemma percentile_mem: "xs \<noteq> [] \<Longrightarrow> sort xs ! idx p (length xs) \<in> set xs" for xs :: "real list"
  using nth_mem [of "idx p (length xs)" "sort xs"] idx_bound [of "length xs" p] by simp

lemma percentile_mono:
  "xs \<noteq> [] \<Longrightarrow> p \<le> q \<Longrightarrow> sort xs ! idx p (length xs) \<le> sort xs ! idx q (length xs)" for xs :: "real list"
  using idx_mono [of "length xs" p q] idx_bound [of "length xs" q] by (intro sorted_nth_mono) auto

lemma percentile_rank:
  fixes xs :: "real list"
  assumes "xs \<noteq> []"
  shows "idx p (length xs) < length (filter (\<lambda>x. x \<le> sort xs ! idx p (length xs)) xs)"
proof -
  let ?k = "idx p (length xs)" and ?ys = "sort xs"
  have k: "?k < length ?ys" using assms idx_bound [of "length xs" p] by simp
  have "take (Suc ?k) ?ys = filter (\<lambda>x. x \<le> ?ys ! ?k) (take (Suc ?k) ?ys)"
  proof (rule sym, rule filter_True, rule ballI)
    fix x assume "x \<in> set (take (Suc ?k) ?ys)"
    then obtain i where "i \<le> ?k" "x = ?ys ! i" by (auto simp: in_set_conv_nth less_Suc_eq_le)
    then show "x \<le> ?ys ! ?k" using k by (auto intro: sorted_nth_mono)
  qed
  then have "Suc ?k = length (filter (\<lambda>x. x \<le> ?ys ! ?k) (take (Suc ?k) ?ys))"
    using k by (metis Suc_leI length_take min.absorb2)
  also have "\<dots> \<le> length (filter (\<lambda>x. x \<le> ?ys ! ?k) (take (Suc ?k) ?ys @ drop (Suc ?k) ?ys))"
    unfolding filter_append by simp
  also have "\<dots> = length (filter (\<lambda>x. x \<le> ?ys ! ?k) ?ys)" by (simp only: append_take_drop_id)
  also have "\<dots> = length (filter (\<lambda>x. x \<le> ?ys ! ?k) xs)"
    by (rule mset_eq_length) simp
  finally show ?thesis by simp
qed

end

section \<open>The two formulas\<close>

text \<open>\<open>max(0, min(len(xs) - 1, int(round(p / 100 * (len(xs) - 1)))))\<close>\<close>

definition round_index :: "real \<Rightarrow> nat \<Rightarrow> nat" where
  "round_index p n = nat (max 0 (min (int n - 1) (py_round (p / 100 * (real n - 1)))))"

interpretation rounding: percentile_index round_index
proof unfold_locales
  show "round_index p n < n" if "0 < n" for n p using that by (auto simp: round_index_def)
  show "round_index p n \<le> round_index q n" if "0 < n" "p \<le> q" for n p q
  proof -
    have "p / 100 * (real n - 1) \<le> q / 100 * (real n - 1)" using that by (intro mult_right_mono) auto
    from py_round_mono [OF this] show ?thesis by (auto simp: round_index_def)
  qed
qed

text \<open>\<open>min(int(len(data) * p / 100.0), len(data) - 1)\<close>, as an index for \<open>p \<ge> 0\<close>.\<close>

definition trunc_index :: "real \<Rightarrow> nat \<Rightarrow> int" where
  "trunc_index p n = min (py_trunc (real n * p / 100)) (int n - 1)"

interpretation truncation: percentile_index "\<lambda>p n. nat (trunc_index p n)"
proof unfold_locales
  show "nat (trunc_index p n) < n" if "0 < n" for n p using that by (auto simp: trunc_index_def)
  show "nat (trunc_index p n) \<le> nat (trunc_index q n)" if "0 < n" "p \<le> q" for n p q
  proof -
    have "real n * p / 100 \<le> real n * q / 100"
      using that by (intro divide_right_mono mult_left_mono) auto
    from py_trunc_mono [OF this] show ?thesis by (auto simp: trunc_index_def)
  qed
qed

section \<open>Means\<close>

definition mean :: "real list \<Rightarrow> real" where
  "mean xs = sum_list xs / real (length xs)"

lemma mean_bounds:
  assumes "xs \<noteq> []"
  shows "Min (set xs) \<le> mean xs \<and> mean xs \<le> Max (set xs)"
proof -
  have "real (length ys) * lo \<le> sum_list ys \<and> sum_list ys \<le> real (length ys) * hi"
    if "\<forall>y \<in> set ys. lo \<le> y \<and> y \<le> hi" for ys lo hi
    using that by (induction ys) (auto simp: algebra_simps)
  from this [of xs "Min (set xs)" "Max (set xs)"]
  have "real (length xs) * Min (set xs) \<le> sum_list xs" "sum_list xs \<le> real (length xs) * Max (set xs)" by auto
  with assms show ?thesis by (simp add: mean_def field_simps)
qed

section \<open>Extremes\<close>

text \<open>\<open>max(xs)\<close> and \<open>min(xs)\<close> of a non-empty list, computed from its first element.\<close>

lemma fold_max_Max: "xs \<noteq> [] \<Longrightarrow> fold max xs (hd xs) = Max (set xs)" for xs :: "real list"
proof -
  have "fold max ys y = Max (insert y (set ys))" for ys :: "real list" and y
  proof (induction ys arbitrary: y)
    case (Cons z zs)
    then show ?case by (cases "set zs = {}") (auto simp: max.assoc max.left_commute)
  qed simp
  then show "xs \<noteq> [] \<Longrightarrow> fold max xs (hd xs) = Max (set xs)" by (simp add: insert_absorb)
qed

lemma fold_min_Min: "xs \<noteq> [] \<Longrightarrow> fold min xs (hd xs) = Min (set xs)" for xs :: "real list"
proof -
  have "fold min ys y = Min (insert y (set ys))" for ys :: "real list" and y
  proof (induction ys arbitrary: y)
    case (Cons z zs)
    then show ?case by (cases "set zs = {}") (auto simp: min.assoc min.left_commute)
  qed simp
  then show "xs \<noteq> [] \<Longrightarrow> fold min xs (hd xs) = Min (set xs)" by (simp add: insert_absorb)
qed

end
