(* ===== verification/Exp1_Analysis.thy ===== *)
theory Exp1_Analysis
  imports Bench Stats Raft_Client
begin

text \<open>
  \<open>analyze\<close> of \<open>chaos-bench/exp1.py\<close>: election convergence, task accounting and percentiles from
  the history of a run.
\<close>

section \<open>Reading the history\<close>

record exp1_acc =
  x_submits :: "(py_str, int) pydict"
  x_completes :: "(py_str, int) pydict"
  x_timeouts :: "py_str set"
  x_kills :: "int list"
  x_leader_events :: "(int \<times> py_str) list"

definition exp1_acc_init :: exp1_acc where
  "exp1_acc_init = \<lparr>x_submits = [], x_completes = [], x_timeouts = {}, x_kills = [], x_leader_events = []\<rparr>"

definition need :: "py_str \<Rightarrow> 'a option \<Rightarrow> 'a result" where
  "need key v = (case v of None \<Rightarrow> Inl (KeyError key) | Some x \<Rightarrow> Inr x)"

definition exp1_line :: "hist_event \<Rightarrow> exp1_acc \<Rightarrow> exp1_acc result" where
  "exp1_line ev acc =
     (if is_op ''submit'' ev then
        bind_res (need ''task_id'' (e_task_id ev)) (\<lambda>t.
          Inr (acc\<lparr>x_submits := dset t (get_or (e_submitted_ns ev) 0) (x_submits acc)\<rparr>))
      else if is_op ''complete'' ev then
        bind_res (need ''task_id'' (e_task_id ev)) (\<lambda>t.
          Inr (acc\<lparr>x_completes := dset t (get_or (e_completed_ns ev) 0) (x_completes acc)\<rparr>))
      else if is_op ''timeout'' ev then
        bind_res (need ''task_id'' (e_task_id ev)) (\<lambda>t. Inr (acc\<lparr>x_timeouts := insert t (x_timeouts acc)\<rparr>))
      else if is_op ''chaos.kill_leader'' ev then
        Inr (acc\<lparr>x_kills := x_kills acc @ [get_or (e_killed_ns ev) (get_or (e_wall_ns ev) 0)]\<rparr>)
      else if is_op ''leader_observed'' ev then
        bind_res (need ''node_id'' (e_node_id ev)) (\<lambda>n.
          Inr (acc\<lparr>x_leader_events := x_leader_events acc @ [(get_or (e_wall_ns ev) 0, n)]\<rparr>))
      else Inr acc)"

section \<open>Convergence and statistics\<close>

definition convergence_of :: "(int \<times> py_str) list \<Rightarrow> int \<Rightarrow> real option" where
  "convergence_of evs k = map_option (\<lambda>(ts, nid). real_of_int (ts - k) / 1000000) (find (\<lambda>(ts, nid). k < ts) evs)"

definition convergence_ms :: "int list \<Rightarrow> (int \<times> py_str) list \<Rightarrow> real list" where
  "convergence_ms kills evs = List.map_filter (convergence_of evs) kills"

definition exp1_pct :: "real list \<Rightarrow> real \<Rightarrow> real" where
  "exp1_pct xs p = (if xs = [] then 0 else sort xs ! round_index p (length xs))"

record exp1_stats =
  kill_count :: nat
  convergence_samples :: nat
  convergence_p50_ms :: real
  convergence_p95_ms :: real
  convergence_mean_ms :: real
  convergence_max_ms :: real
  submitted :: nat
  completed :: nat
  timed_out :: nat
  lost :: int
  leader_change_count :: nat

definition exp1_summary :: "exp1_acc \<Rightarrow> exp1_stats" where
  "exp1_summary acc =
     (let conv = convergence_ms (x_kills acc) (x_leader_events acc);
          sub = length (x_submits acc);
          com = length (x_completes acc);
          tmo = card (x_timeouts acc)
      in \<lparr>kill_count = length (x_kills acc), convergence_samples = length conv,
          convergence_p50_ms = exp1_pct conv 50, convergence_p95_ms = exp1_pct conv 95,
          convergence_mean_ms = (if conv = [] then 0 else mean conv),
          convergence_max_ms = (if conv = [] then 0 else fold max conv (hd conv)),
          submitted = sub, completed = com, timed_out = tmo,
          lost = max 0 (int sub - int com - int tmo),
          leader_change_count = length (x_leader_events acc)\<rparr>)"

definition exp1_analyze :: "history \<Rightarrow> exp1_stats result" where
  "exp1_analyze h = bind_res (fold_res exp1_line (events_of h) exp1_acc_init) (\<lambda>acc. Inr (exp1_summary acc))"

section \<open>What the accumulator holds\<close>

definition wf_event :: "hist_event \<Rightarrow> bool" where
  "wf_event ev \<longleftrightarrow>
     ((is_op ''submit'' ev \<or> is_op ''complete'' ev \<or> is_op ''timeout'' ev) \<longrightarrow> e_task_id ev \<noteq> None) \<and>
     (is_op ''leader_observed'' ev \<longrightarrow> e_node_id ev \<noteq> None)"

definition ids_of :: "py_str \<Rightarrow> hist_event list \<Rightarrow> py_str set" where
  "ids_of op evs = {t. \<exists>ev \<in> set evs. is_op op ev \<and> e_task_id ev = Some t}"

lemma ids_of_simps [simp]:
  "ids_of op [] = {}"
  "ids_of op (evs @ [ev]) = (if is_op op ev then set_option (e_task_id ev) else {}) \<union> ids_of op evs"
  by (auto simp: ids_of_def)

lemma is_op_unique: "is_op op ev \<Longrightarrow> is_op op' ev \<longleftrightarrow> op = op'"
  by (simp add: is_op_def)

definition acc_of :: "hist_event list \<Rightarrow> exp1_acc \<Rightarrow> bool" where
  "acc_of evs acc \<longleftrightarrow>
     fst ` set (x_submits acc) = ids_of ''submit'' evs \<and> distinct (map fst (x_submits acc)) \<and>
     fst ` set (x_completes acc) = ids_of ''complete'' evs \<and> distinct (map fst (x_completes acc)) \<and>
     x_timeouts acc = ids_of ''timeout'' evs \<and>
     x_kills acc = map (\<lambda>ev. get_or (e_killed_ns ev) (get_or (e_wall_ns ev) 0)) (filter (is_op ''chaos.kill_leader'') evs) \<and>
     x_leader_events acc =
       map (\<lambda>ev. (get_or (e_wall_ns ev) 0, the (e_node_id ev))) (filter (is_op ''leader_observed'') evs)"

lemma exp1_line_step:
  assumes "acc_of evs acc" "wf_event ev"
  shows "\<exists>acc'. exp1_line ev acc = Inr acc' \<and> acc_of (evs @ [ev]) acc'"
proof -
  consider "is_op ''submit'' ev" | "is_op ''complete'' ev" | "is_op ''timeout'' ev"
    | "is_op ''chaos.kill_leader'' ev" | "is_op ''leader_observed'' ev"
    | "\<not> is_op ''submit'' ev \<and> \<not> is_op ''complete'' ev \<and> \<not> is_op ''timeout'' ev \<and>
       \<not> is_op ''chaos.kill_leader'' ev \<and> \<not> is_op ''leader_observed'' ev" by blast
  then show ?thesis
    by cases (use assms in \<open>auto simp: exp1_line_def acc_of_def wf_event_def need_def is_op_unique\<close>)
qed

lemma exp1_fold:
  "list_all wf_event evs \<Longrightarrow> \<exists>acc. fold_res exp1_line evs exp1_acc_init = Inr acc \<and> acc_of evs acc"
proof (induction evs rule: rev_induct)
  case Nil
  show ?case by (simp add: exp1_acc_init_def acc_of_def)
next
  case (snoc ev evs)
  then obtain acc where "fold_res exp1_line evs exp1_acc_init = Inr acc" "acc_of evs acc" by auto
  with snoc.prems exp1_line_step [of evs acc ev] show ?case by (auto simp: fold_res_append)
qed

lemma exp1_counts:
  assumes "list_all wf_event (events_of h)"
  shows "\<exists>st. exp1_analyze h = Inr st \<and>
     submitted st = card (ids_of ''submit'' (events_of h)) \<and> completed st = card (ids_of ''complete'' (events_of h)) \<and>
     timed_out st = card (ids_of ''timeout'' (events_of h)) \<and>
     lost st = max 0 (int (submitted st) - int (completed st) - int (timed_out st))"
proof -
  from exp1_fold [OF assms] obtain acc where
    "fold_res exp1_line (events_of h) exp1_acc_init = Inr acc" and acc: "acc_of (events_of h) acc" by blast
  moreover have "length (x_submits acc) = card (ids_of ''submit'' (events_of h))"
    "length (x_completes acc) = card (ids_of ''complete'' (events_of h))"
    using acc distinct_card [of "map fst (x_submits acc)"] distinct_card [of "map fst (x_completes acc)"]
    by (auto simp: acc_of_def)
  ultimately show ?thesis
    using acc by (simp add: exp1_analyze_def exp1_summary_def Let_def acc_of_def)
qed

section \<open>Histories of concurrent task threads\<close>

type_synonym task_start = "submit_services \<times> tasks_db \<times> world"

definition start_tid :: "task_start \<Rightarrow> py_str" where
  "start_tid st = (case st of (sv, db, w) \<Rightarrow> thread_tid sv w)"

definition task_trace :: "bench_config \<Rightarrow> run_params \<Rightarrow> task_start \<Rightarrow> hist_event list" where
  "task_trace cfg params st =
     (case st of (sv, db, w) \<Rightarrow> (case task_thread sv db cfg params w of None \<Rightarrow> [] | Some h \<Rightarrow> events_of h))"

definition recorded :: "py_str \<Rightarrow> hist_event list \<Rightarrow> bool" where
  "recorded op evs \<longleftrightarrow> list_ex (is_op op) evs"

text \<open>Events of the other threads (chaos, leader tracker, run markers).\<close>

definition other_event :: "hist_event \<Rightarrow> bool" where
  "other_event ev \<longleftrightarrow>
     \<not> is_op ''submit'' ev \<and> \<not> is_op ''complete'' ev \<and> \<not> is_op ''timeout'' ev \<and>
     (is_op ''leader_observed'' ev \<longrightarrow> e_node_id ev \<noteq> None)"

lemma task_trace_shape:
  assumes "0 < rp_poll_interval_s params"
  shows "\<exists>f. thread_shape (start_tid st) f (task_trace cfg params st)"
proof -
  obtain sv db w where st: "st = (sv, db, w)" by (cases st)
  from task_thread_shape [OF assms, of sv db cfg w] show ?thesis
    by (auto simp: task_trace_def start_tid_def st)
qed

lemma shape_facts:
  assumes "thread_shape tid f evs"
  shows "\<forall>ev \<in> set evs. wf_event ev"
    and "\<forall>ev \<in> set evs. is_op op ev \<longrightarrow> op \<in> {''submit'', ''complete'', ''timeout''} \<longrightarrow> e_task_id ev = Some tid"
    and "recorded ''complete'' evs \<longrightarrow> recorded ''submit'' evs \<and> \<not> recorded ''timeout'' evs"
    and "recorded ''timeout'' evs \<longrightarrow> recorded ''submit'' evs"
  using assms
  by (auto simp: thread_shape_def wf_event_def recorded_def is_op_unique split: fate.splits)

lemma card_image_filter:
  "distinct (map f xs) \<Longrightarrow> card (f ` {x \<in> set xs. P x}) = length (filter P xs)"
  using distinct_card [of "map f (filter P xs)"] by (simp add: distinct_map_filter)

lemma filter_partition3:
  "(\<And>x. x \<in> set xs \<Longrightarrow> (C x \<longrightarrow> S x \<and> \<not> T x) \<and> (T x \<longrightarrow> S x)) \<Longrightarrow>
   length (filter S xs) = length (filter C xs) + length (filter T xs) + length (filter (\<lambda>x. S x \<and> \<not> C x \<and> \<not> T x) xs)"
  by (induction xs) auto

lemma ids_of_run:
  assumes "0 < rp_poll_interval_s params" "op \<in> {''submit'', ''complete'', ''timeout''}"
    and inter: "interleaved (map (task_trace cfg params) starts @ others) evs"
    and others: "list_all (list_all other_event) others"
  shows "ids_of op evs = start_tid ` {st \<in> set starts. recorded op (task_trace cfg params st)}"
proof -
  have set_evs: "set evs = (\<Union>st \<in> set starts. set (task_trace cfg params st)) \<union> (\<Union>t \<in> set others. set t)"
    using interleaved_set [OF inter] by auto
  have tids: "e_task_id ev = Some (start_tid st)" if "ev \<in> set (task_trace cfg params st)" "is_op op ev" for st ev
    using task_trace_shape [OF assms(1), of st cfg] shape_facts(2) that assms(2) by blast
  have "\<not> is_op op ev" if "ev \<in> set t" "t \<in> set others" for ev t
    using that others assms(2) by (auto simp: list_all_iff other_event_def)
  with tids show ?thesis
    by (auto simp: ids_of_def set_evs recorded_def list_ex_iff)
qed

lemma wf_run:
  assumes "0 < rp_poll_interval_s params"
    and inter: "interleaved (map (task_trace cfg params) starts @ others) evs"
    and others: "list_all (list_all other_event) others"
  shows "list_all wf_event evs"
proof -
  have "wf_event ev" if "ev \<in> set (task_trace cfg params st)" for st ev
    using task_trace_shape [OF assms(1), of st cfg] shape_facts(1) that by blast
  moreover have "wf_event ev" if "ev \<in> set t" "t \<in> set others" for ev t
    using that others by (auto simp: list_all_iff other_event_def wf_event_def)
  ultimately show ?thesis using interleaved_set [OF inter] by (auto simp: list_all_iff)
qed

section \<open>Convergence lemmas\<close>

lemma find_first_later:
  fixes evs :: "(int \<times> py_str) list"
  assumes "sorted (map fst evs)"
  shows "convergence_of evs k =
     (if \<exists>t \<in> fst ` set evs. k < t
      then Some (real_of_int (Min {t \<in> fst ` set evs. k < t} - k) / 1000000) else None)"
  using assms
proof (induction evs)
  case (Cons e evs)
  obtain ts nid where e: "e = (ts, nid)" by fastforce
  show ?case
  proof (cases "k < ts")
    case True
    have "{t \<in> fst ` set (e # evs). k < t} = insert ts {t \<in> fst ` set evs. k < t}" using True e by auto
    moreover have "\<forall>t \<in> fst ` set evs. ts \<le> t" using Cons.prems e by auto
    ultimately have "Min {t \<in> fst ` set (e # evs). k < t} = ts"
      by (intro Min_eqI) (auto intro: finite_subset [of _ "fst ` set (e # evs)"])
    with True e show ?thesis by (auto simp: convergence_of_def)
  next
    case False
    with Cons e show ?thesis by (auto simp: convergence_of_def cong: conj_cong intro: arg_cong [where f = Min])
  qed
qed (simp add: convergence_of_def)

lemma map_filter_if: "List.map_filter (\<lambda>x. if P x then Some (f x) else None) xs = map f (filter P xs)"
  by (induction xs) (auto simp: map_filter_simps)

definition leader_times :: "hist_event list \<Rightarrow> int list" where
  "leader_times evs = map (\<lambda>ev. get_or (e_wall_ns ev) 0) (filter (is_op ''leader_observed'') evs)"

definition kill_times :: "hist_event list \<Rightarrow> int list" where
  "kill_times evs = map (\<lambda>ev. get_or (e_killed_ns ev) (get_or (e_wall_ns ev) 0)) (filter (is_op ''chaos.kill_leader'') evs)"

text \<open>The specification of a sample: the distance to the least leader observation after the kill.\<close>

definition expected_samples :: "int set \<Rightarrow> int list \<Rightarrow> real list" where
  "expected_samples seen kills =
     map (\<lambda>k. real_of_int (Min {t \<in> seen. k < t} - k) / 1000000) (filter (\<lambda>k. \<exists>t \<in> seen. k < t) kills)"

lemma convergence_ms_eq:
  "sorted (map fst evs) \<Longrightarrow> convergence_ms kills evs = expected_samples (set (map fst evs)) kills"
  unfolding convergence_ms_def expected_samples_def set_map map_filter_if [symmetric] using find_first_later [of evs] by presburger

lemma exp1_pct_order:
  assumes "xs \<noteq> []"
  shows "Min (set xs) \<le> exp1_pct xs 50 \<and> exp1_pct xs 50 \<le> exp1_pct xs 95 \<and>
    exp1_pct xs 95 \<le> Max (set xs) \<and> exp1_pct xs 50 \<in> set xs \<and> exp1_pct xs 95 \<in> set xs"
  using assms rounding.percentile_mono [OF assms, of 50 95] rounding.percentile_mem [OF assms] by (simp add: exp1_pct_def)

section \<open>Histories of concurrent task threads\<close>

text \<open>
  Task accounting of experiment 1.  Let any number of tasks, with distinct ids, be submitted and
  polled concurrently against any answers of the services, and let their events interleave in any
  way with those of the chaos and tracker threads.  The analysis of the resulting history succeeds;
  it counts as submitted, completed and timed out exactly the tasks that were, and as lost exactly
  the submitted tasks whose polling died from an exception: a lost task is one the client stopped
  observing, not one the cluster is known to have dropped.
\<close>

lemma exp1_accounting:
  fixes starts :: "task_start list"
  assumes "0 < rp_poll_interval_s params" "distinct (map start_tid starts)"
    and "interleaved (map (task_trace cfg params) starts @ others) (events_of h)"
    and "list_all (list_all other_event) others"
  shows "\<exists>st. exp1_analyze h = Inr st \<and>
     submitted st = length (filter (\<lambda>s. recorded ''submit'' (task_trace cfg params s)) starts) \<and>
     completed st = length (filter (\<lambda>s. recorded ''complete'' (task_trace cfg params s)) starts) \<and>
     timed_out st = length (filter (\<lambda>s. recorded ''timeout'' (task_trace cfg params s)) starts) \<and>
     lost st = int (length (filter (\<lambda>s. recorded ''submit'' (task_trace cfg params s) \<and>
       \<not> recorded ''complete'' (task_trace cfg params s) \<and> \<not> recorded ''timeout'' (task_trace cfg params s)) starts))"
proof -
  have cards: "card (ids_of op (events_of h)) = length (filter (\<lambda>s. recorded op (task_trace cfg params s)) starts)"
    if "op \<in> {''submit'', ''complete'', ''timeout''}" for op
    using ids_of_run [OF assms(1) that assms(3,4)] card_image_filter [OF assms(2)] by simp
  have "length (filter (\<lambda>s. recorded ''submit'' (task_trace cfg params s)) starts) =
      length (filter (\<lambda>s. recorded ''complete'' (task_trace cfg params s)) starts) +
      length (filter (\<lambda>s. recorded ''timeout'' (task_trace cfg params s)) starts) +
      length (filter (\<lambda>s. recorded ''submit'' (task_trace cfg params s) \<and>
        \<not> recorded ''complete'' (task_trace cfg params s) \<and> \<not> recorded ''timeout'' (task_trace cfg params s)) starts)"
    using task_trace_shape [OF assms(1)] shape_facts(3,4) by (intro filter_partition3) blast
  with exp1_counts [OF wf_run [OF assms(1,3,4)]] cards show ?thesis by auto
qed

definition demo_done_db :: tasks_db where
  "demo_done_db k tid = Inr (Some [(''status'', [(''S'', ''COMPLETED'')])])"

definition demo_start :: task_start where
  "demo_start = (demo_submit_services, demo_done_db, \<lparr>w_ns = 0, w_k = 0, w_delay = (\<lambda>_. 1)\<rparr>)"

lemma demo_trace:
  "recorded op (task_trace cfg demo_params demo_start) \<longleftrightarrow> op = ''submit'' \<or> op = ''complete''"
  by (simp add: task_trace_def demo_start_def task_thread_def do_submit_def submit_def issue_eq call_def Let_def
      now_ns_def record_event_eq demo_submit_services_def demo_params_def poll_to_completion_def now_def
      deadline_loop_unfold poll_body_eq poll_status_def demo_done_db_def row_status_def dget_default_def is_terminal_def
      secs_def tick_def recorded_def complete_event_def submit_event_def)

text \<open>
  Convergence statistics.  For a history whose leader observations are in time order, the sample of a
  kill is the time to the earliest leader observation after it (of any node), kills without one give
  no sample, and the figures are those of the samples.
\<close>

lemma exp1_convergence:
  assumes "list_all wf_event (events_of h)" "sorted (leader_times (events_of h))"
  shows "let samples = expected_samples (set (leader_times (events_of h))) (kill_times (events_of h))
     in \<exists>st. exp1_analyze h = Inr st \<and> kill_count st = length (kill_times (events_of h)) \<and>
        convergence_samples st = length samples \<and> convergence_p50_ms st = exp1_pct samples 50 \<and>
        convergence_p95_ms st = exp1_pct samples 95 \<and> convergence_mean_ms st = (if samples = [] then 0 else mean samples) \<and>
        convergence_max_ms st = (if samples = [] then 0 else Max (set samples))"
proof -
  from exp1_fold [OF assms(1)] obtain acc where
    acc: "fold_res exp1_line (events_of h) exp1_acc_init = Inr acc" "acc_of (events_of h) acc" by blast
  define samples where "samples = expected_samples (set (leader_times (events_of h))) (kill_times (events_of h))"
  have times: "map fst (x_leader_events acc) = leader_times (events_of h)" and kills: "x_kills acc = kill_times (events_of h)"
    using acc(2) by (simp_all add: acc_of_def comp_def leader_times_def kill_times_def)
  have conv: "convergence_ms (x_kills acc) (x_leader_events acc) = samples"
    using convergence_ms_eq [of "x_leader_events acc" "x_kills acc", unfolded times kills, OF assms(2)]
    by (simp only: samples_def kills)
  have "fold max samples (hd samples) = Max (set samples)" if "samples \<noteq> []" using that by (rule fold_max_Max)
  with acc(1) conv kills show ?thesis
    unfolding Let_def samples_def [symmetric]
    by (intro exI [of _ "exp1_summary acc"]) (simp add: exp1_analyze_def exp1_summary_def Let_def)
qed

end
