(* ===== verification/Leader_Detect.thy ===== *)
theory Leader_Detect
  imports Submitter Raft_Client History
begin

text \<open>
  \<open>chaos-bench/leader_detect.py\<close> and \<open>chaos-bench/leader_tracker.py\<close>: finding the current leader
  from the peers table (with the \<open>/state\<close> fallback) and recording leader changes.  A row of the
  peers table is a record of the attributes the code reads, absent ones being \<open>None\<close>; the scan of
  the table and the HTTP exchange are parameters.
\<close>

section \<open>Rows of the peers table\<close>

record peer_row =
  pr_node_id :: "py_str option"
  pr_http_addr :: "py_str option"
  pr_is_leader :: "bool option"
  pr_heartbeat_ts :: "py_str option"

record peer_services =
  ps_scan :: "nat \<Rightarrow> peer_row list result"
  ps_state :: "nat \<Rightarrow> py_str \<Rightarrow> state_doc option result"

section \<open>leader_detect.py\<close>

record leader_info =
  li_node_id :: py_str
  li_http_addr :: py_str
  li_ecs_service :: py_str
  li_term :: int

definition ecs_service_for :: "py_str \<Rightarrow> py_str list \<Rightarrow> py_str option" where
  "ecs_service_for nid known_services = find (\<lambda>s. endswith s nid) known_services"

text \<open>\<open>if svc:\<close> also rejects an empty service name.\<close>

definition usable_service :: "py_str \<Rightarrow> py_str list \<Rightarrow> py_str option" where
  "usable_service nid known = (case ecs_service_for nid known of None \<Rightarrow> None | Some s \<Rightarrow> if s = [] then None else Some s)"

definition complete_row :: "peer_row \<Rightarrow> (py_str \<times> py_str) option" where
  "complete_row r =
     (case (pr_node_id r, pr_http_addr r) of
        (Some n, Some a) \<Rightarrow> if n = [] \<or> a = [] then None else Some (n, a)
      | _ \<Rightarrow> None)"

fun marked_leader :: "py_str list \<Rightarrow> peer_row list \<Rightarrow> leader_info option" where
  "marked_leader known [] = None"
| "marked_leader known (r # rs) =
     (case complete_row r of
        None \<Rightarrow> marked_leader known rs
      | Some (n, a) \<Rightarrow>
          if get_or (pr_is_leader r) False then
            (case usable_service n known of
               None \<Rightarrow> marked_leader known rs
             | Some svc \<Rightarrow> Some \<lparr>li_node_id = n, li_http_addr = ''http://'' @ a, li_ecs_service = svc, li_term = 0\<rparr>)
          else marked_leader known rs)"

definition fetch_state :: "peer_services \<Rightarrow> py_str \<Rightarrow> world \<Rightarrow> state_doc option result \<times> world" where
  "fetch_state sv http_addr w = call (\<lambda>k. ps_state sv k (http_addr @ ''/state'')) w"

fun polled_leader :: "peer_services \<Rightarrow> py_str list \<Rightarrow> (py_str \<times> py_str) list \<Rightarrow> world \<Rightarrow> leader_info option result \<times> world" where
  "polled_leader sv known [] w = (Inr None, w)"
| "polled_leader sv known ((n, a) # rows) w =
     (let (r, w1) = fetch_state sv (''http://'' @ a) w
      in case r of
           Inl e \<Rightarrow> (Inl e, w1)
         | Inr None \<Rightarrow> polled_leader sv known rows w1
         | Inr (Some doc) \<Rightarrow>
             if d_state doc = Some ''leader'' then
               (case usable_service n known of
                  None \<Rightarrow> polled_leader sv known rows w1
                | Some svc \<Rightarrow>
                    (Inr (Some \<lparr>li_node_id = n, li_http_addr = ''http://'' @ a, li_ecs_service = svc,
                                li_term = get_or (d_current_term doc) 0\<rparr>), w1))
             else polled_leader sv known rows w1)"

definition find_leader :: "peer_services \<Rightarrow> bench_config \<Rightarrow> world \<Rightarrow> leader_info option result \<times> world" where
  "find_leader sv cfg w =
     (let (r, w1) = call (ps_scan sv) w
      in case r of
           Inl e \<Rightarrow> (Inl e, w1)
         | Inr rows \<Rightarrow>
             (case marked_leader (bc_coordinator_services cfg) rows of
                Some li \<Rightarrow> (Inr (Some li), w1)
              | None \<Rightarrow> polled_leader sv (bc_coordinator_services cfg) (List.map_filter complete_row rows) w1))"

section \<open>leader_tracker.py\<close>

definition STALE_HB_S :: real where "STALE_HB_S = 3"

definition fresh_row :: "real \<Rightarrow> peer_row \<Rightarrow> bool" where
  "fresh_row t r =
     (case pr_heartbeat_ts r of
        None \<Rightarrow> True
      | Some v \<Rightarrow> (case int_of_str v of Inl _ \<Rightarrow> False | Inr hb \<Rightarrow> \<not> STALE_HB_S < t - real_of_int hb))"

fun first_fresh_leader :: "real \<Rightarrow> peer_row list \<Rightarrow> py_str option" where
  "first_fresh_leader t [] = None"
| "first_fresh_leader t (r # rs) =
     (if \<not> get_or (pr_is_leader r) False then first_fresh_leader t rs
      else if \<not> fresh_row t r then first_fresh_leader t rs
      else case pr_node_id r of
             None \<Rightarrow> first_fresh_leader t rs
           | Some n \<Rightarrow> if n = [] then first_fresh_leader t rs else Some n)"

definition scan_once :: "peer_services \<Rightarrow> world \<Rightarrow> py_str option \<times> world" where
  "scan_once sv w =
     (let (r, w1) = call (ps_scan sv) w
      in case r of
           Inl e \<Rightarrow> (None, w1)
         | Inr rows \<Rightarrow> let (t, w2) = now w1 in (first_fresh_leader t rows, w2))"

definition change_event :: "py_str option \<Rightarrow> hist_event" where
  "change_event ldr =
     (case ldr of
        Some n \<Rightarrow> (event_of ''leader_observed'')\<lparr>e_node_id := Some n\<rparr>
      | None \<Rightarrow> event_of ''leader_gap'')"

text \<open>One turn of \<open>_run\<close>: \<open>latest\<close> is \<open>last_leader\<close>, \<open>h\<close> the shared history.\<close>

definition tracker_turn :: "peer_services \<Rightarrow> real \<Rightarrow> py_str option \<times> history \<times> world \<Rightarrow> py_str option \<times> history \<times> world" where
  "tracker_turn sv poll_s s =
     (let (latest, h, w) = s;
          (t0, w1) = now w;
          (ldr, w2) = scan_once sv w1;
          (h', w3) = (if ldr \<noteq> latest then record_event (change_event ldr) (h, w2) else (h, w2));
          (t1, w4) = now w3;
          elapsed = t1 - t0
      in (ldr, h', if elapsed < poll_s then sleep (poll_s - elapsed) w4 else w4))"

text \<open>The thread of a tracker: \<open>start\<close> may be called once, also after a \<open>stop\<close>.\<close>

record tracker_handle =
  lt_started :: bool
  lt_stopping :: bool

definition tracker_init :: tracker_handle where
  "tracker_init = \<lparr>lt_started = False, lt_stopping = False\<rparr>"

definition tracker_start :: "tracker_handle \<Rightarrow> tracker_handle result" where
  "tracker_start t = (if lt_started t then Inl (RuntimeError ''already started'') else Inr (t\<lparr>lt_started := True\<rparr>))"

definition tracker_stop :: "tracker_handle \<Rightarrow> tracker_handle" where
  "tracker_stop t = t\<lparr>lt_stopping := True\<rparr>"

lemma tracker_not_restarted:
  "tracker_start t = Inr t' \<Longrightarrow> tracker_start (tracker_stop t') = Inl (RuntimeError ''already started'')"
  by (auto simp: tracker_start_def tracker_stop_def split: if_splits)

text \<open>The run until the stop event, after \<open>n\<close> turns.\<close>

definition tracker_run :: "peer_services \<Rightarrow> real \<Rightarrow> nat \<Rightarrow> world \<Rightarrow> py_str option \<times> history \<times> world" where
  "tracker_run sv poll_s n w = (tracker_turn sv poll_s ^^ n) (None, [], w)"

section \<open>Lemmas\<close>

lemma usable_service_Some: "usable_service n known = Some svc \<Longrightarrow> svc \<in> set known \<and> endswith svc n \<and> svc \<noteq> []"
  by (auto simp: usable_service_def ecs_service_for_def split: option.splits if_splits dest: find_SomeD)

lemma usable_service_None:
  "[] \<notin> set known \<Longrightarrow> usable_service n known = None \<longleftrightarrow> \<not> (\<exists>s \<in> set known. endswith s n)"
  by (auto simp: usable_service_def ecs_service_for_def find_None_set split: option.splits dest: find_SomeD)

lemma marked_leader_Some:
  "marked_leader known rows = Some li \<Longrightarrow>
     (\<exists>r \<in> set rows. complete_row r = Some (li_node_id li, drop 7 (li_http_addr li)) \<and> pr_is_leader r = Some True) \<and>
     usable_service (li_node_id li) known = Some (li_ecs_service li)"
  by (induction rows) (auto simp: get_or_def split: option.splits if_splits prod.splits)

lemma marked_leader_None:
  "marked_leader known rows = None \<longleftrightarrow>
     (\<forall>r n a. r \<in> set rows \<longrightarrow> complete_row r = Some (n, a) \<longrightarrow> pr_is_leader r = Some True \<longrightarrow> usable_service n known = None)"
  by (induction rows) (auto simp: get_or_def split: option.splits)

lemma polled_leader_Some:
  "fst (polled_leader sv known rows w) = Inr (Some li) \<Longrightarrow>
     (\<exists>k doc. ps_state sv k (li_http_addr li @ ''/state'') = Inr (Some doc) \<and> d_state doc = Some ''leader'') \<and>
     (li_node_id li, drop 7 (li_http_addr li)) \<in> set rows \<and>
     usable_service (li_node_id li) known = Some (li_ecs_service li)"
proof (induction rows arbitrary: w)
  case (Cons row rows)
  obtain n a where "row = (n, a)" by fastforce
  with Cons show ?case
    by (auto simp: fetch_state_def call_def Let_def split: sum.splits option.splits if_splits) blast
qed simp

lemma remdups_adj_snoc:
  "xs \<noteq> [] \<Longrightarrow> remdups_adj (xs @ [x]) = remdups_adj xs @ (if x = last xs then [] else [x])"
  by (induction xs rule: remdups_adj.induct) auto

lemma scan_once_time: "w_ns w \<le> w_ns (snd (scan_once sv w))"
proof -
  have "w_ns w \<le> w_ns (tick (tick w))" using w_ns_tick [of w] w_ns_tick [of "tick w"] by linarith
  then show ?thesis by (simp add: scan_once_def call_def now_def Let_def split: sum.split)
qed

lemma polled_leader_time: "secs w \<le> secs (snd (polled_leader sv known rows w))"
proof (induction rows arbitrary: w)
  case (Cons r rows)
  obtain nid addr where r: "r = (nid, addr)" by fastforce
  have "secs w \<le> secs (snd (polled_leader sv known rows (tick w)))"
    using secs_tick [of w] Cons [of "tick w"] by linarith
  then show ?case by (simp add: r fetch_state_def call_def Let_def split: sum.split option.split)
qed simp

lemma find_leader_time: "secs w \<le> secs (snd (find_leader sv cfg w))"
proof -
  have "secs w \<le> secs (snd (polled_leader sv known rows (tick w)))" for known rows
    using secs_tick [of w] polled_leader_time [of "tick w" sv known rows] by linarith
  then show ?thesis by (simp add: find_leader_def call_def Let_def split: sum.split option.split)
qed

definition tracker_scans :: "peer_services \<Rightarrow> real \<Rightarrow> nat \<Rightarrow> world \<Rightarrow> py_str option list" where
  "tracker_scans sv poll_s n w =
     map (\<lambda>i. fst (scan_once sv (tick (snd (snd (tracker_run sv poll_s i w)))))) [0 ..< n]"

definition what :: "hist_event \<Rightarrow> py_str option \<times> py_str option" where
  "what ev = (e_op ev, e_node_id ev)"

definition wall :: "hist_event \<Rightarrow> int" where
  "wall ev = get_or (e_wall_ns ev) 0"

lemma change_event_stamp:
  "what (stamp t (change_event l)) = what (change_event l)" "wall (stamp t (change_event l)) = t"
  by (simp_all add: what_def wall_def stamp_def change_event_def get_or_def split: option.splits)

lemma tracker_turn_eq:
  "tracker_turn sv poll_s (latest, h, w) =
     (let ldr = fst (scan_once sv (tick w)); w2 = snd (scan_once sv (tick w));
          h' = (if ldr = latest then h else h @ [EventLine (stamp (int (w_ns (tick w2))) (change_event ldr))]);
          w4 = tick (if ldr = latest then w2 else tick w2)
      in (ldr, h', if secs w4 - secs (tick w) < poll_s then sleep (poll_s - (secs w4 - secs (tick w))) w4 else w4))"
  by (simp add: tracker_turn_def now_def record_event_eq Let_def case_prod_beta)

lemma sleep_ns: "w_ns w \<le> w_ns (sleep d w)"
  by (simp add: sleep_def Let_def tick_def)

lemma tracker_run_ok:
  "let (latest, h, v) = tracker_run sv poll_s n w; scans = tracker_scans sv poll_s n w
   in latest = last (None # scans) \<and>
      map what (events_of h) = map (what \<circ> change_event) (tl (remdups_adj (None # scans))) \<and>
      sorted (map wall (events_of h)) \<and> list_all (\<lambda>ev. wall ev \<le> int (w_ns v)) (events_of h)"
proof (induction n)
  case 0
  show ?case by (simp add: tracker_run_def tracker_scans_def)
next
  case (Suc n)
  obtain latest h v where run: "tracker_run sv poll_s n w = (latest, h, v)" by (metis prod.exhaust)
  let ?l = "fst (scan_once sv (tick v))" and ?w2 = "snd (scan_once sv (tick v))"
  let ?scans = "tracker_scans sv poll_s n w"
  have scans: "tracker_scans sv poll_s (Suc n) w = ?scans @ [?l]" by (simp add: tracker_scans_def run)
  have IH: "latest = last (None # ?scans)" "map what (events_of h) = map (what \<circ> change_event) (tl (remdups_adj (None # ?scans)))"
    "sorted (map wall (events_of h))" "\<forall>ev \<in> set (events_of h). wall ev \<le> int (w_ns v)"
    using Suc by (simp_all add: run Let_def list_all_iff)
  have ch: "tl (remdups_adj (None # ?scans @ [?l])) = tl (remdups_adj (None # ?scans)) @ (if ?l = latest then [] else [?l])"
    using remdups_adj_snoc [of "None # ?scans" ?l] IH(1) by (cases "remdups_adj (None # ?scans)") auto
  have t2: "w_ns v \<le> w_ns ?w2" using scan_once_time [of "tick v" sv] w_ns_tick [of v] by linarith
  obtain h' v' where step: "tracker_run sv poll_s (Suc n) w = (?l, h', v')"
    and h': "h' = (if ?l = latest then h else h @ [EventLine (stamp (int (w_ns (tick ?w2))) (change_event ?l))])"
    and v': "w_ns (tick (if ?l = latest then ?w2 else tick ?w2)) \<le> w_ns v'"
    using sleep_ns by (simp add: tracker_run_def run [unfolded tracker_run_def] tracker_turn_eq Let_def)
  have v2: "w_ns (tick ?w2) \<le> w_ns v'" "w_ns ?w2 \<le> w_ns v'"
    using v' by (auto split: if_splits intro: order_trans [OF w_ns_tick])
  have old: "\<forall>ev \<in> set (events_of h). wall ev \<le> int (w_ns (tick ?w2)) \<and> wall ev \<le> int (w_ns v')"
  proof
    fix ev assume "ev \<in> set (events_of h)"
    with IH(4) have "wall ev \<le> int (w_ns v)" by blast
    with t2 v2(2) w_ns_tick [of ?w2] show "wall ev \<le> int (w_ns (tick ?w2)) \<and> wall ev \<le> int (w_ns v')" by linarith
  qed
  have "map what (events_of h') = map (what \<circ> change_event) (tl (remdups_adj (None # ?scans @ [?l])))"
    unfolding ch using IH(2) by (simp add: h' change_event_stamp)
  moreover have "sorted (map wall (events_of h'))"
    using IH(3) old by (auto simp: h' sorted_append change_event_stamp)
  moreover have "\<forall>ev \<in> set (events_of h'). wall ev \<le> int (w_ns v')"
    using old v2(1) by (auto simp: h' change_event_stamp)
  ultimately show ?case by (simp add: step scans Let_def list_all_iff)
qed

section \<open>Properties\<close>

text \<open>
  Finding the leader.  When the scan of the peers table fails, so does \<open>find_leader\<close>.  A leader it
  reports is a row with an id and an address, mapped to a configured service that ends with the
  node id, and either the row is marked as leader or no marked row has a service and the node
  itself answered that it is leader.  \<open>None\<close> means that no marked row has a service.
\<close>

theorem find_leader_correct:
  "case ps_scan sv (w_k w) of
     Inl e \<Rightarrow> fst (find_leader sv cfg w) = Inl e
   | Inr rows \<Rightarrow>
       (case fst (find_leader sv cfg w) of
          Inl e \<Rightarrow> marked_leader (bc_coordinator_services cfg) rows = None
        | Inr None \<Rightarrow> {usable_service n (bc_coordinator_services cfg) | r n a.
            r \<in> set rows \<and> complete_row r = Some (n, a) \<and> pr_is_leader r = Some True} \<subseteq> {None}
        | Inr (Some li) \<Rightarrow>
            li_ecs_service li \<in> set (bc_coordinator_services cfg) \<and> endswith (li_ecs_service li) (li_node_id li) \<and>
            (\<exists>r \<in> set rows. complete_row r = Some (li_node_id li, drop 7 (li_http_addr li)) \<and>
               (pr_is_leader r = Some True \<or>
                marked_leader (bc_coordinator_services cfg) rows = None \<and>
                (\<exists>k doc. ps_state sv k (li_http_addr li @ ''/state'') = Inr (Some doc) \<and> d_state doc = Some ''leader''))))"
proof (cases "ps_scan sv (w_k w)")
  case (Inl e)
  then show ?thesis by (simp add: find_leader_def call_def)
next
  case (Inr rows)
  let ?known = "bc_coordinator_services cfg" and ?rows = "List.map_filter complete_row rows"
  show ?thesis
  proof (cases "marked_leader ?known rows")
    case (Some li)
    with Inr marked_leader_Some [OF Some] usable_service_Some [of "li_node_id li" ?known "li_ecs_service li"]
    show ?thesis by (auto simp: find_leader_def call_def)
  next
    case None
    have fl: "fst (find_leader sv cfg w) = fst (polled_leader sv ?known ?rows (tick w))"
      using Inr None by (simp add: find_leader_def call_def)
    show ?thesis
    proof (cases "fst (polled_leader sv ?known ?rows (tick w))")
      case (Inl e)
      with Inr fl None show ?thesis by simp
    next
      case poll: (Inr res)
      show ?thesis
      proof (cases res)
        case none: None
        have "fst (find_leader sv cfg w) = Inr None" using fl poll none by simp
        with Inr None [unfolded marked_leader_None] show ?thesis by auto
      next
        case (Some li)
        have fl': "fst (find_leader sv cfg w) = Inr (Some li)" using fl poll Some by simp
        from polled_leader_Some [of sv ?known ?rows "tick w" li] poll Some
        have p: "\<exists>k doc. ps_state sv k (li_http_addr li @ ''/state'') = Inr (Some doc) \<and> d_state doc = Some ''leader''"
          "(li_node_id li, drop 7 (li_http_addr li)) \<in> set ?rows"
          "usable_service (li_node_id li) ?known = Some (li_ecs_service li)" by auto
        from p(2) obtain r where "r \<in> set rows" "complete_row r = Some (li_node_id li, drop 7 (li_http_addr li))"
          by (auto simp: map_filter_def)
        with p(1) None usable_service_Some [OF p(3)] show ?thesis
          unfolding Inr fl' by (simp, blast)
      qed
    qed
  qed
qed

text \<open>
  The tracker records exactly the changes.  After any number of turns, the events it wrote are,
  in order, one for each scan whose result differs from the scan before (starting from no
  leader), naming the new leader or the gap; its memory is the latest scan; and its timestamps
  do not decrease, which is what the convergence analysis relies on.
\<close>

theorem tracker_records_changes:
  "let (latest, h, v) = tracker_run sv poll_s n w; scans = tracker_scans sv poll_s n w
   in latest = last (None # scans) \<and>
      map what (events_of h) = map (what \<circ> change_event) (tl (remdups_adj (None # scans))) \<and>
      sorted (map wall (events_of h))"
  using tracker_run_ok [of sv poll_s n w] by (auto simp: Let_def)

text \<open>
  \<open>find_leader\<close> does not look at heartbeats, the tracker does.  Changing the heartbeats of the
  rows never changes what \<open>find_leader\<close> picks from the marked rows, and there are rows, a dead
  leader still marked beside its successor, on which it reports the dead node while the tracker
  reports the successor.
\<close>

theorem find_leader_ignores_heartbeat:
  "marked_leader known (map (\<lambda>r. r\<lparr>pr_heartbeat_ts := f r\<rparr>) rows) = marked_leader known rows \<and>
   (\<exists>sv w. map_option li_node_id (projr (fst (find_leader sv (demo_bench_config\<lparr>bc_coordinator_services := [''s-a'', ''s-b'']\<rparr>) w)))
        = Some ''a'' \<and> fst (scan_once sv w) = Some ''b'')"
proof
  show "marked_leader known (map (\<lambda>r. r\<lparr>pr_heartbeat_ts := f r\<rparr>) rows) = marked_leader known rows"
    by (induction rows) (auto simp: complete_row_def split: option.splits)
  define row :: "py_str \<Rightarrow> py_str \<Rightarrow> peer_row" where
    "row n hb = \<lparr>pr_node_id = Some n, pr_http_addr = Some ''10.0.0.1:8080'', pr_is_leader = Some True, pr_heartbeat_ts = Some hb\<rparr>" for n hb
  let ?sv = "\<lparr>ps_scan = (\<lambda>_. Inr [row ''a'' ''80'', row ''b'' ''99'']), ps_state = (\<lambda>_ _. Inr None)\<rparr>"
  let ?w = "\<lparr>w_ns = 100000000000, w_k = 0, w_delay = (\<lambda>_. 0)\<rparr>"
  have num: "int_of_str ''80'' = Inr 80" "int_of_str ''99'' = Inr 99"
    by (simp_all add: int_of_str_def strip_def is_space_def unsigned_of_str_def is_digit_def nat_of_digits_def digit_val_def)
  show "\<exists>sv w. map_option li_node_id (projr (fst (find_leader sv (demo_bench_config\<lparr>bc_coordinator_services := [''s-a'', ''s-b'']\<rparr>) w)))
        = Some ''a'' \<and> fst (scan_once sv w) = Some ''b''"
    by (rule exI [of _ ?sv], rule exI [of _ ?w])
      (simp add: row_def find_leader_def scan_once_def call_def now_def tick_def secs_def Let_def complete_row_def get_or_def
        usable_service_def ecs_service_for_def endswith_def fresh_row_def STALE_HB_S_def num)
qed

end
