(* ===== verification/Chaos.thy ===== *)
theory Chaos
  imports Leader_Detect Bench
begin

text \<open>
  \<open>chaos-bench/chaos.py\<close> (fault injection), \<open>cmd_chaos\<close> of \<open>chaos-bench/main.py\<close> and the injection
  loops of \<open>exp1.py\<close> and \<open>exp3.py\<close>.  The state keeps the log of StopTask calls that succeeded, the
  history and the world; what ECS, SQS and the peers table answer, and the random choices, are
  parameters.
\<close>

section \<open>State and services\<close>

record kill_result =
  kr_service :: py_str
  kr_task_arn :: py_str
  kr_killed_ns :: int

datatype visibility_answer = VisOk | VisClientError py_str | VisOther py_error

record chaos_services =
  cs_peers :: peer_services
  cs_list_tasks :: "nat \<Rightarrow> py_str \<Rightarrow> py_str list result"
  cs_stop_task :: "nat \<Rightarrow> py_str \<Rightarrow> py_error option"
  cs_random :: "nat \<Rightarrow> nat"
  cs_receive :: "nat \<Rightarrow> int \<Rightarrow> py_str list result"
  cs_visibility :: "nat \<Rightarrow> py_str \<Rightarrow> visibility_answer"

record chaos_env =
  stopped :: "(py_str \<times> py_str \<times> py_str) list"
  ch_hist :: history
  ch_world :: world

text \<open>\<open>random.choice(xs)\<close> of a non-empty list.\<close>

definition choice :: "chaos_services \<Rightarrow> 'a list \<Rightarrow> world \<Rightarrow> 'a \<times> world" where
  "choice sv xs w = (xs ! (cs_random sv (w_k w) mod length xs), tick w)"

section \<open>ChaosInjector\<close>

definition running_tasks :: "chaos_services \<Rightarrow> py_str \<Rightarrow> world \<Rightarrow> py_str list result \<times> world" where
  "running_tasks sv service w = call (\<lambda>k. cs_list_tasks sv k service) w"

definition stop_random_task ::
  "chaos_services \<Rightarrow> py_str \<Rightarrow> py_str \<Rightarrow> chaos_env \<Rightarrow> kill_result option result \<times> chaos_env" where
  "stop_random_task sv service reason s =
     (let (r, w1) = running_tasks sv service (ch_world s)
      in case r of
           Inl e \<Rightarrow> (Inl e, s\<lparr>ch_world := w1\<rparr>)
         | Inr arns \<Rightarrow>
             if arns = [] then (Inr None, s\<lparr>ch_world := w1\<rparr>)
             else
               let (victim, w2) = choice sv arns w1;
                   (ans, w3) = call (\<lambda>k. cs_stop_task sv k victim) w2
               in case ans of
                    Some e \<Rightarrow> (Inl e, s\<lparr>ch_world := w3\<rparr>)
                  | None \<Rightarrow>
                      let (t, w4) = now_ns w3
                      in (Inr (Some \<lparr>kr_service = service, kr_task_arn = victim, kr_killed_ns = t\<rparr>),
                          s\<lparr>stopped := stopped s @ [(service, victim, reason)], ch_world := w4\<rparr>))"

definition kill_leader :: "chaos_services \<Rightarrow> py_str \<Rightarrow> chaos_env \<Rightarrow> kill_result option result \<times> chaos_env" where
  "kill_leader sv leader_service s = stop_random_task sv leader_service ''chaos: leader kill'' s"

definition kill_follower :: "chaos_services \<Rightarrow> py_str list \<Rightarrow> chaos_env \<Rightarrow> kill_result option result \<times> chaos_env" where
  "kill_follower sv non_leader_services s =
     (if non_leader_services = [] then (Inr None, s)
      else let (svc, w1) = choice sv non_leader_services (ch_world s)
           in stop_random_task sv svc ''chaos: follower kill'' (s\<lparr>ch_world := w1\<rparr>))"

definition kill_worker :: "chaos_services \<Rightarrow> bench_config \<Rightarrow> chaos_env \<Rightarrow> kill_result option result \<times> chaos_env" where
  "kill_worker sv cfg s = stop_random_task sv (bc_worker_service cfg) ''chaos: worker kill'' s"

fun redeliver :: "chaos_services \<Rightarrow> py_str list \<Rightarrow> nat \<Rightarrow> world \<Rightarrow> nat result \<times> world" where
  "redeliver sv [] n w = (Inr n, w)"
| "redeliver sv (handle # hs) n w =
     (let (ans, w1) = call (\<lambda>k. cs_visibility sv k handle) w
      in case ans of
           VisOk \<Rightarrow> redeliver sv hs (n + 1) w1
         | VisClientError code \<Rightarrow>
             if code = ''InvalidParameterValue'' \<or> code = ''ReceiptHandleIsInvalid'' then redeliver sv hs n w1
             else (Inl (ServiceError code), w1)
         | VisOther e \<Rightarrow> (Inl e, w1))"

definition inject_sqs_redelivery :: "chaos_services \<Rightarrow> int \<Rightarrow> chaos_env \<Rightarrow> nat result \<times> chaos_env" where
  "inject_sqs_redelivery sv cnt s =
     (let (r, w1) = call (\<lambda>k. cs_receive sv k (min cnt 10)) (ch_world s)
      in case r of
           Inl e \<Rightarrow> (Inl e, s\<lparr>ch_world := w1\<rparr>)
         | Inr msgs \<Rightarrow> let (res, w2) = redeliver sv msgs 0 w1 in (res, s\<lparr>ch_world := w2\<rparr>))"

section \<open>The chaos command\<close>

text \<open>The command's exit code, or the exception that ends it.\<close>

definition cmd_chaos ::
  "chaos_services \<Rightarrow> bench_config \<Rightarrow> py_str \<Rightarrow> py_str option \<Rightarrow> chaos_env \<Rightarrow> int result \<times> chaos_env" where
  "cmd_chaos sv cfg target leader_arg s =
     (let leader_service = get_or leader_arg [];
          detect = (target = ''kill_leader'' \<or> target = ''kill_follower'') \<and> leader_service = [];
          (found, w1) = (if detect then find_leader (cs_peers sv) cfg (ch_world s) else (Inr None, ch_world s));
          s1 = s\<lparr>ch_world := w1\<rparr>
      in case found of
           Inl e \<Rightarrow> (Inl e, s1)
         | Inr info \<Rightarrow>
             if detect \<and> info = None then (Inr 3, s1)
             else
               let svc = (case info of None \<Rightarrow> leader_service | Some li \<Rightarrow> li_ecs_service li)
               in if target = ''kill_leader'' then
                    let (r, s2) = kill_leader sv svc s1 in (bind_res r (\<lambda>_. Inr 0), s2)
                  else if target = ''kill_follower'' then
                    let (r, s2) = kill_follower sv (filter (\<lambda>x. x \<noteq> svc) (bc_coordinator_services cfg)) s1
                    in (bind_res r (\<lambda>_. Inr 0), s2)
                  else if target = ''kill_worker'' then
                    let (r, s2) = kill_worker sv cfg s1 in (bind_res r (\<lambda>_. Inr 0), s2)
                  else (Inr 2, s1))"

section \<open>Injection loops\<close>

definition record_ch :: "hist_event \<Rightarrow> chaos_env \<Rightarrow> chaos_env" where
  "record_ch ev s = (let (h, w) = record_event ev (ch_hist s, ch_world s) in s\<lparr>ch_hist := h, ch_world := w\<rparr>)"

definition skip_event :: "(py_str, py_str) pydict \<Rightarrow> hist_event" where
  "skip_event info = (event_of ''chaos.skip'')\<lparr>e_info := info\<rparr>"

definition kill_leader_event :: "kill_result \<Rightarrow> leader_info \<Rightarrow> hist_event" where
  "kill_leader_event res info =
     (event_of ''chaos.kill_leader'')\<lparr>e_killed_ns := Some (kr_killed_ns res),
       e_info := [(''service'', kr_service res), (''task_arn'', kr_task_arn res), (''leader_node_id'', li_node_id info)]\<rparr>"

definition kill_follower_event :: "kill_result \<Rightarrow> hist_event" where
  "kill_follower_event res =
     (event_of ''chaos.kill_follower'')\<lparr>e_killed_ns := Some (kr_killed_ns res),
       e_info := [(''service'', kr_service res), (''task_arn'', kr_task_arn res)]\<rparr>"

definition chaos_error_event :: "py_str \<Rightarrow> py_error \<Rightarrow> hist_event" where
  "chaos_error_event fault e = (event_of ''chaos.error'')\<lparr>e_info := [(''fault'', fault), (''err'', error_text e)]\<rparr>"

text \<open>
  One turn of \<open>_kill_loop\<close> of \<open>exp1.py\<close>; an exception ends the thread.
\<close>

definition exp1_kill_turn :: "chaos_services \<Rightarrow> bench_config \<Rightarrow> chaos_env \<Rightarrow> unit result \<times> chaos_env" where
  "exp1_kill_turn sv cfg s =
     (let (found, w1) = find_leader (cs_peers sv) cfg (ch_world s);
          s1 = s\<lparr>ch_world := w1\<rparr>
      in case found of
           Inl e \<Rightarrow> (Inl e, s1)
         | Inr None \<Rightarrow> (Inr (), record_ch (skip_event [(''reason'', ''no leader detected'')]) s1)
         | Inr (Some info) \<Rightarrow>
             let (r, s2) = kill_leader sv (li_ecs_service info) s1
             in case r of
                  Inl e \<Rightarrow> (Inl e, s2)
                | Inr None \<Rightarrow> (Inr (), record_ch (skip_event [(''reason'', ''no running task''), (''service'', li_ecs_service info)]) s2)
                | Inr (Some res) \<Rightarrow> (Inr (), record_ch (kill_leader_event res info) s2))"

text \<open>One turn of \<open>_kill_leader_loop\<close> of \<open>exp3.py\<close>; an exception is recorded.\<close>

definition exp3_kill_leader_turn :: "chaos_services \<Rightarrow> bench_config \<Rightarrow> chaos_env \<Rightarrow> chaos_env" where
  "exp3_kill_leader_turn sv cfg s =
     (let (found, w1) = find_leader (cs_peers sv) cfg (ch_world s);
          s1 = s\<lparr>ch_world := w1\<rparr>
      in case found of
           Inl e \<Rightarrow> record_ch (chaos_error_event ''kill_leader'' e) s1
         | Inr None \<Rightarrow> record_ch (skip_event [(''fault'', ''kill_leader''), (''reason'', ''no leader detected'')]) s1
         | Inr (Some info) \<Rightarrow>
             let (r, s2) = kill_leader sv (li_ecs_service info) s1
             in case r of
                  Inl e \<Rightarrow> record_ch (chaos_error_event ''kill_leader'' e) s2
                | Inr None \<Rightarrow> record_ch (skip_event [(''fault'', ''kill_leader''), (''reason'', ''no running task'')]) s2
                | Inr (Some res) \<Rightarrow> record_ch (kill_leader_event res info) s2)"

definition exp3_kill_follower_turn :: "chaos_services \<Rightarrow> bench_config \<Rightarrow> chaos_env \<Rightarrow> chaos_env" where
  "exp3_kill_follower_turn sv cfg s =
     (let (found, w1) = find_leader (cs_peers sv) cfg (ch_world s);
          s1 = s\<lparr>ch_world := w1\<rparr>
      in case found of
           Inl e \<Rightarrow> record_ch (chaos_error_event ''kill_follower'' e) s1
         | Inr None \<Rightarrow> record_ch (skip_event [(''fault'', ''kill_follower''), (''reason'', ''no leader detected'')]) s1
         | Inr (Some info) \<Rightarrow>
             let (r, s2) = kill_follower sv (filter (\<lambda>x. x \<noteq> li_ecs_service info) (bc_coordinator_services cfg)) s1
             in case r of
                  Inl e \<Rightarrow> record_ch (chaos_error_event ''kill_follower'' e) s2
                | Inr None \<Rightarrow> record_ch (skip_event [(''fault'', ''kill_follower''), (''reason'', ''no follower tasks'')]) s2
                | Inr (Some res) \<Rightarrow> record_ch (kill_follower_event res) s2)"

definition exp3_redeliver_turn :: "chaos_services \<Rightarrow> bench_config \<Rightarrow> chaos_env \<Rightarrow> chaos_env" where
  "exp3_redeliver_turn sv cfg s =
     (let (r, s1) = inject_sqs_redelivery sv 5 s
      in case r of
           Inl e \<Rightarrow> record_ch (chaos_error_event ''sqs_redeliver'' e) s1
         | Inr n \<Rightarrow> record_ch ((event_of ''chaos.sqs_redeliver'')\<lparr>e_redelivered := Some (int n),
               e_info := [(''queue'', bc_ingest_queue_url cfg)]\<rparr>) s1)"

text \<open>
  A loop waits its offset, then takes a turn every period until the stop event; \<open>n\<close> is the number
  of turns before that.
\<close>

definition chaos_loop :: "(chaos_env \<Rightarrow> chaos_env) \<Rightarrow> real \<Rightarrow> real \<Rightarrow> nat \<Rightarrow> chaos_env \<Rightarrow> chaos_env" where
  "chaos_loop turn offset period n s =
     ((\<lambda>s. let s' = turn s in s'\<lparr>ch_world := sleep period (ch_world s')\<rparr>) ^^ n)
       (s\<lparr>ch_world := sleep offset (ch_world s)\<rparr>)"

section \<open>Lemmas\<close>

lemma record_ch_simps [simp]:
  "stopped (record_ch ev s) = stopped s"
  "ch_hist (record_ch ev s) = ch_hist s @ [EventLine (stamp (int (w_ns (tick (ch_world s)))) ev)]"
  by (simp_all add: record_ch_def record_event_eq)

lemma event_kinds [simp]:
  "is_op op (skip_event info) \<longleftrightarrow> op = ''chaos.skip''"
  "is_op op (kill_leader_event res li) \<longleftrightarrow> op = ''chaos.kill_leader''"
  "is_op op (kill_follower_event res) \<longleftrightarrow> op = ''chaos.kill_follower''"
  "is_op op (chaos_error_event fault e) \<longleftrightarrow> op = ''chaos.error''"
  by (simp_all add: skip_event_def kill_leader_event_def kill_follower_event_def chaos_error_event_def)

lemma record_ch_time: "secs (ch_world s) \<le> secs (ch_world (record_ch ev s))"
  by (simp add: record_ch_def record_event_eq)

lemma stop_random_task_time:
  "secs (ch_world s) \<le> secs (ch_world (snd (stop_random_task sv service reason s)))"
proof -
  have "secs w \<le> secs (tick (tick (tick w)))" "secs w \<le> secs (tick (tick (tick (tick w))))" for w
    by (rule order_trans [OF secs_tick], (rule order_trans [OF secs_tick])?, (rule order_trans [OF secs_tick])?, simp)+
  then show ?thesis
    by (simp add: stop_random_task_def running_tasks_def call_def choice_def now_ns_def Let_def split: sum.split option.split)
qed

lemma stop_random_task_killed:
  "stop_random_task sv service reason s = (Inr (Some res), s') \<Longrightarrow> real_of_int (kr_killed_ns res) / 1000000000 = secs (ch_world s')"
  by (auto simp: stop_random_task_def running_tasks_def call_def choice_def now_ns_def Let_def secs_def
      split: sum.splits option.splits if_splits)

text \<open>A stop call that succeeds names a running task of the service; otherwise nothing was stopped.\<close>

lemma stop_random_task_cases:
  assumes "stop_random_task sv service reason s = (r, s')"
  shows "ch_hist s' = ch_hist s \<and>
    (case r of
       Inr (Some res) \<Rightarrow> kr_service res = service \<and> stopped s' = stopped s @ [(service, kr_task_arn res, reason)] \<and>
         (\<exists>k arns. cs_list_tasks sv k service = Inr arns \<and> kr_task_arn res \<in> set arns)
     | _ \<Rightarrow> stopped s' = stopped s)"
proof -
  let ?arns = "cs_list_tasks sv (w_k (ch_world s)) service"
  show ?thesis
  proof (cases ?arns)
    case (Inl e)
    with assms show ?thesis by (auto simp: stop_random_task_def running_tasks_def call_def Let_def)
  next
    case (Inr arns)
    have "\<exists>k arns'. cs_list_tasks sv k service = Inr arns' \<and> arns ! (i mod length arns) \<in> set arns'" if "arns \<noteq> []" for i
      using that by (intro exI [of _ "w_k (ch_world s)"] exI [of _ arns]) (simp add: Inr)
    with Inr assms show ?thesis
      by (cases "arns = []")
        (auto simp: stop_random_task_def running_tasks_def call_def choice_def now_ns_def Let_def split: option.splits)
  qed
qed

lemma kill_follower_cases:
  assumes "kill_follower sv svcs s = (r, s')"
  shows "ch_hist s' = ch_hist s \<and>
    (case r of
       Inr (Some res) \<Rightarrow> kr_service res \<in> set svcs \<and>
         stopped s' = stopped s @ [(kr_service res, kr_task_arn res, ''chaos: follower kill'')] \<and>
         (\<exists>k arns. cs_list_tasks sv k (kr_service res) = Inr arns \<and> kr_task_arn res \<in> set arns)
     | _ \<Rightarrow> stopped s' = stopped s)"
proof (cases "svcs = []")
  case True
  with assms show ?thesis by (auto simp: kill_follower_def)
next
  case False
  let ?svc = "svcs ! (cs_random sv (w_k (ch_world s)) mod length svcs)"
  have "?svc \<in> set svcs" using False by simp
  moreover have "stop_random_task sv ?svc ''chaos: follower kill'' (s\<lparr>ch_world := tick (ch_world s)\<rparr>) = (r, s')"
    using assms False by (simp add: kill_follower_def choice_def Let_def)
  from stop_random_task_cases [OF this] calculation show ?thesis by (auto split: sum.splits option.splits)
qed

text \<open>
  The contract of an injection turn: it records exactly one event, and that event has the kill
  operation exactly when one task was stopped.
\<close>

definition accounted :: "py_str \<Rightarrow> chaos_env \<Rightarrow> chaos_env \<Rightarrow> bool" where
  "accounted kill_op s s' \<longleftrightarrow>
     (\<exists>ev. ch_hist s' = ch_hist s @ [EventLine ev] \<and>
        length (stopped s') = length (stopped s) + (if is_op kill_op ev then 1 else 0))"

lemma accounted_record:
  assumes "ch_hist s2 = ch_hist s" "length (stopped s2) = length (stopped s) + (if is_op kill_op ev then 1 else 0)"
  shows "accounted kill_op s (record_ch ev s2)"
  unfolding accounted_def using assms by (intro exI [of _ "stamp (int (w_ns (tick (ch_world s2)))) ev"]) simp

locale injection =
  fixes turn :: "chaos_env \<Rightarrow> chaos_env" and kill_op :: py_str
  assumes turn_accounted: "accounted kill_op s (turn s)"
begin

lemma loop_accounts:
  "length (events_of (ch_hist (chaos_loop turn offset period n s))) = length (events_of (ch_hist s)) + n \<and>
   length (filter (is_op kill_op) (events_of (ch_hist (chaos_loop turn offset period n s)))) + length (stopped s) =
     length (filter (is_op kill_op) (events_of (ch_hist s))) + length (stopped (chaos_loop turn offset period n s))"
proof (induction n)
  case 0
  show ?case by (simp add: chaos_loop_def)
next
  case (Suc n)
  let ?s = "chaos_loop turn offset period n s"
  have step: "chaos_loop turn offset period (Suc n) s = (turn ?s)\<lparr>ch_world := sleep period (ch_world (turn ?s))\<rparr>"
    by (simp add: chaos_loop_def Let_def)
  from turn_accounted [of ?s] Suc show ?case by (auto simp: step accounted_def)
qed

end

interpretation leader_kill: injection "exp3_kill_leader_turn sv cfg" "''chaos.kill_leader''"
  for sv :: chaos_services and cfg :: bench_config
proof unfold_locales
  fix s :: chaos_env
  obtain found w1 where f: "find_leader (cs_peers sv) cfg (ch_world s) = (found, w1)" by fastforce
  show "accounted ''chaos.kill_leader'' s (exp3_kill_leader_turn sv cfg s)"
    by (auto simp: exp3_kill_leader_turn_def f kill_leader_def Let_def split: sum.split option.split prod.split
        intro!: accounted_record dest!: stop_random_task_cases)
qed

interpretation follower_kill: injection "exp3_kill_follower_turn sv cfg" "''chaos.kill_follower''"
  for sv :: chaos_services and cfg :: bench_config
proof unfold_locales
  fix s :: chaos_env
  obtain found w1 where f: "find_leader (cs_peers sv) cfg (ch_world s) = (found, w1)" by fastforce
  show "accounted ''chaos.kill_follower'' s (exp3_kill_follower_turn sv cfg s)"
    by (auto simp: exp3_kill_follower_turn_def f Let_def split: sum.split option.split prod.split
        intro!: accounted_record dest!: kill_follower_cases)
qed

section \<open>Properties\<close>

text \<open>
  C31: follower kills spare the leader.  A turn of the follower loop stops at most one task, and only
  when a leader was found; the task was listed as running for a configured coordinator service
  other than the leader's.
\<close>

theorem follower_kill_spares_leader:
  "let s' = exp3_kill_follower_turn sv cfg s
   in case fst (find_leader (cs_peers sv) cfg (ch_world s)) of
        Inr (Some info) \<Rightarrow>
          stopped s' = stopped s \<or>
          (\<exists>svc arn. stopped s' = stopped s @ [(svc, arn, ''chaos: follower kill'')] \<and>
             svc \<in> set (bc_coordinator_services cfg) - {li_ecs_service info} \<and>
             (\<exists>k arns. cs_list_tasks sv k svc = Inr arns \<and> arn \<in> set arns))
      | _ \<Rightarrow> stopped s' = stopped s"
proof -
  obtain found w1 where f: "find_leader (cs_peers sv) cfg (ch_world s) = (found, w1)" by fastforce
  show ?thesis
    by (auto simp: exp3_kill_follower_turn_def f Let_def split: sum.split option.split prod.split
        dest!: kill_follower_cases)
qed

text \<open>
  The chaos loops account for every injection.  After any number of turns the leader loop and the
  follower loop have each recorded one event per turn, and as many kill events as tasks they
  stopped; so the kill counts of the analysis are the numbers of tasks really stopped.
\<close>

theorem chaos_loops_account:
  "let s0 = \<lparr>stopped = [], ch_hist = [], ch_world = w\<rparr>;
       l = chaos_loop (exp3_kill_leader_turn sv cfg) offset period n s0;
       f = chaos_loop (exp3_kill_follower_turn sv' cfg) offset' period' n' s0
   in length (events_of (ch_hist l)) = n \<and>
      length (filter (is_op ''chaos.kill_leader'') (events_of (ch_hist l))) = length (stopped l) \<and>
      length (events_of (ch_hist f)) = n' \<and>
      length (filter (is_op ''chaos.kill_follower'') (events_of (ch_hist f))) = length (stopped f)"
  using leader_kill.loop_accounts [of sv cfg offset period n "\<lparr>stopped = [], ch_hist = [], ch_world = w\<rparr>"]
    follower_kill.loop_accounts [of sv' cfg offset' period' n' "\<lparr>stopped = [], ch_hist = [], ch_world = w\<rparr>"]
  by (simp add: Let_def)

end
