(* ===== verification/Exp1_Run.thy ===== *)
theory Exp1_Run
  imports Exp1_Analysis Chaos Workers
begin

text \<open>
  A whole run of experiment 1 (\<open>chaos-bench/exp1.py\<close>): the kill loop as a thread, and the analysis of a
  history that the task threads, the leader tracker, the kill loop and the main thread write
  concurrently.  What the analysis of arbitrary histories assumes of them is proved here of the
  histories that the threads write.
\<close>

section \<open>Threads\<close>

text \<open>
  \<open>_kill_loop\<close>; \<open>stop\<close> is the time at which the main thread sets the stop event.  A turn ends the
  thread by an exception or when the wait is interrupted (\<open>Inl\<close>), or goes on to the next one.
\<close>

definition exp1_kill_body ::
  "chaos_services \<Rightarrow> bench_config \<Rightarrow> real \<Rightarrow> real \<Rightarrow> chaos_env \<Rightarrow> world \<Rightarrow> (chaos_env + chaos_env) \<times> world" where
  "exp1_kill_body sv cfg period_s stop s w =
     (let (r, s1) = exp1_kill_turn sv cfg (s\<lparr>ch_world := w\<rparr>)
      in case r of
           Inl e \<Rightarrow> (Inl s1, ch_world s1)
         | Inr _ \<Rightarrow>
             let (stopping, w2) = stop_wait (Some stop) period_s (ch_world s1); s2 = s1\<lparr>ch_world := w2\<rparr>
             in (if stopping then Inl s2 else Inr s2, w2))"

definition exp1_kill_loop :: "chaos_services \<Rightarrow> bench_config \<Rightarrow> real \<Rightarrow> real \<Rightarrow> world \<Rightarrow> chaos_env option" where
  "exp1_kill_loop sv cfg period_s stop w =
     (let (stopping, w1) = stop_wait (Some stop) period_s w; s = \<lparr>stopped = [], ch_hist = [], ch_world = w1\<rparr>
      in if stopping then Some s
         else map_option (\<lambda>(out, _). case_sum id id out) (deadline_loop stop (exp1_kill_body sv cfg period_s stop) s w1))"

text \<open>The lines the main thread of \<open>run_exp1\<close> writes, at two times.\<close>

definition exp1_main_trace :: "int \<Rightarrow> int \<Rightarrow> hist_event list" where
  "exp1_main_trace t1 t2 = [stamp t1 (event_of ''run_start''), stamp t2 (event_of ''run_end'')]"

definition tracker_trace :: "peer_services \<Rightarrow> real \<Rightarrow> nat \<Rightarrow> world \<Rightarrow> hist_event list" where
  "tracker_trace sv poll_s n w = events_of (fst (snd (tracker_run sv poll_s n w)))"

record exp1_threads =
  et_params :: run_params
  et_tasks :: "task_start list"
  et_peers :: peer_services
  et_scans :: nat
  et_tracker_world :: world
  et_chaos :: chaos_services
  et_period :: real
  et_stop :: real
  et_kill_world :: world
  et_start_ns :: int
  et_end_ns :: int

definition tracker_events :: "exp1_threads \<Rightarrow> hist_event list" where
  "tracker_events th = tracker_trace (et_peers th) (15 / 100) (et_scans th) (et_tracker_world th)"

definition kill_env :: "bench_config \<Rightarrow> exp1_threads \<Rightarrow> chaos_env" where
  "kill_env cfg th =
     (case exp1_kill_loop (et_chaos th) cfg (et_period th) (et_stop th) (et_kill_world th) of
        None \<Rightarrow> \<lparr>stopped = [], ch_hist = [], ch_world = et_kill_world th\<rparr>
      | Some s \<Rightarrow> s)"

definition exp1_run_traces :: "bench_config \<Rightarrow> exp1_threads \<Rightarrow> hist_event list list" where
  "exp1_run_traces cfg th =
     map (task_trace cfg (et_params th)) (et_tasks th) @
     [tracker_events th, events_of (ch_hist (kill_env cfg th)), exp1_main_trace (et_start_ns th) (et_end_ns th)]"

section \<open>The other threads\<close>

definition kill_thread_ok :: "chaos_env \<Rightarrow> bool" where
  "kill_thread_ok s \<longleftrightarrow>
     list_all (\<lambda>ev. (is_op ''chaos.kill_leader'' ev \<and> e_killed_ns ev \<noteq> None) \<or> is_op ''chaos.skip'' ev) (events_of (ch_hist s)) \<and>
     length (filter (is_op ''chaos.kill_leader'') (events_of (ch_hist s))) = length (stopped s)"

text \<open>
  A turn ends with nothing stopped, recording at most a skip, or with one task stopped and recorded.
\<close>

lemma exp1_kill_turn_cases:
  assumes "exp1_kill_turn sv cfg s = (r, s')"
  obtains (idle) s2 where "secs (ch_world s) \<le> secs (ch_world s2)" "ch_hist s2 = ch_hist s" "stopped s2 = stopped s"
      "s' = s2 \<or> (\<exists>info. s' = record_ch (skip_event info) s2)"
    | (kill) s2 res li x where "secs (ch_world s) \<le> secs (ch_world s2)" "ch_hist s2 = ch_hist s" "stopped s2 = stopped s @ [x]"
      "s' = record_ch (kill_leader_event res li) s2" "real_of_int (kr_killed_ns res) / 1000000000 = secs (ch_world s2)"
proof -
  obtain found w1 where f: "find_leader (cs_peers sv) cfg (ch_world s) = (found, w1)" by fastforce
  have w1: "secs (ch_world s) \<le> secs w1" using find_leader_time [of "ch_world s" "cs_peers sv" cfg] f by simp
  let ?s1 = "s\<lparr>ch_world := w1\<rparr>"
  consider e where "found = Inl e" | "found = Inr None" | li where "found = Inr (Some li)"
    by (metis option.exhaust sum.exhaust)
  then show thesis
  proof cases
    case 3
    obtain k s2 where k: "stop_random_task sv (li_ecs_service li) ''chaos: leader kill'' ?s1 = (k, s2)" by fastforce
    have e: "exp1_kill_turn sv cfg s =
      (case k of
         Inl e \<Rightarrow> (Inl e, s2)
       | Inr None \<Rightarrow> (Inr (), record_ch (skip_event [(''reason'', ''no running task''), (''service'', li_ecs_service li)]) s2)
       | Inr (Some res) \<Rightarrow> (Inr (), record_ch (kill_leader_event res li) s2))"
      using f 3 k by (simp add: exp1_kill_turn_def kill_leader_def Let_def)
    have "secs w1 \<le> secs (ch_world s2)"
      using stop_random_task_time [of ?s1 sv "li_ecs_service li" "''chaos: leader kill''"] k by simp
    with w1 have time: "secs (ch_world s) \<le> secs (ch_world s2)" by linarith
    show thesis
    proof (cases "\<exists>res. k = Inr (Some res)")
      case True
      with stop_random_task_cases [OF k] stop_random_task_killed k time e assms show thesis by (auto intro!: kill)
    next
      case False
      with stop_random_task_cases [OF k] time e assms show thesis
        by (intro idle [of s2]) (auto split: sum.splits option.splits)
    qed
  qed (use assms f w1 in \<open>auto simp: exp1_kill_turn_def intro!: idle [of ?s1]\<close>)
qed

lemma exp1_kill_turn_ok:
  assumes "exp1_kill_turn sv cfg s = (r, s')" "kill_thread_ok s"
  shows "kill_thread_ok s'"
  using assms(1)
proof (cases rule: exp1_kill_turn_cases)
  case (kill s2 res li x)
  have "e_killed_ns (kill_leader_event res li) \<noteq> None" by (simp add: kill_leader_event_def)
  with kill assms(2) show ?thesis by (auto simp: kill_thread_ok_def)
qed (use assms(2) in \<open>auto simp: kill_thread_ok_def\<close>)

lemma kill_thread_ok_world [simp]: "kill_thread_ok (s\<lparr>ch_world := w\<rparr>) = kill_thread_ok s"
  by (simp add: kill_thread_ok_def)

lemma kill_turn_time: "exp1_kill_turn sv cfg s = (r, s') \<Longrightarrow> secs (ch_world s) \<le> secs (ch_world s')"
  by (erule exp1_kill_turn_cases) (auto intro: order_trans [OF _ record_ch_time])

lemma kill_body_advances:
  assumes "exp1_kill_body sv cfg period_s stop s w = (Inr s', w')"
  shows "secs w + period_s \<le> secs w'"
proof -
  obtain r s1 where t: "exp1_kill_turn sv cfg (s\<lparr>ch_world := w\<rparr>) = (r, s1)" by fastforce
  from kill_turn_time [OF t] have "secs w \<le> secs (ch_world s1)" by simp
  moreover from assms t have "stop_wait (Some stop) period_s (ch_world s1) = (False, w')"
    by (auto simp: exp1_kill_body_def Let_def split: sum.splits prod.splits if_splits)
  from stop_wait_slept [OF this] have "secs (ch_world s1) + period_s \<le> secs w'" .
  ultimately show ?thesis by linarith
qed

text \<open>A turn on an empty history stops at most one task, and records it with a time after its start.\<close>

lemma exp1_kill_turn_first:
  assumes t: "exp1_kill_turn sv cfg s = (r, s')" and "stopped s = []" "events_of (ch_hist s) = []"
  shows "length (stopped s') \<le> 1 \<and> (\<forall>k \<in> set (kill_times (events_of (ch_hist s'))). secs (ch_world s) \<le> real_of_int k / 1000000000)"
  using t
proof (cases rule: exp1_kill_turn_cases)
  case (kill s2 res li x)
  have "get_or (e_killed_ns (kill_leader_event res li)) y = kr_killed_ns res" for y by (simp add: kill_leader_event_def get_or_def)
  with kill assms(2,3) show ?thesis by (simp add: kill_times_def)
qed (use assms(2,3) in \<open>auto simp: kill_times_def\<close>)

lemma kill_turns: "0 < period_s \<Longrightarrow> deadline_poll (exp1_kill_body sv cfg period_s stop) period_s"
  by unfold_locales (auto dest: kill_body_advances)

lemma exp1_kill_loop_returns: "0 < period_s \<Longrightarrow> \<exists>s. exp1_kill_loop sv cfg period_s stop w = Some s"
  using deadline_poll.loop_returns [OF kill_turns] by (fastforce simp: exp1_kill_loop_def Let_def split: prod.split)

text \<open>
  Proof rule for the thread: \<open>I\<close> holds before every turn, a turn leads to \<open>Q\<close>, and back to \<open>I\<close> when a
  whole period has passed.
\<close>

lemma exp1_kill_loop_rule:
  assumes ret: "exp1_kill_loop sv cfg period_s stop w = Some s"
    and init: "\<And>w1. Q \<lparr>stopped = [], ch_hist = [], ch_world = w1\<rparr>"
      "\<And>w1. secs w + period_s \<le> secs w1 \<Longrightarrow> I \<lparr>stopped = [], ch_hist = [], ch_world = w1\<rparr> w1"
    and time: "\<And>s w. I s w \<Longrightarrow> I s (tick w)" and final: "\<And>s w. I s w \<Longrightarrow> Q s"
    and turn: "\<And>s w r s1 w1. I s w \<Longrightarrow> secs w < stop \<Longrightarrow> exp1_kill_turn sv cfg (s\<lparr>ch_world := w\<rparr>) = (r, s1) \<Longrightarrow>
      Q s1 \<and> Q (s1\<lparr>ch_world := w1\<rparr>) \<and> (secs w + period_s \<le> secs w1 \<longrightarrow> I (s1\<lparr>ch_world := w1\<rparr>) w1)"
  shows "Q s"
proof -
  obtain stopping w1 where st: "stop_wait (Some stop) period_s w = (stopping, w1)" by fastforce
  let ?s0 = "\<lparr>stopped = [], ch_hist = [], ch_world = w1\<rparr>"
  show ?thesis
  proof (cases stopping)
    case True
    with ret st init(1) show ?thesis by (auto simp: exp1_kill_loop_def)
  next
    case False
    with ret st obtain out w2 where
      loop: "deadline_loop stop (exp1_kill_body sv cfg period_s stop) ?s0 w1 = Some (out, w2)" and s: "s = case_sum id id out"
      by (auto simp: exp1_kill_loop_def)
    have step: "case out of Inl s' \<Rightarrow> Q s' | Inr s' \<Rightarrow> I s' w'"
      if "I s w" "secs w < stop" "exp1_kill_body sv cfg period_s stop s w = (out, w')" for s w out w'
    proof -
      obtain r s1 where t: "exp1_kill_turn sv cfg (s\<lparr>ch_world := w\<rparr>) = (r, s1)" by fastforce
      from turn [OF that(1,2) t] that(3) t kill_body_advances [of sv cfg period_s stop s w _ w'] show ?thesis
        by (cases r) (auto simp: exp1_kill_body_def Let_def split: prod.splits if_splits)
    qed
    have "I ?s0 w1" using stop_wait_slept [of "Some stop" period_s w w1] st False init(2) by simp
    with loop have "Q (case_sum id id out)"
      by (rule deadline_loop_rule [where I = I and Q = "\<lambda>out _. Q (case_sum id id out)"]) (use time step final in fastforce)+
    then show ?thesis by (simp add: s)
  qed
qed

lemma kill_env_ok: "kill_thread_ok (kill_env cfg th)"
proof -
  have init: "kill_thread_ok \<lparr>stopped = [], ch_hist = [], ch_world = w\<rparr>" for w by (simp add: kill_thread_ok_def)
  have "kill_thread_ok s" if "exp1_kill_loop (et_chaos th) cfg (et_period th) (et_stop th) (et_kill_world th) = Some s" for s
    by (rule exp1_kill_loop_rule [OF that, where I = "\<lambda>s _. kill_thread_ok s"]) (auto simp: init dest: exp1_kill_turn_ok)
  with init show ?thesis by (simp add: kill_env_def split: option.split)
qed

lemma change_events_shape:
  "map what evs = map (what \<circ> change_event) ls \<Longrightarrow>
     list_all (\<lambda>ev. (is_op ''leader_observed'' ev \<and> e_node_id ev \<noteq> None) \<or> is_op ''leader_gap'' ev) evs \<and>
     length (filter (is_op ''leader_observed'') evs) = length (filter (\<lambda>l. l \<noteq> None) ls)"
proof (induction ls arbitrary: evs)
  case (Cons l ls)
  then obtain ev evs' where evs: "evs = ev # evs'" "what ev = what (change_event l)" "map what evs' = map (what \<circ> change_event) ls"
    by (cases evs) auto
  from evs(2) have "if l = None then is_op ''leader_gap'' ev else is_op ''leader_observed'' ev \<and> e_node_id ev \<noteq> None"
    by (cases l) (simp_all add: what_def is_op_def change_event_def)
  with Cons.IH [OF evs(3)] show ?case by (auto simp: evs(1) is_op_def split: if_splits)
qed simp

definition leader_changes :: "exp1_threads \<Rightarrow> py_str option list" where
  "leader_changes th = tl (remdups_adj (None # tracker_scans (et_peers th) (15 / 100) (et_scans th) (et_tracker_world th)))"

lemma tracker_events_ok:
  "sorted (map wall (tracker_events th))"
  "list_all (\<lambda>ev. (is_op ''leader_observed'' ev \<and> e_node_id ev \<noteq> None) \<or> is_op ''leader_gap'' ev) (tracker_events th)"
  "length (filter (is_op ''leader_observed'') (tracker_events th)) = length (filter (\<lambda>l. l \<noteq> None) (leader_changes th))"
proof -
  have ok: "sorted (map wall (tracker_events th)) \<and> map what (tracker_events th) = map (what \<circ> change_event) (leader_changes th)"
    using tracker_run_ok [of "et_peers th" "15 / 100" "et_scans th" "et_tracker_world th"]
    by (simp add: tracker_events_def tracker_trace_def leader_changes_def Let_def case_prod_beta)
  with change_events_shape [of "tracker_events th" "leader_changes th"]
  show "sorted (map wall (tracker_events th))"
    "list_all (\<lambda>ev. (is_op ''leader_observed'' ev \<and> e_node_id ev \<noteq> None) \<or> is_op ''leader_gap'' ev) (tracker_events th)"
    "length (filter (is_op ''leader_observed'') (tracker_events th)) = length (filter (\<lambda>l. l \<noteq> None) (leader_changes th))"
    by blast+
qed

section \<open>The history of a run\<close>

lemma task_trace_ops:
  assumes "0 < rp_poll_interval_s params" "op \<in> {''leader_observed'', ''chaos.kill_leader''}"
  shows "filter (is_op op) (task_trace cfg params st) = []"
proof -
  from task_trace_shape [OF assms(1), of st cfg] obtain f where "thread_shape (start_tid st) f (task_trace cfg params st)" by blast
  with assms(2) show ?thesis by (auto simp: thread_shape_def filter_empty_conv is_op_unique split: fate.splits)
qed

lemma others_ok:
  "list_all (list_all other_event)
     [tracker_events th, events_of (ch_hist (kill_env cfg th)), exp1_main_trace (et_start_ns th) (et_end_ns th)]"
proof -
  have "list_all other_event (tracker_events th)"
    using tracker_events_ok(2) [of th] by (auto simp: list_all_iff other_event_def is_op_unique)
  moreover have "list_all other_event (events_of (ch_hist (kill_env cfg th)))"
    using kill_env_ok [of cfg th] by (auto simp: kill_thread_ok_def list_all_iff other_event_def is_op_unique)
  ultimately show ?thesis by (simp add: exp1_main_trace_def other_event_def)
qed

text \<open>Only the tracker observes leaders and only the kill loop kills, so their events keep their order.\<close>

lemma run_filters:
  assumes "0 < rp_poll_interval_s (et_params th)" "interleaved (exp1_run_traces cfg th) evs"
  shows "filter (is_op ''leader_observed'') evs = filter (is_op ''leader_observed'') (tracker_events th)"
    and "filter (is_op ''chaos.kill_leader'') evs = filter (is_op ''chaos.kill_leader'') (events_of (ch_hist (kill_env cfg th)))"
proof -
  let ?n = "length (et_tasks th)" and ?ts = "exp1_run_traces cfg th"
  have len: "length ?ts = ?n + 3" by (simp add: exp1_run_traces_def)
  have nth: "?ts ! ?n = tracker_events th" "?ts ! Suc ?n = events_of (ch_hist (kill_env cfg th))"
    "?ts ! Suc (Suc ?n) = exp1_main_trace (et_start_ns th) (et_end_ns th)"
    by (simp_all add: exp1_run_traces_def nth_append)
  have task: "filter (is_op op) (?ts ! j) = []" if "j < ?n" "op \<in> {''leader_observed'', ''chaos.kill_leader''}" for j op
    using that task_trace_ops [OF assms(1)] by (simp add: exp1_run_traces_def nth_append)
  have main: "filter (is_op op) (?ts ! Suc (Suc ?n)) = []" if "op \<in> {''leader_observed'', ''chaos.kill_leader''}" for op
    unfolding nth using that by (auto simp: exp1_main_trace_def)
  have kill: "filter (is_op ''leader_observed'') (?ts ! Suc ?n) = []"
    unfolding nth using kill_env_ok [of cfg th] by (auto simp: kill_thread_ok_def list_all_iff filter_empty_conv is_op_unique)
  have track: "filter (is_op ''chaos.kill_leader'') (?ts ! ?n) = []"
    unfolding nth using tracker_events_ok(2) [of th] by (auto simp: list_all_iff filter_empty_conv is_op_unique)
  have split: "j < ?n \<or> j = ?n \<or> j = Suc ?n \<or> j = Suc (Suc ?n)" if "j < length ?ts" for j using that len by linarith
  have "\<forall>j < length ?ts. j \<noteq> ?n \<longrightarrow> filter (is_op ''leader_observed'') (?ts ! j) = []"
    using split task [of _ "''leader_observed''"] main [of "''leader_observed''"] kill by auto
  from interleaved_filter_own [OF assms(2) _ this]
  show "filter (is_op ''leader_observed'') evs = filter (is_op ''leader_observed'') (tracker_events th)" by (simp add: len nth)
  have "\<forall>j < length ?ts. j \<noteq> Suc ?n \<longrightarrow> filter (is_op ''chaos.kill_leader'') (?ts ! j) = []"
    using split task [of _ "''chaos.kill_leader''"] main [of "''chaos.kill_leader''"] track by auto
  from interleaved_filter_own [OF assms(2) _ this]
  show "filter (is_op ''chaos.kill_leader'') evs = filter (is_op ''chaos.kill_leader'') (events_of (ch_hist (kill_env cfg th)))"
    by (simp add: len nth)
qed

lemma exp1_event_counts:
  assumes "list_all wf_event (events_of h)" "exp1_analyze h = Inr st"
  shows "kill_count st = length (filter (is_op ''chaos.kill_leader'') (events_of h))"
    and "leader_change_count st = length (filter (is_op ''leader_observed'') (events_of h))"
proof -
  from exp1_fold [OF assms(1)] obtain acc where
    "fold_res exp1_line (events_of h) exp1_acc_init = Inr acc" "acc_of (events_of h) acc" by blast
  with assms(2) show "kill_count st = length (filter (is_op ''chaos.kill_leader'') (events_of h))"
    "leader_change_count st = length (filter (is_op ''leader_observed'') (events_of h))"
    by (auto simp: exp1_analyze_def exp1_summary_def acc_of_def Let_def)
qed

text \<open>The samples of a run.\<close>

definition run_samples :: "bench_config \<Rightarrow> exp1_threads \<Rightarrow> real list" where
  "run_samples cfg th = expected_samples (set (leader_times (tracker_events th))) (kill_times (events_of (ch_hist (kill_env cfg th))))"

lemma exp1_run_stats:
  assumes "0 < rp_poll_interval_s (et_params th)" "interleaved (exp1_run_traces cfg th) (events_of h)"
  shows "\<exists>st. exp1_analyze h = Inr st \<and> convergence_samples st = length (run_samples cfg th) \<and>
     convergence_p50_ms st = exp1_pct (run_samples cfg th) 50 \<and> convergence_p95_ms st = exp1_pct (run_samples cfg th) 95 \<and>
     convergence_mean_ms st = (if run_samples cfg th = [] then 0 else mean (run_samples cfg th)) \<and>
     convergence_max_ms st = (if run_samples cfg th = [] then 0 else Max (set (run_samples cfg th)))"
proof -
  note run = assms(2) [unfolded exp1_run_traces_def] others_ok
  have times: "leader_times (events_of h) = leader_times (tracker_events th)"
    "kill_times (events_of h) = kill_times (events_of (ch_hist (kill_env cfg th)))"
    using run_filters [OF assms] by (simp_all add: leader_times_def kill_times_def)
  have "sorted (leader_times (tracker_events th))"
    using sorted_filter [OF tracker_events_ok(1), of "is_op ''leader_observed''" th] by (simp add: leader_times_def wall_def [abs_def])
  from exp1_convergence [OF wf_run [OF assms(1) run], unfolded times, OF this] show ?thesis
    unfolding Let_def run_samples_def [symmetric] by blast
qed

text \<open>With the stop event set within two periods, at most one turn is taken.\<close>

lemma kill_loop_stops_once:
  assumes s: "exp1_kill_loop sv cfg period_s stop w = Some s" and "stop \<le> secs w + 2 * period_s"
  shows "length (stopped s) \<le> 1 \<and>
    list_all (\<lambda>k. secs w + period_s \<le> real_of_int k / 1000000000) (kill_times (events_of (ch_hist s)))"
proof -
  let ?late = "\<lambda>s. list_all (\<lambda>k. secs w + period_s \<le> real_of_int k / 1000000000) (kill_times (events_of (ch_hist s)))"
  let ?fresh = "\<lambda>s. stopped s = [] \<and> events_of (ch_hist s) = []"
  let ?Q = "\<lambda>s. length (stopped s) \<le> 1 \<and> ?late s"
  let ?I = "\<lambda>s w1. ?fresh s \<and> secs w + period_s \<le> secs w1 \<or> ?Q s \<and> stop \<le> secs w1"
  show ?thesis
  proof (rule exp1_kill_loop_rule [OF s, where I = ?I])
    fix s w1 r s1 w2
    assume "?I s w1" "secs w1 < stop" and t: "exp1_kill_turn sv cfg (s\<lparr>ch_world := w1\<rparr>) = (r, s1)"
    then have "?fresh s" "secs w + period_s \<le> secs w1" by auto
    with exp1_kill_turn_first [OF t] assms have "?Q s1" by (auto simp: list_all_iff)
    then show "?Q s1 \<and> ?Q (s1\<lparr>ch_world := w2\<rparr>) \<and> (secs w1 + period_s \<le> secs w2 \<longrightarrow> ?I (s1\<lparr>ch_world := w2\<rparr>) w2)"
      using \<open>secs w + period_s \<le> secs w1\<close> assms(2) by auto
  qed (auto simp: kill_times_def intro: order_trans [OF _ secs_tick])
qed

lemma run_samples_single:
  assumes "et_stop th \<le> secs (et_kill_world th) + 2 * et_period th"
  shows "length (run_samples cfg th) \<le> 1"
proof -
  have "length (stopped (kill_env cfg th)) \<le> 1"
    using kill_loop_stops_once [OF _ assms] by (auto simp: kill_env_def split: option.split)
  then have "length (kill_times (events_of (ch_hist (kill_env cfg th)))) \<le> 1"
    using kill_env_ok [of cfg th] by (simp add: kill_thread_ok_def kill_times_def)
  then show ?thesis by (auto simp: run_samples_def expected_samples_def intro: order_trans [OF length_filter_le])
qed

section \<open>A concrete run\<close>

text \<open>A small run: one task that completes, one kill, and the tracker seeing a leader afterwards.\<close>

definition demo_kill_services :: chaos_services where
  "demo_kill_services =
     \<lparr>cs_peers = \<lparr>ps_scan = (\<lambda>_. Inr [\<lparr>pr_node_id = Some ''coordinator-a'', pr_http_addr = Some ''10.0.0.1:8080'',
        pr_is_leader = Some True, pr_heartbeat_ts = None\<rparr>]), ps_state = (\<lambda>_ _. Inr None)\<rparr>,
      cs_list_tasks = (\<lambda>_ svc. Inr [svc @ ''/task'']), cs_stop_task = (\<lambda>_ _. None), cs_random = (\<lambda>_. 0),
      cs_receive = (\<lambda>_ _. Inr []), cs_visibility = (\<lambda>_ _. VisOk)\<rparr>"

definition demo_kill_config :: bench_config where
  "demo_kill_config = demo_bench_config\<lparr>bc_coordinator_services := [''dev-coordinator-a'', ''dev-coordinator-b'']\<rparr>"

definition demo_threads :: exp1_threads where
  "demo_threads =
     \<lparr>et_params = demo_params, et_tasks = [demo_start], et_peers = cs_peers demo_kill_services, et_scans = 1,
      et_tracker_world = \<lparr>w_ns = 5000000000, w_k = 0, w_delay = (\<lambda>_. 0)\<rparr>, et_chaos = demo_kill_services,
      et_period = 1, et_stop = 3 / 2, et_kill_world = \<lparr>w_ns = 0, w_k = 0, w_delay = (\<lambda>_. 0)\<rparr>, et_start_ns = 0, et_end_ns = 6000000000\<rparr>"

definition demo_run_history :: history where
  "demo_run_history = map EventLine (concat (exp1_run_traces demo_kill_config demo_threads))"

lemma demo_run_interleaved: "interleaved (exp1_run_traces demo_kill_config demo_threads) (events_of demo_run_history)"
proof -
  have "events_of (map EventLine xs) = xs" for xs by (induction xs) auto
  then show ?thesis by (simp add: demo_run_history_def interleaved_concat)
qed

lemma demo_kills:
  "length (stopped (kill_env demo_kill_config demo_threads)) = 1"
  "kill_times (events_of (ch_hist (kill_env demo_kill_config demo_threads))) = [1000000000]"
  by (simp_all add: kill_env_def demo_threads_def exp1_kill_loop_def exp1_kill_turn_def find_leader_def call_def Let_def
      demo_kill_services_def complete_row_def get_or_def usable_service_def ecs_service_for_def demo_kill_config_def endswith_def
      kill_leader_def stop_random_task_def running_tasks_def choice_def now_ns_def tick_def sleep_def record_ch_def record_event_eq
      kill_times_def stamp_def kill_leader_event_def stop_wait_def secs_def deadline_loop_unfold exp1_kill_body_def)

lemma demo_leaders:
  "leader_changes demo_threads = [Some ''coordinator-a'']" "leader_times (tracker_events demo_threads) = [5000000000]"
  by (simp_all add: leader_changes_def tracker_scans_def demo_threads_def tracker_run_def tracker_events_def tracker_trace_def
      tracker_turn_def scan_once_def call_def now_def tick_def sleep_def Let_def demo_kill_services_def get_or_def fresh_row_def
      record_event_eq change_event_def stamp_def leader_times_def secs_def)

section \<open>Properties\<close>



text \<open>
  C32: the convergence figures of experiment 1.  Under the same conditions the sample of a kill is the
  time to the earliest leader observation of the tracker after it (of any node); kills without one
  give no sample; and the reported median, 95th percentile and maximum are ordered, the percentiles
  being samples themselves and the mean lying between the least sample and the maximum.
\<close>

theorem exp1_run_convergence:
  assumes "0 < rp_poll_interval_s (et_params th)" "interleaved (exp1_run_traces cfg th) (events_of h)"
  shows "let samples = expected_samples (set (leader_times (tracker_events th))) (kill_times (events_of (ch_hist (kill_env cfg th))))
     in \<exists>st. exp1_analyze h = Inr st \<and> convergence_samples st = length samples \<and>
        (if samples = [] then convergence_p50_ms st = 0 \<and> convergence_max_ms st = 0
         else Min (set samples) \<le> convergence_p50_ms st \<and> convergence_p50_ms st \<le> convergence_p95_ms st \<and>
           convergence_p95_ms st \<le> convergence_max_ms st \<and> convergence_max_ms st = Max (set samples) \<and>
           {convergence_p50_ms st, convergence_p95_ms st} \<subseteq> set samples \<and>
           Min (set samples) \<le> convergence_mean_ms st \<and> convergence_mean_ms st \<le> convergence_max_ms st)"
proof -
  from exp1_run_stats [OF assms] exp1_pct_order [of "run_samples cfg th"] mean_bounds [of "run_samples cfg th"]
  show ?thesis unfolding Let_def run_samples_def [symmetric] by (fastforce simp: exp1_pct_def)
qed

theorem exp1_run_convergence_witness:
  "\<exists>st. exp1_analyze demo_run_history = Inr st \<and> convergence_samples st = 1 \<and> convergence_p50_ms st = 4000"
proof -
  have "0 < rp_poll_interval_s (et_params demo_threads)" by (simp add: demo_threads_def demo_params_def)
  moreover have "{t. t = 5000000000 \<and> 1000000000 < t} = {5000000000 :: int}" by auto
  ultimately show ?thesis
    using exp1_run_convergence [OF _ demo_run_interleaved] by (auto simp: Let_def expected_samples_def demo_kills demo_leaders)
qed

end
