(* ===== verification/Exp1_Repeat.thy ===== *)
theory Exp1_Repeat
  imports Exp1_Run
begin

text \<open>
  The repeated single-kill runs of \<open>chaos-bench/exp1.py\<close>: \<open>_reset_cluster\<close>, which wipes the snapshots,
  stops every coordinator task and waits for a fresh quorum, \<open>_run_single_kill_iteration\<close> and the
  summary of \<open>run_exp1_repeat\<close>.  What S3, ECS and the peers table answer is a parameter; the pages of
  the S3 listing are a list, a page that cannot be fetched being an error.
\<close>

section \<open>Resetting the cluster\<close>

record reset_services =
  rs_chaos :: chaos_services
  rs_pages :: "py_str list option result list"
  rs_delete :: "nat \<Rightarrow> py_str list \<Rightarrow> py_error option"

record reset_env =
  re_deleted :: "py_str list"
  re_stopped :: "(py_str \<times> py_str) list"
  re_world :: world

fun wipe_snapshots :: "reset_services \<Rightarrow> py_str list option result list \<Rightarrow> reset_env \<Rightarrow> unit result \<times> reset_env" where
  "wipe_snapshots sv [] s = (Inr (), s)"
| "wipe_snapshots sv (page # pages) s =
     (let s1 = s\<lparr>re_world := tick (re_world s)\<rparr>
      in case page of
           Inl e \<Rightarrow> (Inl e, s1)
         | Inr contents \<Rightarrow>
             let keys = get_or contents []
             in if keys = [] then wipe_snapshots sv pages s1
                else
                  let (ans, w2) = call (\<lambda>k. rs_delete sv k keys) (re_world s1)
                  in case ans of
                       Some e \<Rightarrow> (Inl e, s1\<lparr>re_world := w2\<rparr>)
                     | None \<Rightarrow> wipe_snapshots sv pages (s1\<lparr>re_deleted := re_deleted s1 @ keys, re_world := w2\<rparr>))"

fun stop_tasks :: "chaos_services \<Rightarrow> py_str \<Rightarrow> py_str list \<Rightarrow> reset_env \<Rightarrow> unit result \<times> reset_env" where
  "stop_tasks cs svc [] s = (Inr (), s)"
| "stop_tasks cs svc (a # arns) s =
     (let (ans, w1) = call (\<lambda>k. cs_stop_task cs k a) (re_world s)
      in case ans of
           Some e \<Rightarrow> (Inl e, s\<lparr>re_world := w1\<rparr>)
         | None \<Rightarrow> stop_tasks cs svc arns (s\<lparr>re_stopped := re_stopped s @ [(svc, a)], re_world := w1\<rparr>))"

fun stop_services :: "chaos_services \<Rightarrow> py_str list \<Rightarrow> reset_env \<Rightarrow> unit result \<times> reset_env" where
  "stop_services cs [] s = (Inr (), s)"
| "stop_services cs (svc # svcs) s =
     (let (r, w1) = running_tasks cs svc (re_world s); s1 = s\<lparr>re_world := w1\<rparr>
      in case r of
           Inl e \<Rightarrow> (Inl e, s1)
         | Inr arns \<Rightarrow>
             let (r2, s2) = stop_tasks cs svc arns s1
             in case r2 of Inl e \<Rightarrow> (Inl e, s2) | Inr _ \<Rightarrow> stop_services cs svcs s2)"

text \<open>A heartbeat that is missing, empty or no number counts as 0.\<close>

definition hb_of :: "peer_row \<Rightarrow> int" where
  "hb_of r =
     (case pr_heartbeat_ts r of
        None \<Rightarrow> 0
      | Some v \<Rightarrow> if v = [] then 0 else case int_of_str v of Inl _ \<Rightarrow> 0 | Inr hb \<Rightarrow> hb)"

definition hb_fresh :: "real \<Rightarrow> peer_row \<Rightarrow> bool" where
  "hb_fresh t r \<longleftrightarrow> t - real_of_int (hb_of r) < 3"

fun quorum_scan :: "real \<Rightarrow> peer_row list \<Rightarrow> nat \<times> py_str option \<Rightarrow> nat \<times> py_str option" where
  "quorum_scan t [] acc = acc"
| "quorum_scan t (r # rs) (fresh, ldr) =
     quorum_scan t rs
       (if hb_fresh t r then (fresh + 1, if get_or (pr_is_leader r) False then pr_node_id r else ldr) else (fresh, ldr))"

definition reset_turn :: "chaos_services \<Rightarrow> nat \<Rightarrow> unit \<Rightarrow> world \<Rightarrow> (unit result + unit) \<times> world" where
  "reset_turn cs want _ w =
     (let (r, w1) = call (ps_scan (cs_peers cs)) w
      in case r of
           Inl e \<Rightarrow> (Inl (Inl e), w1)
         | Inr rows \<Rightarrow>
             let (t, w2) = now w1; (fresh, ldr) = quorum_scan t rows (0, None)
             in if want \<le> fresh \<and> ldr \<noteq> None then (Inl (Inr ()), w2) else (Inr (), sleep 5 w2))"

definition wait_for_quorum :: "chaos_services \<Rightarrow> nat \<Rightarrow> real \<Rightarrow> reset_env \<Rightarrow> (unit result \<times> reset_env) option" where
  "wait_for_quorum cs want ready_timeout_s s =
     (let (t, w1) = now (re_world s)
      in map_option
           (\<lambda>(out, w2).
              (case out of
                 Inl r \<Rightarrow> r
               | Inr _ \<Rightarrow> Inl (RuntimeError (''cluster did not reach quorum within '' @ fmt_fixed 1 ready_timeout_s @ ''s'')),
               s\<lparr>re_world := w2\<rparr>))
           (deadline_loop (t + ready_timeout_s) (reset_turn cs want) () w1))"

definition reset_cluster :: "reset_services \<Rightarrow> bench_config \<Rightarrow> real \<Rightarrow> reset_env \<Rightarrow> (unit result \<times> reset_env) option" where
  "reset_cluster sv cfg ready_timeout_s s =
     (let (r1, s1) = wipe_snapshots sv (rs_pages sv) s
      in case r1 of
           Inl e \<Rightarrow> Some (Inl e, s1)
         | Inr _ \<Rightarrow>
             let (r2, s2) = stop_services (rs_chaos sv) (bc_coordinator_services cfg) s1
             in case r2 of
                  Inl e \<Rightarrow> Some (Inl e, s2)
                | Inr _ \<Rightarrow> wait_for_quorum (rs_chaos sv) (length (bc_coordinator_services cfg)) ready_timeout_s s2)"

section \<open>Iterations and their summary\<close>

text \<open>One iteration; \<open>h\<close> is the history its run leaves, read only when the reset succeeded.\<close>

definition run_single_kill_iteration ::
  "reset_services \<Rightarrow> bench_config \<Rightarrow> reset_env \<Rightarrow> history \<Rightarrow> exp1_stats result option" where
  "run_single_kill_iteration sv cfg s h =
     map_option (\<lambda>(r, _). bind_res r (\<lambda>_. exp1_analyze h)) (reset_cluster sv cfg 240 s)"

definition iteration_name :: "py_str \<Rightarrow> int \<Rightarrow> py_str" where
  "iteration_name group_name i = group_name @ ''/iter-'' @ (if i < 10 then ''0'' else []) @ dec_int i"

record repeat_summary =
  rp_group :: py_str
  rp_iterations :: int
  successful_kills :: nat
  convergence_ms_samples :: "real list"
  rp_convergence_p50_ms :: real
  rp_convergence_p95_ms :: real
  rp_convergence_mean_ms :: real
  rp_convergence_max_ms :: real
  rp_convergence_min_ms :: real
  submitted_total :: int
  completed_total :: int
  lost_total :: int
  per_iteration :: "(py_str \<times> (py_str + exp1_stats)) list"

text \<open>\<open>for i in range(1, iterations + 1)\<close>; an exception of an iteration is kept as its text.\<close>

definition iteration_results :: "py_str \<Rightarrow> int \<Rightarrow> (int \<Rightarrow> exp1_stats result) \<Rightarrow> (py_str \<times> (py_str + exp1_stats)) list" where
  "iteration_results group_name iterations outcome =
     map (\<lambda>i. (iteration_name group_name i, map_sum error_text id (outcome i))) [1..iterations]"

definition ok_results :: "(py_str \<times> (py_str + exp1_stats)) list \<Rightarrow> exp1_stats list" where
  "ok_results results = List.map_filter (\<lambda>(_, r). case r of Inl _ \<Rightarrow> None | Inr st \<Rightarrow> Some st) results"

definition repeat_samples :: "(py_str \<times> (py_str + exp1_stats)) list \<Rightarrow> real list" where
  "repeat_samples results = map convergence_p50_ms (filter (\<lambda>st. 0 < convergence_samples st) (ok_results results))"

definition run_exp1_repeat :: "py_str \<Rightarrow> int \<Rightarrow> (int \<Rightarrow> exp1_stats result) \<Rightarrow> repeat_summary" where
  "run_exp1_repeat group_name iterations outcome =
     (let results = iteration_results group_name iterations outcome;
          samples = repeat_samples results
      in \<lparr>rp_group = group_name, rp_iterations = iterations, successful_kills = length samples,
          convergence_ms_samples = samples, rp_convergence_p50_ms = exp1_pct samples 50,
          rp_convergence_p95_ms = exp1_pct samples 95,
          rp_convergence_mean_ms = (if samples = [] then 0 else mean samples),
          rp_convergence_max_ms = (if samples = [] then 0 else fold max samples (hd samples)),
          rp_convergence_min_ms = (if samples = [] then 0 else fold min samples (hd samples)),
          submitted_total = (\<Sum>st \<leftarrow> ok_results results. int (submitted st)),
          completed_total = (\<Sum>st \<leftarrow> ok_results results. int (completed st)),
          lost_total = (\<Sum>st \<leftarrow> ok_results results. lost st),
          per_iteration = results\<rparr>)"

section \<open>Lemmas on the reset\<close>

text \<open>The last marked row among the fresh ones decides whether there is a leader.\<close>

definition fresh_leader :: "real \<Rightarrow> peer_row list \<Rightarrow> py_str option" where
  "fresh_leader t rows =
     (case filter (\<lambda>r. hb_fresh t r \<and> pr_is_leader r = Some True) rows of [] \<Rightarrow> None | rs \<Rightarrow> pr_node_id (last rs))"

definition quorum_visible :: "nat \<Rightarrow> real \<Rightarrow> peer_row list \<Rightarrow> bool" where
  "quorum_visible want t rows \<longleftrightarrow> want \<le> length (filter (hb_fresh t) rows) \<and> fresh_leader t rows \<noteq> None"

lemma quorum_scan_eq:
  "quorum_scan t rows (n, l) =
     (n + length (filter (hb_fresh t) rows),
      case filter (\<lambda>r. hb_fresh t r \<and> pr_is_leader r = Some True) rows of [] \<Rightarrow> l | rs \<Rightarrow> pr_node_id (last rs))"
  by (induction rows arbitrary: n l) (auto simp: get_or_def split: option.splits list.splits)

lemma reset_turn_eq:
  "reset_turn cs want u w =
     (case ps_scan (cs_peers cs) (w_k w) of
        Inl e \<Rightarrow> (Inl (Inl e), tick w)
      | Inr rows \<Rightarrow>
          if quorum_visible want (secs (tick (tick w))) rows then (Inl (Inr ()), tick (tick w))
          else (Inr (), sleep 5 (tick (tick w))))"
  by (simp add: reset_turn_def call_def now_def Let_def quorum_scan_eq quorum_visible_def fresh_leader_def split: sum.split)

interpretation reset: deadline_poll "reset_turn cs want" 5
proof unfold_locales
  show "secs w + 5 \<le> secs w'" if "reset_turn cs want s w = (Inr s', w')" for s w s' w'
    using that secs_sleep [of "tick (tick w)" 5] secs_tick [of w] secs_tick [of "tick w"]
    by (auto simp: reset_turn_eq simp del: secs_tick split: sum.splits if_splits)
qed simp

lemma wait_for_quorum_outcome:
  "\<exists>r w'. wait_for_quorum cs want timeout s = Some (r, s\<lparr>re_world := w'\<rparr>) \<and>
     (case r of
        Inr _ \<Rightarrow> \<exists>k rows t. ps_scan (cs_peers cs) k = Inr rows \<and> quorum_visible want t rows \<and>
          secs (re_world s) \<le> t \<and> t = secs w'
      | Inl e \<Rightarrow> (\<exists>k. ps_scan (cs_peers cs) k = Inl e) \<or> secs (re_world s) + timeout \<le> secs w')"
proof -
  let ?w = "tick (re_world s)"
  from reset.loop_returns obtain out w' where
    loop: "deadline_loop (secs ?w + timeout) (reset_turn cs want) () ?w = Some (out, w')" by fastforce
  have "case out of
      Inl (Inr _) \<Rightarrow> \<exists>k rows t. ps_scan (cs_peers cs) k = Inr rows \<and> quorum_visible want t rows \<and> secs (re_world s) \<le> t \<and> t = secs w'
    | Inl (Inl e) \<Rightarrow> \<exists>k. ps_scan (cs_peers cs) k = Inl e
    | Inr _ \<Rightarrow> secs (re_world s) + timeout \<le> secs w'"
  proof (rule deadline_loop_rule [OF loop, where I = "\<lambda>_ w. secs (re_world s) \<le> secs w" and Q = "\<lambda>out w'. case out of
      Inl (Inr _) \<Rightarrow> \<exists>k rows t. ps_scan (cs_peers cs) k = Inr rows \<and> quorum_visible want t rows \<and> secs (re_world s) \<le> t \<and> t = secs w'
    | Inl (Inl e) \<Rightarrow> \<exists>k. ps_scan (cs_peers cs) k = Inl e
    | Inr _ \<Rightarrow> secs (re_world s) + timeout \<le> secs w'"])
    fix u w r w'
    assume "secs (re_world s) \<le> secs w" "reset_turn cs want u w = (Inl r, w')"
    moreover from this have "secs (re_world s) \<le> secs (tick (tick w))" by (blast intro: order_trans [OF _ secs_tick])
    ultimately show "case Inl r :: unit result + unit of
        Inl (Inr _) \<Rightarrow> \<exists>k rows t. ps_scan (cs_peers cs) k = Inr rows \<and> quorum_visible want t rows \<and> secs (re_world s) \<le> t \<and> t = secs w'
      | Inl (Inl e) \<Rightarrow> \<exists>k. ps_scan (cs_peers cs) k = Inl e
      | Inr _ \<Rightarrow> secs (re_world s) + timeout \<le> secs w'"
      by (auto simp: reset_turn_eq split: sum.splits if_splits)
  next
    fix u w u' w'
    assume "secs (re_world s) \<le> secs w" "reset_turn cs want u w = (Inr u', w')"
    then show "secs (re_world s) \<le> secs w'" using reset.body_advances [of cs want u w u' w'] by linarith
  next
    show "secs (re_world s) \<le> secs ?w" by simp
    show "case Inr u :: unit result + unit of
        Inl (Inr _) \<Rightarrow> \<exists>k rows t. ps_scan (cs_peers cs) k = Inr rows \<and> quorum_visible want t rows \<and> secs (re_world s) \<le> t \<and> t = secs w
      | Inl (Inl e) \<Rightarrow> \<exists>k. ps_scan (cs_peers cs) k = Inl e
      | Inr _ \<Rightarrow> secs (re_world s) + timeout \<le> secs w" if "secs ?w + timeout \<le> secs w" for u w
      using that secs_tick [of "re_world s"] by (simp del: secs_tick)
  qed (blast intro: order_trans [OF _ secs_tick])
  with loop show ?thesis
    by (auto simp: wait_for_quorum_def now_def Let_def split: sum.splits)
qed

lemma wipe_snapshots_ok:
  "wipe_snapshots sv pages s = (Inr u, s') \<Longrightarrow>
     re_deleted s' = re_deleted s @ concat (map (\<lambda>p. get_or (projr p) []) pages) \<and> list_all (\<lambda>p. \<not> isl p) pages \<and>
     re_stopped s' = re_stopped s \<and> secs (re_world s) \<le> secs (re_world s')"
proof (induction pages arbitrary: s)
  case (Cons page pages)
  let ?w1 = "tick (re_world s)"
  from Cons.prems obtain contents where page: "page = Inr contents" by (auto simp: Let_def split: sum.splits)
  have "secs (re_world s) \<le> secs ?w1" "secs (re_world s) \<le> secs (tick ?w1)"
    by (simp, blast intro: order_trans [OF secs_tick secs_tick])
  then show ?case
    using Cons.prems Cons.IH [of "s\<lparr>re_world := ?w1\<rparr>"] Cons.IH [of "s\<lparr>re_deleted := re_deleted s @ get_or contents [], re_world := tick ?w1\<rparr>"]
    by (auto simp: page Let_def call_def simp del: secs_tick split: if_splits option.splits)
qed simp

lemma stop_tasks_ok:
  "stop_tasks cs svc arns s = (Inr u, s') \<Longrightarrow>
     re_stopped s' = re_stopped s @ map (Pair svc) arns \<and> re_deleted s' = re_deleted s \<and> secs (re_world s) \<le> secs (re_world s')"
proof (induction arns arbitrary: s)
  case (Cons a arns)
  let ?s1 = "s\<lparr>re_stopped := re_stopped s @ [(svc, a)], re_world := tick (re_world s)\<rparr>"
  from Cons.prems have "stop_tasks cs svc arns ?s1 = (Inr u, s')" by (simp add: Let_def call_def split: option.splits)
  from Cons.IH [OF this] secs_tick [of "re_world s"] show ?case by (simp del: secs_tick)
qed simp

lemma stop_services_ok:
  "stop_services cs svcs s = (Inr u, s') \<Longrightarrow>
     (\<exists>arnss. list_all2 (\<lambda>svc arns. \<exists>k. cs_list_tasks cs k svc = Inr arns) svcs arnss \<and>
        re_stopped s' = re_stopped s @ concat (map2 (\<lambda>svc arns. map (Pair svc) arns) svcs arnss)) \<and>
     re_deleted s' = re_deleted s \<and> secs (re_world s) \<le> secs (re_world s')"
proof (induction svcs arbitrary: s)
  case (Cons svc svcs)
  from Cons.prems obtain arns s2 where
    arns: "cs_list_tasks cs (w_k (re_world s)) svc = Inr arns" "stop_tasks cs svc arns (s\<lparr>re_world := tick (re_world s)\<rparr>) = (Inr (), s2)"
    and rest: "stop_services cs svcs s2 = (Inr u, s')"
    by (auto simp: running_tasks_def call_def Let_def split: sum.splits prod.splits)
  from Cons.IH [OF rest] obtain arnss where
    "list_all2 (\<lambda>svc arns. \<exists>k. cs_list_tasks cs k svc = Inr arns) svcs arnss"
    "re_stopped s' = re_stopped s2 @ concat (map2 (\<lambda>svc arns. map (Pair svc) arns) svcs arnss)"
    "re_deleted s' = re_deleted s2" "secs (re_world s2) \<le> secs (re_world s')" by blast
  with arns(1) stop_tasks_ok [OF arns(2)] secs_tick [of "re_world s"] show ?case
    by (intro conjI exI [of _ "arns # arnss"]) (auto simp del: secs_tick)
qed auto

text \<open>The exceptions the services can raise.\<close>

definition reset_errors :: "reset_services \<Rightarrow> py_error set" where
  "reset_errors sv = {e. Inl e \<in> set (rs_pages sv) \<or> (\<exists>k keys. rs_delete sv k keys = Some e) \<or>
     (\<exists>k svc. cs_list_tasks (rs_chaos sv) k svc = Inl e) \<or> (\<exists>k a. cs_stop_task (rs_chaos sv) k a = Some e) \<or>
     (\<exists>k. ps_scan (cs_peers (rs_chaos sv)) k = Inl e)}"

lemma wipe_snapshots_error:
  "wipe_snapshots sv pages s = (Inl e, s') \<Longrightarrow> Inl e \<in> set pages \<or> (\<exists>k keys. rs_delete sv k keys = Some e)"
  by (induction pages arbitrary: s) (auto simp: Let_def call_def split: sum.splits if_splits option.splits)

lemma stop_tasks_error: "stop_tasks cs svc arns s = (Inl e, s') \<Longrightarrow> \<exists>k a. cs_stop_task cs k a = Some e"
  by (induction arns arbitrary: s) (auto simp: Let_def call_def split: option.splits)

lemma stop_services_error:
  "stop_services cs svcs s = (Inl e, s') \<Longrightarrow> (\<exists>k svc. cs_list_tasks cs k svc = Inl e) \<or> (\<exists>k a. cs_stop_task cs k a = Some e)"
proof (induction svcs arbitrary: s)
  case (Cons svc svcs)
  then show ?case
    by (auto simp: running_tasks_def call_def Let_def split: sum.splits prod.splits dest: stop_tasks_error)
qed simp

section \<open>Lemmas on the summary\<close>

lemma ok_results_eq:
  "ok_results (iteration_results group_name n outcome) = concat (map (\<lambda>i. case outcome i of Inl _ \<Rightarrow> [] | Inr st \<Rightarrow> [st]) [1..n])"
proof -
  have "ok_results (map (\<lambda>i. (iteration_name group_name i, map_sum error_text id (outcome i))) idxs) =
     concat (map (\<lambda>i. case outcome i of Inl _ \<Rightarrow> [] | Inr st \<Rightarrow> [st]) idxs)" for idxs
    by (induction idxs) (auto simp: ok_results_def map_filter_simps split: sum.splits)
  then show ?thesis by (simp add: iteration_results_def)
qed

lemma length_iteration_results [simp]: "length (iteration_results group_name n outcome) = nat n"
  by (simp add: iteration_results_def)

lemma exp1_pct_single: "exp1_pct [x] p = x"
  by (simp add: exp1_pct_def round_index_def)

lemma tick4: "(tick ^^ 4) w = tick (tick (tick (tick w)))"
  by (simp add: numeral_eq_Suc)

section \<open>Properties\<close>


text \<open>
  C40: the reset may accept the old cluster.  If every row the first scan shows after the stops carries a
  heartbeat from before the reset began that is still less than three seconds old, and they were a quorum
  with a leader, the reset returns at once: it has then not seen any sign of a restarted coordinator.
\<close>

theorem reset_accepts_old_heartbeats:
  assumes "wipe_snapshots sv (rs_pages sv) s = (Inr (), s1)"
    and "stop_services (rs_chaos sv) (bc_coordinator_services cfg) s1 = (Inr (), s2)"
    and "ps_scan (cs_peers (rs_chaos sv)) (w_k (tick (tick (re_world s2)))) = Inr rows"
    and "length (bc_coordinator_services cfg) \<le> length rows"
    and "list_all (\<lambda>r. pr_node_id r \<noteq> None \<and> real_of_int (hb_of r) \<le> secs (re_world s) \<and>
           secs ((tick ^^ 4) (re_world s2)) < real_of_int (hb_of r) + 3) rows"
    and "list_ex (\<lambda>r. pr_is_leader r = Some True) rows" "3 \<le> timeout"
  shows "reset_cluster sv cfg timeout s = Some (Inr (), s2\<lparr>re_world := (tick ^^ 4) (re_world s2)\<rparr>)"
proof -
  let ?w = "re_world s2"
  have fresh: "list_all (\<lambda>r. hb_fresh (secs (tick (tick (tick (tick ?w))))) r) rows"
    using assms(5) by (auto simp: list_all_iff hb_fresh_def tick4)
  then have "filter (hb_fresh (secs (tick (tick (tick (tick ?w)))))) rows = rows" by (simp add: list_all_iff filter_id_conv)
  moreover have "fresh_leader (secs (tick (tick (tick (tick ?w))))) rows \<noteq> None"
  proof -
    let ?fs = "filter (\<lambda>r. hb_fresh (secs (tick (tick (tick (tick ?w))))) r \<and> pr_is_leader r = Some True) rows"
    have "?fs \<noteq> []" using assms(6) fresh by (auto simp: list_ex_iff list_all_iff filter_empty_conv)
    then have "last ?fs \<in> set rows" using last_in_set [of ?fs] by auto
    with assms(5) \<open>?fs \<noteq> []\<close> show ?thesis by (auto simp: fresh_leader_def list_all_iff split: list.split)
  qed
  ultimately have quorum: "quorum_visible (length (bc_coordinator_services cfg)) (secs (tick (tick (tick (tick ?w))))) rows"
    using assms(4) by (simp add: quorum_visible_def)
  obtain r where "r \<in> set rows" using assms(6) by (auto simp: list_ex_iff)
  with assms(5) have "secs (tick (tick (tick (tick ?w)))) < secs (re_world s) + 3" by (fastforce simp: list_all_iff tick4)
  moreover have "secs (re_world s) \<le> secs ?w"
    using wipe_snapshots_ok [OF assms(1)] stop_services_ok [OF assms(2)] by simp
  ultimately have "secs (tick (tick ?w)) < secs (tick ?w) + timeout"
    using secs_tick [of ?w] secs_tick [of "tick (tick ?w)"] secs_tick [of "tick (tick (tick ?w))"] assms(7) by linarith
  with assms(1-3) quorum show ?thesis
    by (simp add: reset_cluster_def wait_for_quorum_def now_def Let_def deadline_loop_unfold reset_turn_eq tick4)
qed

definition demo_reset :: reset_services where
  "demo_reset =
     \<lparr>rs_chaos = demo_kill_services\<lparr>cs_peers := \<lparr>ps_scan = (\<lambda>_. Inr
        [\<lparr>pr_node_id = Some ''coordinator-a'', pr_http_addr = None, pr_is_leader = Some True, pr_heartbeat_ts = Some ''99''\<rparr>,
         \<lparr>pr_node_id = Some ''coordinator-b'', pr_http_addr = None, pr_is_leader = Some False, pr_heartbeat_ts = Some ''98''\<rparr>]),
        ps_state = (\<lambda>_ _. Inr None)\<rparr>\<rparr>,
      rs_pages = [Inr (Some [''raft/snapshot'']), Inr None], rs_delete = (\<lambda>_ _. None)\<rparr>"

definition demo_reset_env :: reset_env where
  "demo_reset_env = \<lparr>re_deleted = [], re_stopped = [], re_world = \<lparr>w_ns = 100000000000, w_k = 0, w_delay = (\<lambda>_. 0)\<rparr>\<rparr>"

theorem reset_accepts_old_heartbeats_witness:
  "\<exists>s'. reset_cluster demo_reset demo_kill_config 240 demo_reset_env = Some (Inr (), s') \<and> length (re_stopped s') = 2"
proof -
  let ?w = "\<lambda>k. \<lparr>w_ns = 100000000000, w_k = k, w_delay = (\<lambda>_. 0)\<rparr>"
  let ?s1 = "\<lparr>re_deleted = [''raft/snapshot''], re_stopped = [], re_world = ?w 3\<rparr>"
  let ?s2 = "?s1\<lparr>re_stopped := [(''dev-coordinator-a'', ''dev-coordinator-a/task''), (''dev-coordinator-b'', ''dev-coordinator-b/task'')],
    re_world := ?w 7\<rparr>"
  let ?rows = "projr (ps_scan (cs_peers (rs_chaos demo_reset)) 0)"
  have num: "int_of_str ''99'' = Inr 99" "int_of_str ''98'' = Inr 98"
    by (simp_all add: int_of_str_def strip_def is_space_def unsigned_of_str_def is_digit_def nat_of_digits_def digit_val_def)
  have wipe: "wipe_snapshots demo_reset (rs_pages demo_reset) demo_reset_env = (Inr (), ?s1)"
    by (simp add: demo_reset_def demo_reset_env_def get_or_def call_def tick_def Let_def)
  have stop: "stop_services (rs_chaos demo_reset) (bc_coordinator_services demo_kill_config) ?s1 = (Inr (), ?s2)"
    by (simp add: demo_reset_def demo_kill_services_def demo_kill_config_def running_tasks_def call_def tick_def Let_def)
  have "reset_cluster demo_reset demo_kill_config 240 demo_reset_env = Some (Inr (), ?s2\<lparr>re_world := (tick ^^ 4) (re_world ?s2)\<rparr>)"
    by (rule reset_accepts_old_heartbeats [OF wipe stop, of ?rows])
      (simp_all add: demo_reset_def demo_kill_config_def demo_reset_env_def hb_of_def num secs_def tick4 tick_def)
  then show ?thesis by simp
qed

text \<open>
  The summary of repeated runs.  Let every iteration that succeeded be the analysis of a run with
  that iteration's threads, in any interleaving, its stop event set within two warm-ups.  Then the
  samples of the summary are, in order, the convergence times of the iterations, at most one each; the number
  of successful kills is their number; failed iterations are listed but contribute nothing; and
  minimum, median, 95th percentile and maximum are ordered, with the mean between the extremes.
\<close>

theorem repeat_summary_correct:
  assumes runs: "\<And>i st. 1 \<le> i \<Longrightarrow> i \<le> n \<Longrightarrow> outcome i = Inr st \<Longrightarrow>
      \<exists>h. interleaved (exp1_run_traces cfg (th i)) (events_of h) \<and> exp1_analyze h = Inr st"
    and timing: "\<And>i. 0 < rp_poll_interval_s (et_params (th i)) \<and>
      et_stop (th i) \<le> secs (et_kill_world (th i)) + 2 * et_period (th i)"
  shows "let sm = run_exp1_repeat group_name n outcome;
       samples = concat (map (\<lambda>i. case outcome i of Inl _ \<Rightarrow> [] | Inr _ \<Rightarrow> run_samples cfg (th i)) [1..n])
     in convergence_ms_samples sm = samples \<and> successful_kills sm = length samples \<and> length samples \<le> nat n \<and>
        length (per_iteration sm) = nat n \<and>
        lost_total sm = (\<Sum>i \<leftarrow> [1..n]. case outcome i of Inl _ \<Rightarrow> 0 | Inr st \<Rightarrow> lost st) \<and>
        (samples \<noteq> [] \<longrightarrow>
           rp_convergence_min_ms sm = Min (set samples) \<and> rp_convergence_max_ms sm = Max (set samples) \<and>
           rp_convergence_min_ms sm \<le> rp_convergence_p50_ms sm \<and> rp_convergence_p50_ms sm \<le> rp_convergence_p95_ms sm \<and>
           rp_convergence_p95_ms sm \<le> rp_convergence_max_ms sm \<and>
           rp_convergence_min_ms sm \<le> rp_convergence_mean_ms sm \<and> rp_convergence_mean_ms sm \<le> rp_convergence_max_ms sm)"
proof -
  let ?iter = "\<lambda>i. case outcome i of Inl _ \<Rightarrow> [] | Inr _ \<Rightarrow> run_samples cfg (th i)"
  let ?samples = "concat (map ?iter [1..n])"
  have one: "map convergence_p50_ms (filter (\<lambda>st. 0 < convergence_samples st) (case outcome i of Inl _ \<Rightarrow> [] | Inr st \<Rightarrow> [st])) = ?iter i \<and>
      length (?iter i) \<le> 1" if "i \<in> set [1..n]" for i
  proof (cases "outcome i")
    case (Inr st)
    with runs that obtain h where h: "interleaved (exp1_run_traces cfg (th i)) (events_of h)" "exp1_analyze h = Inr st" by auto
    have short: "length (run_samples cfg (th i)) \<le> 1" using run_samples_single timing by blast
    from exp1_run_stats [OF _ h(1)] timing h(2)
    have "convergence_samples st = length (run_samples cfg (th i))" "convergence_p50_ms st = exp1_pct (run_samples cfg (th i)) 50" by auto
    with short Inr show ?thesis by (cases "run_samples cfg (th i)") (auto simp: exp1_pct_single)
  qed simp
  have samples: "repeat_samples (iteration_results group_name n outcome) = ?samples"
    using one by (auto simp: repeat_samples_def ok_results_eq filter_concat map_concat comp_def intro!: arg_cong [where f = concat] map_cong)
  have "length (concat (map ?iter js)) \<le> length js" if "\<And>j. j \<in> set js \<Longrightarrow> length (?iter j) \<le> 1" for js
    using that by (induction js) (simp, force)
  from this [of "[1..n]"] one have len: "length ?samples \<le> nat n" by simp
  have lost: "(\<Sum>st \<leftarrow> concat (map (\<lambda>i. case outcome i of Inl _ \<Rightarrow> [] | Inr st \<Rightarrow> [st]) js). lost st) =
      (\<Sum>i \<leftarrow> js. case outcome i of Inl _ \<Rightarrow> 0 | Inr st \<Rightarrow> lost st)" for js
    by (induction js) (auto split: sum.splits)
  have ext: "fold max xs (hd xs) = Max (set xs) \<and> fold min xs (hd xs) = Min (set xs)" if "xs \<noteq> []" for xs :: "real list"
    using that by (simp add: fold_max_Max fold_min_Min)
  define samples where "samples = ?samples"
  have fields: "convergence_ms_samples (run_exp1_repeat group_name n outcome) = samples"
    "successful_kills (run_exp1_repeat group_name n outcome) = length samples"
    "length (per_iteration (run_exp1_repeat group_name n outcome)) = nat n"
    "lost_total (run_exp1_repeat group_name n outcome) = (\<Sum>i \<leftarrow> [1..n]. case outcome i of Inl _ \<Rightarrow> 0 | Inr st \<Rightarrow> lost st)"
    by (simp_all add: run_exp1_repeat_def Let_def samples samples_def ok_results_eq lost)
  have figures: "rp_convergence_min_ms (run_exp1_repeat group_name n outcome) = Min (set samples)"
    "rp_convergence_max_ms (run_exp1_repeat group_name n outcome) = Max (set samples)"
    "rp_convergence_p50_ms (run_exp1_repeat group_name n outcome) = exp1_pct samples 50"
    "rp_convergence_p95_ms (run_exp1_repeat group_name n outcome) = exp1_pct samples 95"
    "rp_convergence_mean_ms (run_exp1_repeat group_name n outcome) = mean samples" if "samples \<noteq> []"
    using that ext [OF that] by (simp_all add: run_exp1_repeat_def Let_def samples flip: samples_def)
  show ?thesis
    unfolding Let_def samples_def [symmetric]
    using fields figures len [folded samples_def] exp1_pct_order [of samples] mean_bounds [of samples] by simp
qed

theorem repeat_summary_correct_witness:
  "let sm = run_exp1_repeat ''g'' 2 (\<lambda>i. if i = 1 then exp1_analyze demo_run_history else Inl (RuntimeError ''no quorum''))
   in convergence_ms_samples sm = [4000] \<and> successful_kills sm = 1 \<and> length (per_iteration sm) = 2"
proof -
  let ?outcome = "\<lambda>i :: int. if i = 1 then exp1_analyze demo_run_history else Inl (RuntimeError ''no quorum'')"
  have ok: "\<exists>st. exp1_analyze demo_run_history = Inr st"
    using exp1_run_stats [OF _ demo_run_interleaved] by (auto simp: demo_threads_def demo_params_def)
  have one: "{t. t = 5000000000 \<and> 1000000000 < t} = {5000000000 :: int}" by auto
  have "run_samples demo_kill_config demo_threads = [4000]"
    by (simp add: run_samples_def expected_samples_def demo_kills demo_leaders one)
  moreover have "0 < rp_poll_interval_s (et_params demo_threads) \<and>
      et_stop demo_threads \<le> secs (et_kill_world demo_threads) + 2 * et_period demo_threads"
    by (simp add: demo_threads_def demo_params_def secs_def)
  moreover have "[1..2] = [1, 2 :: int]" by (simp add: upto_rec1)
  moreover have "\<exists>h. interleaved (exp1_run_traces demo_kill_config demo_threads) (events_of h) \<and> exp1_analyze h = Inr st"
    if "?outcome i = Inr st" for i st
    using that demo_run_interleaved by (auto split: if_splits)
  ultimately show ?thesis
    using repeat_summary_correct [of 2 ?outcome demo_kill_config "\<lambda>_. demo_threads" "''g''"] ok by (auto simp: Let_def)
qed

end
