(* ===== verification/Py_Regex.thy ===== *)
theory Py_Regex
  imports Py_Strings
begin

text \<open>
  The part of Python's \<open>re\<close> that the log readers use: literals, greedy and lazy repetition of a
  character class, named groups and sequences.  A backtracking matcher tries its alternatives in a
  fixed order; \<open>matches\<close> lists all ways to match a prefix in that order, each with the groups it
  captured and the rest of the text, and \<open>search\<close> takes the first one at the leftmost position that
  has any.  Character classes are those of ASCII text.
\<close>

datatype rx =
    Lit py_str
  | Greedy0 "char \<Rightarrow> bool"
  | Greedy1 "char \<Rightarrow> bool"
  | Lazy0 "char \<Rightarrow> bool"
  | Group py_str rx
  | Seq rx rx

type_synonym groups = "(py_str, py_str) pydict"

definition span :: "(char \<Rightarrow> bool) \<Rightarrow> py_str \<Rightarrow> nat" where
  "span P s = length (takeWhile P s)"

primrec matches :: "rx \<Rightarrow> py_str \<Rightarrow> (groups \<times> py_str) list" where
  "matches (Lit l) s = (if startswith s l then [([], drop (length l) s)] else [])"
| "matches (Greedy0 P) s = map (\<lambda>n. ([], drop n s)) (rev [0 ..< Suc (span P s)])"
| "matches (Greedy1 P) s = map (\<lambda>n. ([], drop n s)) (rev [1 ..< Suc (span P s)])"
| "matches (Lazy0 P) s = map (\<lambda>n. ([], drop n s)) [0 ..< Suc (span P s)]"
| "matches (Group name r) s = map (\<lambda>(g, t). (g @ [(name, take (length s - length t) s)], t)) (matches r s)"
| "matches (Seq a b) s = concat (map (\<lambda>(g, t). map (\<lambda>(g', t'). (g @ g', t')) (matches b t)) (matches a s))"

fun search :: "rx \<Rightarrow> py_str \<Rightarrow> groups option" where
  "search r [] = (case matches r [] of [] \<Rightarrow> None | m # _ \<Rightarrow> Some (fst m))"
| "search r (c # s) = (case matches r (c # s) of [] \<Rightarrow> search r s | m # _ \<Rightarrow> Some (fst m))"

definition is_word :: "char \<Rightarrow> bool" where
  "is_word c \<longleftrightarrow> is_digit c \<or> (CHR ''a'' \<le> c \<and> c \<le> CHR ''z'') \<or> (CHR ''A'' \<le> c \<and> c \<le> CHR ''Z'') \<or> c = CHR ''_''"

definition not_newline :: "char \<Rightarrow> bool" where
  "not_newline c \<longleftrightarrow> c \<noteq> CHR 0x0A"

section \<open>Laws\<close>

lemma search_skip: "matches r (c # s) = [] \<Longrightarrow> search r (c # s) = search r s"
  by simp

lemma search_here: "matches r s = m # ms \<Longrightarrow> search r s = Some (fst m)"
  by (cases s) simp_all

text \<open>A pattern that begins with a literal matches only where that literal occurs.\<close>

lemma search_needs_literal: "\<not> contains s l \<Longrightarrow> search (Seq (Lit l) r) s = None"
proof (induction s)
  case Nil
  then have "\<not> startswith [] l" by (auto simp: contains_iff startswith_iff)
  then show ?case by simp
next
  case (Cons c s)
  from Cons.prems have "\<not> contains s l" "\<not> startswith (c # s) l"
    by (auto simp: contains_iff startswith_iff) (metis append_Cons, metis append_Nil)
  with Cons.IH show ?case by simp
qed

text \<open>The match starts at the first place where the leading literal occurs, if the pattern matches there.\<close>

lemma search_after:
  assumes "\<And>i. i < length pre \<Longrightarrow> \<not> startswith (drop i (pre @ s)) l" "matches (Seq (Lit l) r) s = m # ms"
  shows "search (Seq (Lit l) r) (pre @ s) = Some (fst m)"
  using assms(1)
proof (induction pre)
  case Nil
  with assms(2) show ?case using search_here by simp
next
  case (Cons c pre)
  from Cons.prems [of 0] have "\<not> startswith (c # pre @ s) l" by simp
  moreover have "\<not> startswith (drop i (pre @ s)) l" if "i < length pre" for i
    using Cons.prems [of "Suc i"] that by simp
  ultimately show ?case using Cons.IH by simp
qed

lemma span_append: "list_all P d \<Longrightarrow> (s = [] \<or> \<not> P (hd s)) \<Longrightarrow> span P (d @ s) = length d"
  by (induction d) (auto simp: span_def takeWhile_eq_Nil_iff)

lemma greedy_head:
  assumes "list_all P d" "s = [] \<or> \<not> P (hd s)" "d \<noteq> []"
  shows "\<exists>ms. matches (Greedy1 P) (d @ s) = ([], s) # ms"
proof -
  have "rev [1 ..< Suc (span P (d @ s))] = length d # rev [1 ..< length d]"
    using assms(3) by (simp add: span_append [OF assms(1,2)] Suc_le_eq)
  then show ?thesis by simp
qed

lemma greedy0_none: "s = [] \<or> \<not> P (hd s) \<Longrightarrow> matches (Greedy0 P) s = [([], s)]"
  using span_append [of P "[]" s] by (auto simp: span_def)

text \<open>Text without the literal's first character is skipped.\<close>

lemma search_skip_chunk:
  "c \<notin> set u \<Longrightarrow> search (Seq (Lit (c # l)) r) (u @ s) = search (Seq (Lit (c # l)) r) s"
proof (induction u)
  case (Cons d u)
  then have "matches (Seq (Lit (c # l)) r) (d # u @ s) = []" by auto
  with Cons show ?case by (simp del: matches.simps)
qed simp

lemma matches_Lit [simp]: "matches (Lit l) (l @ s) = [([], s)]"
  by (simp add: startswith_iff)

lemma matches_Seq_one: "matches a s = [([], t)] \<Longrightarrow> matches (Seq a b) s = matches b t"
  by (simp add: case_prod_unfold)

end
