(* ===== verification/Recovery.thy ===== *)
theory Recovery
  imports Py_Regex World
begin

text \<open>
  \<open>chaos-bench/follower_recovery.py\<close>: reconstructing a follower's recovery from CloudWatch logs.  The
  log service is a parameter; a result \<open>None\<close> means that the code does not return, which happens only
  if the service hands out page tokens forever.
\<close>

section \<open>Paging through log events\<close>

record log_event =
  le_timestamp :: int
  le_message :: "py_str option"

text \<open>\<open>filter_log_events\<close> for a stream prefix, a start time and a pattern; the token is that of the page before.\<close>

record log_query =
  lq_prefix :: py_str
  lq_start_ms :: int
  lq_pattern :: py_str

type_synonym log_service = "nat \<Rightarrow> log_query \<Rightarrow> py_str option \<Rightarrow> (log_event list \<times> py_str option) result"

definition message_of :: "log_event \<Rightarrow> py_str" where
  "message_of ev = get_or (le_message ev) []"

text \<open>The loop over a generator's events; a visitor says whether the loop is left with \<open>break\<close>.\<close>

fun visit_events :: "(log_event \<Rightarrow> 's \<Rightarrow> 's \<times> bool) \<Rightarrow> log_event list \<Rightarrow> 's \<Rightarrow> 's \<times> bool" where
  "visit_events visit [] s = (s, False)"
| "visit_events visit (ev # evs) s =
     (let (s', brk) = visit ev s in if brk then (s', True) else visit_events visit evs s')"

partial_function (option) each_event ::
  "log_service \<Rightarrow> log_query \<Rightarrow> (log_event \<Rightarrow> 's \<Rightarrow> 's \<times> bool) \<Rightarrow> py_str option \<Rightarrow> 's \<Rightarrow> world \<Rightarrow> ('s result \<times> world) option" where
  "each_event logs q visit token s w =
     (let (r, w1) = call (\<lambda>k. logs k q token) w
      in case r of
           Inl e \<Rightarrow> Some (Inl e, w1)
         | Inr (evs, next_token) \<Rightarrow>
             let (s', brk) = visit_events visit evs s
             in if brk \<or> next_token = None \<or> next_token = Some [] then Some (Inr s', w1)
                else each_event logs q visit next_token s' w1)"

text \<open>Following the page tokens of a query comes to an end: an error, or a page without a token.\<close>

fun pages_within :: "log_service \<Rightarrow> log_query \<Rightarrow> nat \<Rightarrow> py_str option \<Rightarrow> nat \<Rightarrow> bool" where
  "pages_within logs q 0 token k = False"
| "pages_within logs q (Suc n) token k =
     (case logs k q token of
        Inl e \<Rightarrow> True
      | Inr (evs, next_token) \<Rightarrow>
          next_token = None \<or> next_token = Some [] \<or> pages_within logs q n next_token (Suc k))"

definition pages_end :: "log_service \<Rightarrow> bool" where
  "pages_end logs \<longleftrightarrow> (\<forall>q k. \<exists>n. pages_within logs q n None k)"

text \<open>The events a query can return.\<close>

definition logged :: "log_service \<Rightarrow> log_query \<Rightarrow> log_event \<Rightarrow> bool" where
  "logged logs q ev \<longleftrightarrow> (\<exists>k token evs next_token. logs k q token = Inr (evs, next_token) \<and> ev \<in> set evs)"

lemma each_event_unfold:
  "each_event logs q visit token s w =
     (case logs (w_k w) q token of
        Inl e \<Rightarrow> Some (Inl e, tick w)
      | Inr (evs, next_token) \<Rightarrow>
          let (s', brk) = visit_events visit evs s
          in if brk \<or> next_token = None \<or> next_token = Some [] then Some (Inr s', tick w)
             else each_event logs q visit next_token s' (tick w))"
  by (subst each_event.simps) (simp add: call_def Let_def)

lemma visit_events_inv:
  assumes "\<And>ev s. ev \<in> set evs \<Longrightarrow> J s \<Longrightarrow> (case visit ev s of (s', brk) \<Rightarrow> if brk then I s' else J s')" "J s"
  shows "case visit_events visit evs s of (s', brk) \<Rightarrow> if brk then I s' else J s'"
  using assms
proof (induction evs arbitrary: s)
  case (Cons ev evs)
  obtain s' brk where v: "visit ev s = (s', brk)" by fastforce
  have "if brk then I s' else J s'" using Cons.prems(1) [of ev s] Cons.prems(2) v by simp
  with Cons.IH [of s'] Cons.prems(1) v show ?case by (cases brk) simp_all
qed simp

text \<open>
  If the pages end, so does the loop, no earlier than it began; an error is one the service
  reported.  \<open>J\<close> holds between the visits, \<open>I\<close> at the end.
\<close>

lemma each_event_returns:
  assumes "pages_within logs q n token (w_k w)" "J s"
    and step: "\<And>ev s. logged logs q ev \<Longrightarrow> J s \<Longrightarrow> (case visit ev s of (s', brk) \<Rightarrow> if brk then I s' else J s')"
    and weaken: "\<And>s. J s \<Longrightarrow> I s"
  shows "\<exists>r w'. each_event logs q visit token s w = Some (r, w') \<and> secs w \<le> secs w' \<and>
     (case r of Inl e \<Rightarrow> (\<exists>k t. logs k q t = Inl e) | Inr s' \<Rightarrow> I s')"
  using assms(1,2)
proof (induction n arbitrary: token s w)
  case (Suc n)
  show ?case
  proof (cases "logs (w_k w) q token")
    case (Inl e)
    then have "each_event logs q visit token s w = Some (Inl e, tick w)" by (subst each_event_unfold) simp
    with Inl show ?thesis by auto
  next
    case (Inr p)
    obtain evs nt where p: "p = (evs, nt)" by fastforce
    obtain s' brk where v: "visit_events visit evs s = (s', brk)" by fastforce
    have "logged logs q ev" if "ev \<in> set evs" for ev using that Inr p by (auto simp: logged_def)
    with visit_events_inv [where evs = evs and J = J and I = I and visit = visit and s = s] step Suc.prems(2) v have inv: "if brk then I s' else J s'" by simp
    show ?thesis
    proof (cases "brk \<or> nt = None \<or> nt = Some []")
      case True
      with Inr p v have "each_event logs q visit token s w = Some (Inr s', tick w)"
        by (subst each_event_unfold) simp
      with inv weaken show ?thesis by (auto split: if_splits)
    next
      case False
      with Inr p v have unf: "each_event logs q visit token s w = each_event logs q visit nt s' (tick w)"
        by (subst each_event_unfold) auto
      have "pages_within logs q n nt (w_k (tick w))" using Suc.prems(1) Inr p False by (auto simp: tick_def)
      with Suc.IH [of nt "tick w" s'] False inv order_trans [OF secs_tick] show ?thesis unfolding unf by fastforce
    qed
  qed
qed simp

section \<open>Recovery timeline\<close>

definition RAFT_TICK_RE :: rx where
  "RAFT_TICK_RE =
     Seq (Lit ''role='') (Seq (Group ''role'' (Greedy1 is_word)) (Seq (Lazy0 not_newline)
       (Seq (Lit ''commit_index='') (Seq (Group ''commit'' (Greedy1 is_digit)) (Seq (Lazy0 not_newline)
         (Seq (Lit ''last_applied='') (Group ''applied'' (Greedy1 is_digit))))))))"

definition SNAPSHOT_RESTORED_RE :: rx where
  "SNAPSHOT_RESTORED_RE = Seq (Lit ''last_included_index='') (Group ''idx'' (Greedy1 is_digit))"

text \<open>\<open>int(m.group(name))\<close> for a group of digits.\<close>

definition group_int :: "py_str \<Rightarrow> groups \<Rightarrow> int" where
  "group_int name g = int (nat_of_digits (dget_default g name []))"

record recovery_timeline =
  rt_node_id :: py_str
  rt_killed_ns :: int
  rt_leader_commit_at_kill :: int
  restart_ns :: "int option"
  snapshot_restored_ns :: "int option"
  snapshot_last_index :: "int option"
  catchup_ns :: "int option"
  final_commit_index :: "int option"

definition elapsed_ms :: "recovery_timeline \<Rightarrow> int option \<Rightarrow> real option" where
  "elapsed_ms tml end_ns = map_option (\<lambda>t. real_of_int (t - rt_killed_ns tml) / 1000000) end_ns"

record recovery_dict =
  rd_restart_ms :: "real option"
  rd_snapshot_restored_ms :: "real option"
  rd_snapshot_last_index :: "int option"
  rd_catchup_ms :: "real option"
  rd_final_commit_index :: "int option"
  rd_used_snapshot :: bool

definition timeline_to_dict :: "recovery_timeline \<Rightarrow> recovery_dict" where
  "timeline_to_dict tml =
     \<lparr>rd_restart_ms = elapsed_ms tml (restart_ns tml), rd_snapshot_restored_ms = elapsed_ms tml (snapshot_restored_ns tml),
      rd_snapshot_last_index = snapshot_last_index tml, rd_catchup_ms = elapsed_ms tml (catchup_ns tml),
      rd_final_commit_index = final_commit_index tml, rd_used_snapshot = (snapshot_restored_ns tml \<noteq> None)\<rparr>"

record recovery_observer =
  ro_node_id :: py_str
  ro_killed_ns :: int
  ro_leader_commit :: int
  ro_tol :: int

definition event_ns :: "log_event \<Rightarrow> int" where
  "event_ns ev = le_timestamp ev * 1000000"

definition restart_visit :: "recovery_observer \<Rightarrow> log_event \<Rightarrow> recovery_timeline \<Rightarrow> recovery_timeline \<times> bool" where
  "restart_visit ro ev tml =
     (if ro_killed_ns ro < event_ns ev then (tml\<lparr>restart_ns := Some (event_ns ev)\<rparr>, True) else (tml, False))"

definition snapshot_visit :: "recovery_observer \<Rightarrow> log_event \<Rightarrow> recovery_timeline \<Rightarrow> recovery_timeline \<times> bool" where
  "snapshot_visit ro ev tml =
     (if ro_killed_ns ro < event_ns ev then
        let tml1 = tml\<lparr>snapshot_restored_ns := Some (event_ns ev)\<rparr>
        in (case search SNAPSHOT_RESTORED_RE (message_of ev) of
              None \<Rightarrow> tml1
            | Some g \<Rightarrow> tml1\<lparr>snapshot_last_index := Some (group_int ''idx'' g)\<rparr>, True)
      else (tml, False))"

definition catchup_target :: "recovery_observer \<Rightarrow> int" where
  "catchup_target ro = max 0 (ro_leader_commit ro - ro_tol ro)"

definition tick_visit :: "recovery_observer \<Rightarrow> log_event \<Rightarrow> recovery_timeline \<Rightarrow> recovery_timeline \<times> bool" where
  "tick_visit ro ev tml =
     (if event_ns ev \<le> ro_killed_ns ro then (tml, False)
      else case search RAFT_TICK_RE (message_of ev) of
             None \<Rightarrow> (tml, False)
           | Some g \<Rightarrow>
               let ci = group_int ''commit'' g; tml1 = tml\<lparr>final_commit_index := Some ci\<rparr>
               in if catchup_target ro \<le> ci then (tml1\<lparr>catchup_ns := Some (event_ns ev)\<rparr>, True) else (tml1, False))"

text \<open>A stage runs only while its milestone is missing.\<close>

definition recovery_query :: "recovery_observer \<Rightarrow> py_str \<Rightarrow> log_query" where
  "recovery_query ro pattern = \<lparr>lq_prefix = ro_node_id ro, lq_start_ms = ro_killed_ns ro div 1000000 - 1000, lq_pattern = pattern\<rparr>"

definition stage ::
  "log_service \<Rightarrow> recovery_observer \<Rightarrow> (recovery_timeline \<Rightarrow> int option) \<Rightarrow> py_str \<Rightarrow>
   (recovery_observer \<Rightarrow> log_event \<Rightarrow> recovery_timeline \<Rightarrow> recovery_timeline \<times> bool) \<Rightarrow>
   recovery_timeline \<Rightarrow> world \<Rightarrow> (recovery_timeline result \<times> world) option" where
  "stage logs ro milestone pattern visit tml w =
     (if milestone tml = None then each_event logs (recovery_query ro pattern) (visit ro) None tml w else Some (Inr tml, w))"

definition then_stage ::
  "('a result \<times> 's) option \<Rightarrow> ('a \<Rightarrow> 's \<Rightarrow> ('b result \<times> 's) option) \<Rightarrow> ('b result \<times> 's) option" where
  "then_stage m f = (case m of None \<Rightarrow> None | Some (Inl e, w) \<Rightarrow> Some (Inl e, w) | Some (Inr x, w) \<Rightarrow> f x w)"

definition recovery_stages :: "log_service \<Rightarrow> recovery_observer \<Rightarrow> recovery_timeline \<Rightarrow> world \<Rightarrow> (recovery_timeline result \<times> world) option" where
  "recovery_stages logs ro tml w =
     then_stage (then_stage
       (stage logs ro restart_ns ''\"coordinator started\"'' restart_visit tml w)
       (stage logs ro snapshot_restored_ns ''\"snapshot restored\"'' snapshot_visit))
       (stage logs ro catchup_ns ''\"raft tick\"'' tick_visit)"

text \<open>
  One turn of the loop; \<open>Inl None\<close> stands for a turn that does not return.
\<close>

definition recovery_turn ::
  "log_service \<Rightarrow> recovery_observer \<Rightarrow> real \<Rightarrow> recovery_timeline \<Rightarrow> world \<Rightarrow> ((recovery_timeline result option) + recovery_timeline) \<times> world" where
  "recovery_turn logs ro interval tml w =
     (case recovery_stages logs ro tml w of
        None \<Rightarrow> (Inl None, w)
      | Some (Inl e, w1) \<Rightarrow> (Inl (Some (Inl e)), w1)
      | Some (Inr tml1, w1) \<Rightarrow>
          if restart_ns tml1 \<noteq> None \<and> catchup_ns tml1 \<noteq> None then (Inl (Some (Inr tml1)), w1)
          else (Inr tml1, sleep interval w1))"

definition timeline_start :: "recovery_observer \<Rightarrow> recovery_timeline" where
  "timeline_start ro =
     \<lparr>rt_node_id = ro_node_id ro, rt_killed_ns = ro_killed_ns ro, rt_leader_commit_at_kill = ro_leader_commit ro,
      restart_ns = None, snapshot_restored_ns = None, snapshot_last_index = None, catchup_ns = None, final_commit_index = None\<rparr>"

definition observe_recovery ::
  "log_service \<Rightarrow> recovery_observer \<Rightarrow> real \<Rightarrow> real \<Rightarrow> world \<Rightarrow> (recovery_timeline result \<times> world) option" where
  "observe_recovery logs ro timeout_s interval w =
     (let (t, w1) = now w
      in case deadline_loop (t + timeout_s) (recovery_turn logs ro interval) (timeline_start ro) w1 of
           None \<Rightarrow> None
         | Some (Inl None, _) \<Rightarrow> None
         | Some (Inl (Some r), w2) \<Rightarrow> Some (r, w2)
         | Some (Inr tml, w2) \<Rightarrow> Some (Inr tml, w2))"

section \<open>Lemmas\<close>

definition started_query :: "recovery_observer \<Rightarrow> log_query" where
  "started_query ro = recovery_query ro ''\"coordinator started\"''"

definition restored_query :: "recovery_observer \<Rightarrow> log_query" where
  "restored_query ro = recovery_query ro ''\"snapshot restored\"''"

definition tick_query :: "recovery_observer \<Rightarrow> log_query" where
  "tick_query ro = recovery_query ro ''\"raft tick\"''"

text \<open>
  \<open>seen\<close>: a logged event after the kill.  \<open>tick_commit\<close>: one whose text the tick pattern matches with this
  commit index.
\<close>

definition seen :: "log_service \<Rightarrow> recovery_observer \<Rightarrow> log_query \<Rightarrow> int \<Rightarrow> bool" where
  "seen logs ro q t \<longleftrightarrow> ro_killed_ns ro < t \<and> (\<exists>ev. logged logs q ev \<and> event_ns ev = t)"

definition tick_commit :: "log_service \<Rightarrow> recovery_observer \<Rightarrow> int \<Rightarrow> int \<Rightarrow> bool" where
  "tick_commit logs ro t ci \<longleftrightarrow>
     ro_killed_ns ro < t \<and>
     (\<exists>ev g. logged logs (tick_query ro) ev \<and> event_ns ev = t \<and> search RAFT_TICK_RE (message_of ev) = Some g \<and>
        group_int ''commit'' g = ci)"

definition timeline_ok :: "log_service \<Rightarrow> recovery_observer \<Rightarrow> recovery_timeline \<Rightarrow> bool" where
  "timeline_ok logs ro tml \<longleftrightarrow>
     rt_node_id tml = ro_node_id ro \<and> rt_killed_ns tml = ro_killed_ns ro \<and> rt_leader_commit_at_kill tml = ro_leader_commit ro \<and>
     pred_option (seen logs ro (started_query ro)) (restart_ns tml) \<and>
     pred_option (seen logs ro (restored_query ro)) (snapshot_restored_ns tml) \<and>
     pred_option (\<lambda>ci. \<exists>t. tick_commit logs ro t ci) (final_commit_index tml) \<and>
     pred_option (\<lambda>t. \<exists>ci. tick_commit logs ro t ci \<and> final_commit_index tml = Some ci \<and> catchup_target ro \<le> ci) (catchup_ns tml)"

lemma timeline_start_ok: "timeline_ok logs ro (timeline_start ro)"
  by (simp add: timeline_ok_def timeline_start_def)

lemma restart_visit_ok:
  "logged logs (started_query ro) ev \<Longrightarrow> timeline_ok logs ro tml \<Longrightarrow> timeline_ok logs ro (fst (restart_visit ro ev tml))"
  by (auto simp: restart_visit_def timeline_ok_def seen_def)

lemma snapshot_visit_ok:
  "logged logs (restored_query ro) ev \<Longrightarrow> timeline_ok logs ro tml \<Longrightarrow> timeline_ok logs ro (fst (snapshot_visit ro ev tml))"
  by (auto simp: snapshot_visit_def timeline_ok_def seen_def Let_def split: option.split)

lemma tick_visit_ok:
  assumes "logged logs (tick_query ro) ev" "timeline_ok logs ro tml" "catchup_ns tml = None"
  shows "case tick_visit ro ev tml of (tml', brk) \<Rightarrow> timeline_ok logs ro tml' \<and> (brk \<or> catchup_ns tml' = None)"
proof (cases "event_ns ev \<le> ro_killed_ns ro \<or> search RAFT_TICK_RE (message_of ev) = None")
  case True
  with assms(2,3) show ?thesis by (auto simp: tick_visit_def)
next
  case False
  then obtain g where g: "search RAFT_TICK_RE (message_of ev) = Some g" and after: "ro_killed_ns ro < event_ns ev" by auto
  have "tick_commit logs ro (event_ns ev) (group_int ''commit'' g)"
    using assms(1) g after by (auto simp: tick_commit_def)
  with assms(2,3) g after show ?thesis by (auto simp: tick_visit_def timeline_ok_def Let_def)
qed

lemma each_event_time:
  assumes "pages_end logs" "each_event logs q visit None s w = Some (r, w')"
  shows "secs w \<le> secs w'"
proof -
  from assms(1) obtain n where n: "pages_within logs q n None (w_k w)" unfolding pages_end_def by blast
  have "\<exists>r w'. each_event logs q visit None s w = Some (r, w') \<and> secs w \<le> secs w' \<and>
     (case r of Inl e \<Rightarrow> (\<exists>k t. logs k q t = Inl e) | Inr s' \<Rightarrow> True)"
    using n by (rule each_event_returns [where J = "\<lambda>_. True"]) (auto split: prod.split)
  with assms(2) show ?thesis by auto
qed

lemma stage_time:
  "pages_end logs \<Longrightarrow> stage logs ro milestone pattern visit tml w = Some (r, w') \<Longrightarrow> secs w \<le> secs w'"
  by (auto simp: stage_def dest: each_event_time split: if_splits)

lemma then_stage_time:
  assumes "then_stage m f = Some (r, w')" "\<And>r w1. m = Some (r, w1) \<Longrightarrow> secs w \<le> secs w1"
    and "\<And>x w1 r w2. f x w1 = Some (r, w2) \<Longrightarrow> secs w1 \<le> secs w2"
  shows "secs w \<le> secs w'"
proof -
  from assms(1) obtain r1 w1 where m: "m = Some (r1, w1)" by (cases m) (auto simp: then_stage_def)
  with assms(1) assms(2) [OF m] assms(3) [of _ w1] show ?thesis
    by (cases r1) (auto simp: then_stage_def intro: order_trans)
qed

lemma stages_time:
  assumes "pages_end logs" "recovery_stages logs ro tml w = Some (r, w')"
  shows "secs w \<le> secs w'"
  using assms(2) unfolding recovery_stages_def
proof (rule then_stage_time)
  fix r w1 assume "then_stage (stage logs ro restart_ns ''\"coordinator started\"'' restart_visit tml w)
    (stage logs ro snapshot_restored_ns ''\"snapshot restored\"'' snapshot_visit) = Some (r, w1)"
  then show "secs w \<le> secs w1" by (rule then_stage_time) (erule stage_time [OF assms(1)])+
qed (rule stage_time [OF assms(1)])

lemma recovery_polls:
  assumes "pages_end logs" "0 < interval"
  shows "deadline_poll (recovery_turn logs ro interval) interval"
proof unfold_locales
  fix s w s' w'
  assume b: "recovery_turn logs ro interval s w = (Inr s', w')"
  then obtain w1 where w1: "recovery_stages logs ro s w = Some (Inr s', w1)" "w' = sleep interval w1"
    by (auto simp: recovery_turn_def split: option.splits sum.splits prod.splits if_splits)
  with secs_sleep_after [OF stages_time [OF assms(1) w1(1)]] show "secs w + interval \<le> secs w'" by simp
qed (rule assms(2))

text \<open>
  A property of timelines that holds at the start and that every visit preserves while its
  milestone is missing; then it holds of the observed timeline.
\<close>

locale timeline_property =
  fixes logs :: log_service
    and ro :: recovery_observer
    and P :: "recovery_timeline \<Rightarrow> bool"
  assumes start: "P (timeline_start ro)"
    and restart: "logged logs (started_query ro) ev \<Longrightarrow> P tml \<Longrightarrow> P (fst (restart_visit ro ev tml))"
    and snapshot: "logged logs (restored_query ro) ev \<Longrightarrow> P tml \<Longrightarrow> P (fst (snapshot_visit ro ev tml))"
    and ticks: "logged logs (tick_query ro) ev \<Longrightarrow> P tml \<Longrightarrow> catchup_ns tml = None \<Longrightarrow> P (fst (tick_visit ro ev tml))"
begin

definition outcome :: "recovery_timeline result \<Rightarrow> bool" where
  "outcome r = (case r of Inl e \<Rightarrow> (\<exists>k q t. logs k q t = Inl e) | Inr tml \<Rightarrow> P tml)"

lemma stage_outcome:
  assumes "pages_end logs" "P tml"
    and step: "\<And>ev s. logged logs (recovery_query ro pattern) ev \<Longrightarrow> P s \<Longrightarrow> milestone s = None \<Longrightarrow>
      (case visit ro ev s of (s', brk) \<Rightarrow> P s' \<and> (brk \<or> milestone s' = None))"
  shows "\<exists>r w'. stage logs ro milestone pattern visit tml w = Some (r, w') \<and> secs w \<le> secs w' \<and> outcome r"
proof (cases "milestone tml = None")
  case False
  with assms(2) show ?thesis by (auto simp: stage_def outcome_def)
next
  case True
  let ?q = "recovery_query ro pattern"
  from assms(1) obtain n where n: "pages_within logs ?q n None (w_k w)" unfolding pages_end_def by blast
  have "\<exists>r w'. each_event logs ?q (visit ro) None tml w = Some (r, w') \<and> secs w \<le> secs w' \<and>
     (case r of Inl e \<Rightarrow> (\<exists>k t. logs k ?q t = Inl e) | Inr s' \<Rightarrow> P s')"
    using n by (rule each_event_returns [where J = "\<lambda>s. P s \<and> milestone s = None"])
      (use True assms(2) step in \<open>fastforce+\<close>)
  with True show ?thesis by (fastforce simp: stage_def outcome_def split: sum.splits)
qed

lemma then_stage_outcome:
  assumes "\<exists>r w'. m = Some (r, w') \<and> secs w \<le> secs w' \<and> outcome r"
    and "\<And>tml w. P tml \<Longrightarrow> \<exists>r w'. f tml w = Some (r, w') \<and> secs w \<le> secs w' \<and> outcome r"
  shows "\<exists>r w'. then_stage m f = Some (r, w') \<and> secs w \<le> secs w' \<and> outcome r"
proof -
  from assms(1) obtain r w1 where m: "m = Some (r, w1)" "secs w \<le> secs w1" "outcome r" by blast
  show ?thesis
  proof (cases r)
    case (Inl e)
    with m show ?thesis by (simp add: then_stage_def)
  next
    case (Inr tml)
    with m(3) assms(2) [of tml w1] obtain r' w' where "f tml w1 = Some (r', w')" "secs w1 \<le> secs w'" "outcome r'"
      by (auto simp: outcome_def)
    with m(1,2) Inr order_trans show ?thesis by (auto simp: then_stage_def)
  qed
qed

lemma stages_outcome:
  assumes "pages_end logs" "P tml"
  shows "\<exists>r w'. recovery_stages logs ro tml w = Some (r, w') \<and> secs w \<le> secs w' \<and> outcome r"
  unfolding recovery_stages_def
proof (intro then_stage_outcome stage_outcome [OF assms(1)])
  show "P tml" by (rule assms(2))
  show "case restart_visit ro ev s of (s', brk) \<Rightarrow> P s' \<and> (brk \<or> restart_ns s' = None)"
    if "logged logs (recovery_query ro ''\"coordinator started\"'') ev" "P s" "restart_ns s = None" for ev s
    using restart [of ev s] that by (auto simp: started_query_def restart_visit_def split: if_splits)
  show "case snapshot_visit ro ev s of (s', brk) \<Rightarrow> P s' \<and> (brk \<or> snapshot_restored_ns s' = None)"
    if "logged logs (recovery_query ro ''\"snapshot restored\"'') ev" "P s" "snapshot_restored_ns s = None" for ev s
    using snapshot [of ev s] that by (auto simp: restored_query_def snapshot_visit_def Let_def split: if_splits)
  show "case tick_visit ro ev s of (s', brk) \<Rightarrow> P s' \<and> (brk \<or> catchup_ns s' = None)"
    if "logged logs (recovery_query ro ''\"raft tick\"'') ev" "P s" "catchup_ns s = None" for ev s
    using ticks [of ev s] that by (auto simp: tick_query_def tick_visit_def Let_def split: if_splits option.splits)
qed

lemma observe_outcome:
  assumes "pages_end logs" "0 < interval"
  shows "\<exists>r w'. observe_recovery logs ro timeout_s interval w = Some (r, w') \<and> outcome r \<and>
     (case r of Inl e \<Rightarrow> True
      | Inr tml \<Rightarrow> restart_ns tml \<noteq> None \<and> catchup_ns tml \<noteq> None \<or> secs (tick w) + timeout_s \<le> secs w')"
proof -
  let ?dl = "secs (tick w) + timeout_s" and ?turn = "recovery_turn logs ro interval"
  obtain out w2 where loop: "deadline_loop ?dl ?turn (timeline_start ro) (tick w) = Some (out, w2)"
    using deadline_poll.loop_returns [OF recovery_polls [OF assms]] by fastforce
  have "case out of
      Inl None \<Rightarrow> False
    | Inl (Some r) \<Rightarrow> outcome r \<and> (case r of Inl e \<Rightarrow> True | Inr tml \<Rightarrow> restart_ns tml \<noteq> None \<and> catchup_ns tml \<noteq> None)
    | Inr tml \<Rightarrow> P tml \<and> ?dl \<le> secs w2"
  proof (rule deadline_loop_rule [OF loop, where I = "\<lambda>tml _. P tml"])
    fix tml v tml' v' assume a: "P tml" "?turn tml v = (Inr tml', v')"
    from stages_outcome [OF assms(1) a(1), of v] obtain r v1 where "recovery_stages logs ro tml v = Some (r, v1)" "outcome r" by blast
    with a(2) show "P tml'" by (cases r) (auto simp: recovery_turn_def outcome_def split: if_splits)
  next
    fix tml v r v' assume a: "P tml" "?turn tml v = (Inl r, v')"
    from stages_outcome [OF assms(1) a(1), of v] obtain r' v1 where "recovery_stages logs ro tml v = Some (r', v1)" "outcome r'" by blast
    with a(2) show "case Inl r of Inl None \<Rightarrow> False
      | Inl (Some r) \<Rightarrow> outcome r \<and> (case r of Inl e \<Rightarrow> True | Inr tml \<Rightarrow> restart_ns tml \<noteq> None \<and> catchup_ns tml \<noteq> None)
      | Inr tml \<Rightarrow> P tml \<and> ?dl \<le> secs v'"
      by (cases r') (auto simp: recovery_turn_def split: if_splits)
  qed (simp_all add: start)
  then show ?thesis
    using loop by (cases out) (auto simp: observe_recovery_def now_def Let_def outcome_def split: option.splits sum.splits)
qed

end

interpretation recorded_timeline: timeline_property logs ro "timeline_ok logs ro" for logs ro
proof unfold_locales
  show "timeline_ok logs ro (fst (tick_visit ro ev tml))"
    if "logged logs (tick_query ro) ev" "timeline_ok logs ro tml" "catchup_ns tml = None" for logs ro ev tml
    using tick_visit_ok [OF that] by auto
qed (use timeline_start_ok restart_visit_ok snapshot_visit_ok in blast)+

text \<open>
  Ticks written as JSON: no tick message has the text \<open>role=\<close>.
\<close>

definition json_ticks :: "log_service \<Rightarrow> recovery_observer \<Rightarrow> bool" where
  "json_ticks logs ro \<longleftrightarrow> (\<forall>ev. logged logs (tick_query ro) ev \<longrightarrow> \<not> contains (message_of ev) ''role='')"

definition blind :: "log_service \<Rightarrow> recovery_observer \<Rightarrow> recovery_timeline \<Rightarrow> bool" where
  "blind logs ro tml \<longleftrightarrow> (json_ticks logs ro \<longrightarrow> catchup_ns tml = None \<and> final_commit_index tml = None)"

lemma tick_visit_json:
  assumes "json_ticks logs ro" "logged logs (tick_query ro) ev"
  shows "tick_visit ro ev tml = (tml, False)"
proof -
  have "search RAFT_TICK_RE (message_of ev) = None"
    unfolding RAFT_TICK_RE_def using assms by (intro search_needs_literal) (auto simp: json_ticks_def)
  then show ?thesis by (simp add: tick_visit_def)
qed

interpretation blind_timeline: timeline_property logs ro "blind logs ro" for logs ro
proof unfold_locales
  fix logs ro ev tml
  show "blind logs ro (timeline_start ro)" by (simp add: blind_def timeline_start_def)
  show "blind logs ro (fst (restart_visit ro ev tml))" if "blind logs ro tml"
    using that by (simp add: blind_def restart_visit_def)
  show "blind logs ro (fst (snapshot_visit ro ev tml))" if "blind logs ro tml"
    using that by (simp add: blind_def snapshot_visit_def Let_def split: option.split)
  show "blind logs ro (fst (tick_visit ro ev tml))" if "logged logs (tick_query ro) ev" "blind logs ro tml"
    using that by (simp add: blind_def tick_visit_json)
qed

section \<open>Properties\<close>

text \<open>
  C36: observing a recovery.  If the log service's pages come to an end and the poll interval is
  positive, \<open>observe\<close> returns.  An error it raises is one of the service's; a timeline it returns
  has restart, snapshot and catch-up times of events logged after the kill, the catch-up being a
  tick whose commit index, which is the final one, is within the tolerance of the leader's; and
  restart and catch-up are both there unless the timeout has passed.
\<close>

theorem recovery_observed:
  assumes "pages_end logs" "0 < interval"
  shows "\<exists>r w'. observe_recovery logs ro timeout_s interval w = Some (r, w') \<and>
     (case r of
        Inl e \<Rightarrow> (\<exists>k q t. logs k q t = Inl e)
      | Inr tml \<Rightarrow> timeline_ok logs ro tml \<and>
          (restart_ns tml \<noteq> None \<and> catchup_ns tml \<noteq> None \<or> secs (tick w) + timeout_s \<le> secs w'))"
proof -
  from recorded_timeline.observe_outcome [OF assms, of ro timeout_s w] obtain r w' where
    r: "observe_recovery logs ro timeout_s interval w = Some (r, w')" "recorded_timeline.outcome logs ro r"
      "case r of Inl e \<Rightarrow> True | Inr tml \<Rightarrow> restart_ns tml \<noteq> None \<and> catchup_ns tml \<noteq> None \<or> secs (tick w) + timeout_s \<le> secs w'"
    by blast
  then show ?thesis
    by (intro exI [of _ r] exI [of _ w']) (cases r; simp add: recorded_timeline.outcome_def)
qed

text \<open>
  C37: the observer cannot read the coordinator's ticks.  The coordinator logs JSON
  (\<open>raft/cmd/coordinator/main.go\<close>, lines 49 and 289), where the role is written \<open>"role":"follower"\<close>, but
  the tick pattern asks for \<open>role=\<close>.  If no tick message contains \<open>role=\<close>, then however far the follower
  has caught up, the observer waits for the whole timeout and reports no catch-up and no commit index.
\<close>

theorem recovery_blind_to_json:
  assumes "pages_end logs" "0 < interval" "json_ticks logs ro"
  shows "\<exists>r w'. observe_recovery logs ro timeout_s interval w = Some (r, w') \<and>
     (case r of
        Inl e \<Rightarrow> (\<exists>k q t. logs k q t = Inl e)
      | Inr tml \<Rightarrow> rd_catchup_ms (timeline_to_dict tml) = None \<and> rd_final_commit_index (timeline_to_dict tml) = None \<and>
          secs (tick w) + timeout_s \<le> secs w')"
proof -
  from blind_timeline.observe_outcome [OF assms(1,2), of ro timeout_s w] obtain r w' where
    r: "observe_recovery logs ro timeout_s interval w = Some (r, w')" "blind_timeline.outcome logs ro r"
      "case r of Inl e \<Rightarrow> True | Inr tml \<Rightarrow> restart_ns tml \<noteq> None \<and> catchup_ns tml \<noteq> None \<or> secs (tick w) + timeout_s \<le> secs w'"
    by blast
  with assms(3) show ?thesis
    by (intro exI [of _ r] exI [of _ w'])
      (cases r; simp add: blind_timeline.outcome_def blind_def timeline_to_dict_def elapsed_ms_def)
qed

text \<open>A restart at 11 s and a tick at 12 s after a kill at 10 s, as text and as the coordinator writes it.\<close>

definition demo_logs :: "py_str \<Rightarrow> log_service" where
  "demo_logs tick_message k q token = Inr
     (if lq_pattern q = ''\"coordinator started\"'' then [\<lparr>le_timestamp = 11000, le_message = Some ''coordinator started''\<rparr>]
      else if lq_pattern q = ''\"raft tick\"'' then [\<lparr>le_timestamp = 12000, le_message = Some tick_message\<rparr>]
      else [], None)"

definition demo_observer :: recovery_observer where
  "demo_observer = \<lparr>ro_node_id = ''coordinator-b'', ro_killed_ns = 10000000000, ro_leader_commit = 100, ro_tol = 10\<rparr>"

lemma demo_pages: "pages_end (demo_logs m)"
  unfolding pages_end_def by (intro allI exI [of _ 1]) (simp add: demo_logs_def)

lemma demo_text_tick:
  "search RAFT_TICK_RE ''role=follower commit_index=95 last_applied=95'' =
     Some [(''role'', ''follower''), (''commit'', ''95''), (''applied'', ''95'')]"
  by (simp add: RAFT_TICK_RE_def span_def is_word_def is_digit_def not_newline_def upt_rec)

abbreviation demo_world :: world where
  "demo_world \<equiv> \<lparr>w_ns = 13000000000, w_k = 0, w_delay = (\<lambda>_. 1)\<rparr>"

lemma demo_recovery:
  "map_option fst (observe_recovery (demo_logs ''role=follower commit_index=95 last_applied=95'') demo_observer 600 10 demo_world) =
     Some (Inr ((timeline_start demo_observer)\<lparr>restart_ns := Some 11000000000, catchup_ns := Some 12000000000,
       final_commit_index := Some 95\<rparr>))"
  by (simp add: observe_recovery_def now_def Let_def deadline_loop_unfold secs_def tick_def recovery_turn_def recovery_stages_def
      then_stage_def stage_def each_event_unfold demo_logs_def recovery_query_def timeline_start_def restart_visit_def
      tick_visit_def event_ns_def demo_observer_def message_of_def get_or_def demo_text_tick catchup_target_def group_int_def
      dget_default_def nat_of_digits_def digit_val_def del: search.simps)

theorem recovery_observed_witness:
  "\<exists>w'. observe_recovery (demo_logs ''role=follower commit_index=95 last_applied=95'') demo_observer 600 10 demo_world =
       Some (Inr ((timeline_start demo_observer)\<lparr>restart_ns := Some 11000000000, catchup_ns := Some 12000000000,
         final_commit_index := Some 95\<rparr>), w') \<and>
     timeline_ok (demo_logs ''role=follower commit_index=95 last_applied=95'') demo_observer
       ((timeline_start demo_observer)\<lparr>restart_ns := Some 11000000000, catchup_ns := Some 12000000000, final_commit_index := Some 95\<rparr>)"
proof -
  let ?logs = "demo_logs ''role=follower commit_index=95 last_applied=95''"
  have "(0::real) < 10" by simp
  from recovery_observed [OF demo_pages this, of "''role=follower commit_index=95 last_applied=95''" demo_observer 600 demo_world]
  obtain r w' where r: "observe_recovery ?logs demo_observer 600 10 demo_world = Some (r, w')"
    "case r of Inl e \<Rightarrow> (\<exists>k q t. ?logs k q t = Inl e) | Inr tml \<Rightarrow> timeline_ok ?logs demo_observer tml \<and>
       (restart_ns tml \<noteq> None \<and> catchup_ns tml \<noteq> None \<or> secs (tick demo_world) + 600 \<le> secs w')" by blast
  with demo_recovery show ?thesis by auto
qed

lemma demo_json_ticks:
  "json_ticks (demo_logs ''{\"msg\":\"raft tick\",\"role\":\"follower\",\"commit_index\":95,\"last_applied\":95}'') demo_observer"
  by (auto simp: json_ticks_def logged_def demo_logs_def message_of_def get_or_def tick_query_def recovery_query_def)

theorem recovery_blind_to_json_witness:
  "\<exists>r w'. observe_recovery (demo_logs ''{\"msg\":\"raft tick\",\"role\":\"follower\",\"commit_index\":95,\"last_applied\":95}'')
       demo_observer 600 10 demo_world = Some (r, w') \<and>
     (case r of Inl e \<Rightarrow> False
      | Inr tml \<Rightarrow> rd_catchup_ms (timeline_to_dict tml) = None \<and> secs (tick demo_world) + 600 \<le> secs w')"
proof -
  let ?logs = "demo_logs ''{\"msg\":\"raft tick\",\"role\":\"follower\",\"commit_index\":95,\"last_applied\":95}''"
  have "(0::real) < 10" by simp
  from recovery_blind_to_json [OF demo_pages this demo_json_ticks, of 600 demo_world]
  obtain r w' where r: "observe_recovery ?logs demo_observer 600 10 demo_world = Some (r, w')"
    "case r of Inl e \<Rightarrow> (\<exists>k q t. ?logs k q t = Inl e) | Inr tml \<Rightarrow> rd_catchup_ms (timeline_to_dict tml) = None \<and>
       rd_final_commit_index (timeline_to_dict tml) = None \<and> secs (tick demo_world) + 600 \<le> secs w'" by blast
  moreover have "?logs k q t \<noteq> Inl e" for k q t e by (simp add: demo_logs_def)
  ultimately show ?thesis by (intro exI [of _ r] exI [of _ w']) (cases r; simp)
qed

end
