(* ===== verification/Exp4.thy ===== *)
theory Exp4
  imports Recovery Chaos
begin

text \<open>
  \<open>chaos-bench/exp4.py\<close>: waiting for the leader's commit index in the coordinator logs, choosing and
  killing a follower, and observing its recovery.  The workload of \<open>_bench_worker\<close> runs beside this in
  its own threads and is modelled with the other workers.
\<close>

section \<open>The leader's commit index\<close>

definition EXP4_TICK_RE :: rx where
  "EXP4_TICK_RE =
     Seq (Lit ''\"commit_index\"'') (Seq (Greedy0 is_space) (Seq (Lit '':'') (Seq (Greedy0 is_space)
       (Group ''ci'' (Greedy1 is_digit)))))"

definition commit_visit :: "log_event \<Rightarrow> int option \<Rightarrow> int option \<times> bool" where
  "commit_visit ev latest =
     (case search EXP4_TICK_RE (message_of ev) of
        None \<Rightarrow> (latest, False)
      | Some g \<Rightarrow>
          let ci = group_int ''ci'' g
          in (case latest of None \<Rightarrow> Some ci | Some l \<Rightarrow> if l < ci then Some ci else Some l, False))"

definition commit_query :: "py_str \<Rightarrow> int \<Rightarrow> log_query" where
  "commit_query leader_node_id since_ns =
     \<lparr>lq_prefix = leader_node_id, lq_start_ms = max 0 (since_ns div 1000000 - 5000), lq_pattern = ''\"raft tick\"''\<rparr>"

definition latest_leader_commit :: "log_service \<Rightarrow> py_str \<Rightarrow> int \<Rightarrow> world \<Rightarrow> (int option result \<times> world) option" where
  "latest_leader_commit logs leader_node_id since_ns w =
     each_event logs (commit_query leader_node_id since_ns) commit_visit None None w"

definition progress_event :: "py_str \<Rightarrow> int \<Rightarrow> int \<Rightarrow> hist_event" where
  "progress_event node ci target =
     (event_of ''commit_progress'')\<lparr>e_commit_index := Some ci, e_info := [(''leader'', node), (''target'', dec_int target)]\<rparr>"

text \<open>
  One turn of \<open>_wait_for_commit\<close>; the state is the history and \<open>last_log_ns\<close>, and \<open>Inl None\<close> stands for a turn
  that does not return.
\<close>

definition commit_turn ::
  "chaos_services \<Rightarrow> bench_config \<Rightarrow> log_service \<Rightarrow> int \<Rightarrow> history \<times> int \<Rightarrow> world \<Rightarrow>
   (((py_str \<times> int) result \<times> history) option + history \<times> int) \<times> world" where
  "commit_turn sv cfg logs target s w =
     (let (h, last_log_ns) = s; (found, w1) = find_leader (cs_peers sv) cfg w
      in case found of
           Inl e \<Rightarrow> (Inl (Some (Inl e, h)), w1)
         | Inr None \<Rightarrow> (Inr s, sleep 3 w1)
         | Inr (Some li) \<Rightarrow>
             (case latest_leader_commit logs (li_node_id li) 0 w1 of
                None \<Rightarrow> (Inl None, w1)
              | Some (Inl e, w2) \<Rightarrow> (Inl (Some (Inl e, h)), w2)
              | Some (Inr c, w2) \<Rightarrow>
                  let ci = get_or c 0;
                      (t, w3) = now_ns w2;
                      (h1, last1, w4) =
                        (if 30 * 1000000000 < t - last_log_ns then
                           let (h1, w4) = record_event (progress_event (li_node_id li) ci target) (h, w3); (t1, w5) = now_ns w4
                           in (h1, t1, w5)
                         else (h, last_log_ns, w3))
                  in if target \<le> ci then (Inl (Some (Inr (li_node_id li, ci), h1)), w4)
                     else (Inr (h1, last1), sleep 5 w4)))"

text \<open>The text of the final exception also names the waiting time, which is left out here.\<close>

definition wait_for_commit ::
  "chaos_services \<Rightarrow> bench_config \<Rightarrow> log_service \<Rightarrow> int \<Rightarrow> real \<Rightarrow> history \<Rightarrow> world \<Rightarrow>
   (((py_str \<times> int) result \<times> history) \<times> world) option" where
  "wait_for_commit sv cfg logs target max_wait_s h w =
     (let (t, w1) = now w
      in case deadline_loop (t + max_wait_s) (commit_turn sv cfg logs target) (h, 0) w1 of
           None \<Rightarrow> None
         | Some (Inl None, _) \<Rightarrow> None
         | Some (Inl (Some res), w2) \<Rightarrow> Some (res, w2)
         | Some (Inr (h1, _), w2) \<Rightarrow> Some ((Inl (TimeoutError (''commit_index never reached '' @ dec_int target)), h1), w2))"

section \<open>The victim\<close>

definition pick_follower :: "bench_config \<Rightarrow> py_str \<Rightarrow> py_str option" where
  "pick_follower cfg leader_node_id = find (\<lambda>s. \<not> endswith s leader_node_id) (bc_coordinator_services cfg)"

definition follower_node_id_of :: "py_str \<Rightarrow> py_str" where
  "follower_node_id_of service =
     (let parts = split_on CHR ''-'' service
      in if 2 \<le> length parts then join ''-'' (drop (length parts - 2) parts) else service)"

type_synonym head_object = "nat \<Rightarrow> py_str \<Rightarrow> py_str \<Rightarrow> (int \<times> py_str) result"

definition snapshot_bucket_name :: "py_str option \<Rightarrow> bench_config \<Rightarrow> py_str" where
  "snapshot_bucket_name env_bucket cfg =
     (case env_bucket of
        None \<Rightarrow> ''raft-coordinator-dev-raft-snapshots-'' @ bc_account_id cfg
      | Some b \<Rightarrow> if b = [] then ''raft-coordinator-dev-raft-snapshots-'' @ bc_account_id cfg else b)"

definition snapshot_s3_object ::
  "head_object \<Rightarrow> py_str option \<Rightarrow> bench_config \<Rightarrow> py_str \<Rightarrow> world \<Rightarrow> (int \<times> py_str) option \<times> world" where
  "snapshot_s3_object head_obj env_bucket cfg node w =
     (let (r, w1) = call (\<lambda>k. head_obj k (snapshot_bucket_name env_bucket cfg) (''raft/'' @ node @ ''/snapshot.json'')) w
      in (case r of Inl e \<Rightarrow> None | Inr x \<Rightarrow> Some x, w1))"

section \<open>The experiment\<close>

record exp4_summary =
  x4_leader_node_id :: py_str
  x4_follower_node_id :: py_str
  x4_leader_commit_at_kill :: int
  x4_snapshot_size_bytes :: int
  x4_raw_log_size_bytes_estimate :: int
  x4_recovery_timeline :: recovery_dict

record exp4_services =
  x4_chaos :: chaos_services
  x4_logs :: log_service
  x4_head :: head_object
  x4_env_bucket :: "py_str option"

type_synonym 'a exp4_step = "('a result \<times> chaos_env) option"

text \<open>The waiting and observing steps on the state of the run.\<close>

definition await_threshold :: "exp4_services \<Rightarrow> bench_config \<Rightarrow> int \<Rightarrow> real \<Rightarrow> chaos_env \<Rightarrow> (py_str \<times> int) exp4_step" where
  "await_threshold sv cfg target max_wait_s s =
     map_option (\<lambda>((r, h), w). (r, s\<lparr>ch_hist := h, ch_world := w\<rparr>))
       (wait_for_commit (x4_chaos sv) cfg (x4_logs sv) target max_wait_s (ch_hist s) (ch_world s))"

definition snapshot_event :: "py_str \<Rightarrow> (int \<times> py_str) option \<Rightarrow> hist_event" where
  "snapshot_event node snap =
     (event_of ''snapshot_before_kill'')\<lparr>e_info := (''node'', node) #
       (case snap of None \<Rightarrow> [] | Some (n, modified) \<Rightarrow> [(''size'', dec_int n), (''last_modified'', modified)])\<rparr>"

definition kill_step :: "exp4_services \<Rightarrow> bench_config \<Rightarrow> py_str \<Rightarrow> chaos_env \<Rightarrow> (py_str \<times> (int \<times> py_str) option \<times> kill_result) exp4_step" where
  "kill_step sv cfg leader_id s =
     (case pick_follower cfg leader_id of
        None \<Rightarrow> Some (Inl (RuntimeError ''no follower service found''),
            record_ch ((event_of ''exp4_abort'')\<lparr>e_info := [(''reason'', ''no follower service'')]\<rparr>) s)
      | Some service \<Rightarrow>
          let node = follower_node_id_of service;
              (snap, w1) = snapshot_s3_object (x4_head sv) (x4_env_bucket sv) cfg node (ch_world s);
              s1 = record_ch (snapshot_event node snap) (s\<lparr>ch_world := w1\<rparr>);
              (r, s2) = stop_random_task (x4_chaos sv) service ''exp4: follower cold restart'' s1
          in case r of
               Inl e \<Rightarrow> Some (Inl e, s2)
             | Inr None \<Rightarrow> Some (Inl (RuntimeError (''no running task for service '' @ service)),
                 record_ch ((event_of ''exp4_abort'')\<lparr>e_info := [(''reason'', ''no task to kill''), (''service'', service)]\<rparr>) s2)
             | Inr (Some kill) \<Rightarrow> Some (Inr (node, snap, kill),
                 record_ch ((event_of ''chaos.kill_follower'')\<lparr>e_killed_ns := Some (kr_killed_ns kill),
                   e_info := [(''service'', kr_service kill), (''task_arn'', kr_task_arn kill), (''follower'', node)]\<rparr>) s2))"

definition recovery_step :: "exp4_services \<Rightarrow> py_str \<Rightarrow> int \<Rightarrow> py_str \<Rightarrow> kill_result \<Rightarrow> chaos_env \<Rightarrow> (int \<times> recovery_timeline) exp4_step" where
  "recovery_step sv leader_id leader_commit node kill s =
     (case latest_leader_commit (x4_logs sv) leader_id (kr_killed_ns kill) (ch_world s) of
        None \<Rightarrow> None
      | Some (Inl e, w1) \<Rightarrow> Some (Inl e, s\<lparr>ch_world := w1\<rparr>)
      | Some (Inr c, w1) \<Rightarrow>
          let fresh = (if c = None \<or> c = Some 0 then leader_commit else the c);
              ro = \<lparr>ro_node_id = node, ro_killed_ns = kr_killed_ns kill, ro_leader_commit = fresh, ro_tol = 10\<rparr>
          in case observe_recovery (x4_logs sv) ro 600 10 w1 of
               None \<Rightarrow> None
             | Some (Inl e, w2) \<Rightarrow> Some (Inl e, s\<lparr>ch_world := w2\<rparr>)
             | Some (Inr tml, w2) \<Rightarrow> Some (Inr (fresh, tml),
                 record_ch ((event_of ''recovery_timeline'')\<lparr>e_node_id := Some node, e_killed_ns := Some (kr_killed_ns kill)\<rparr>)
                   (s\<lparr>ch_world := w2\<rparr>)))"

definition finish_step ::
  "exp4_services \<Rightarrow> bench_config \<Rightarrow> py_str \<Rightarrow> py_str \<Rightarrow> (int \<times> py_str) option \<Rightarrow> int \<times> recovery_timeline \<Rightarrow> chaos_env \<Rightarrow> exp4_summary exp4_step" where
  "finish_step sv cfg leader_id node snap rec s =
     (let (snap_after, w) = snapshot_s3_object (x4_head sv) (x4_env_bucket sv) cfg node (ch_world s)
      in Some (Inr \<lparr>x4_leader_node_id = leader_id, x4_follower_node_id = node, x4_leader_commit_at_kill = fst rec,
           x4_snapshot_size_bytes = (case snap_after of Some (n, _) \<Rightarrow> n
             | None \<Rightarrow> (case snap of Some (n, _) \<Rightarrow> n | None \<Rightarrow> 0)),
           x4_raw_log_size_bytes_estimate = fst rec * 220, x4_recovery_timeline = timeline_to_dict (snd rec)\<rparr>,
         record_ch (event_of ''run_end'') (s\<lparr>ch_world := w\<rparr>)))"

definition recover_and_finish ::
  "exp4_services \<Rightarrow> bench_config \<Rightarrow> py_str \<times> int \<Rightarrow> py_str \<times> (int \<times> py_str) option \<times> kill_result \<Rightarrow> chaos_env \<Rightarrow> exp4_summary exp4_step" where
  "recover_and_finish sv cfg lc victim s =
     (case victim of (node, snap, kill) \<Rightarrow>
        then_stage (recovery_step sv (fst lc) (snd lc) node kill s) (finish_step sv cfg (fst lc) node snap))"

definition kill_and_recover :: "exp4_services \<Rightarrow> bench_config \<Rightarrow> py_str \<times> int \<Rightarrow> chaos_env \<Rightarrow> exp4_summary exp4_step" where
  "kill_and_recover sv cfg lc s =
     then_stage
       (kill_step sv cfg (fst lc) (record_ch ((event_of ''commit_threshold_reached'')
          \<lparr>e_commit_index := Some (snd lc), e_info := [(''leader'', fst lc)]\<rparr>) s))
       (recover_and_finish sv cfg lc)"

definition run_exp4 :: "exp4_services \<Rightarrow> bench_config \<Rightarrow> real \<Rightarrow> int \<Rightarrow> chaos_env \<Rightarrow> exp4_summary exp4_step" where
  "run_exp4 sv cfg max_wait_s target s =
     then_stage (await_threshold sv cfg target max_wait_s (record_ch (event_of ''run_start'') s))
       (kill_and_recover sv cfg)"

section \<open>The coordinator's tick lines\<close>

text \<open>The line that \<open>log.Info("raft tick", ...)\<close> writes with the JSON handler, for a time stamp and a role name.\<close>

definition tick_line :: "py_str \<Rightarrow> py_str \<Rightarrow> nat \<Rightarrow> nat \<Rightarrow> nat \<Rightarrow> nat \<Rightarrow> py_str" where
  "tick_line time role trm commit applied log_len =
     ''{\"time\":\"'' @ time @ ''\",\"level\":\"INFO\",\"msg\":\"raft tick\",\"role\":\"'' @ role @ ''\",\"term\":'' @ dec_nat trm @
     '',\"commit_index\":'' @ dec_nat commit @ '',\"last_applied\":'' @ dec_nat applied @ '',\"log_len\":'' @ dec_nat log_len @ ''}''"

lemma quote_notin_dec_nat [simp]: "CHR 0x22 \<notin> set (dec_nat n)"
  using dec_nat_digits [of n] by (auto simp: is_digit_def)

lemma commit_matches:
  assumes "s = [] \<or> \<not> is_digit (hd s)"
  shows "search EXP4_TICK_RE (''\"commit_index\"'' @ '':'' @ dec_nat n @ s) = Some [(''ci'', dec_nat n)]"
proof -
  have digits: "list_all is_digit (dec_nat n)" using dec_nat_digits [of n] by (simp add: list_all_iff)
  obtain ms where ms: "matches (Greedy1 is_digit) (dec_nat n @ s) = ([], s) # ms"
    using greedy_head [OF digits assms] by auto
  have colon: "matches (Greedy0 is_space) ('':'' @ dec_nat n @ s) = [([], '':'' @ dec_nat n @ s)]"
    by (rule greedy0_none) (simp add: is_space_def)
  have blank: "matches (Greedy0 is_space) (dec_nat n @ s) = [([], dec_nat n @ s)]"
    using digits by (intro greedy0_none) (cases "dec_nat n"; auto)
  have "matches EXP4_TICK_RE (''\"commit_index\"'' @ '':'' @ dec_nat n @ s) = matches (Group ''ci'' (Greedy1 is_digit)) (dec_nat n @ s)"
    unfolding EXP4_TICK_RE_def
    by (simp only: matches_Seq_one [OF matches_Lit] matches_Seq_one [OF colon] matches_Seq_one [OF blank])
  also have "\<dots> = ([(''ci'', dec_nat n)], s) # map (\<lambda>(g, t). (g @ [(''ci'', take (length (dec_nat n @ s) - length t) (dec_nat n @ s))], t)) ms"
    unfolding matches.simps(5) ms by simp
  finally show ?thesis using search_here by fastforce
qed

text \<open>Of the time stamp only this matters: it begins with a digit and contains no quote and no equality sign.\<close>

definition rfc3339_like :: "py_str \<Rightarrow> bool" where
  "rfc3339_like time \<longleftrightarrow> time \<noteq> [] \<and> is_digit (hd time) \<and> CHR 0x22 \<notin> set time \<and> CHR ''='' \<notin> set time"

text \<open>The fields before the commit index contain no \<open>"co\<close>.\<close>

lemma commit_search_tick:
  assumes "rfc3339_like time" "role \<in> {''follower'', ''candidate'', ''leader''}"
  shows "search EXP4_TICK_RE (tick_line time role trm commit applied log_len) = Some [(''ci'', dec_nat commit)]"
proof -
  have "\<not> is_digit CHR ''c''" by (simp add: is_digit_def)
  with assms(1) obtain d t where d: "time = d # t" "d \<noteq> CHR 0x22 \<and> d \<noteq> CHR ''c''" "CHR 0x22 \<notin> set t"
    by (cases time) (auto simp: rfc3339_like_def)
  let ?tail = "'',\"last_applied\":'' @ dec_nat applied @ '',\"log_len\":'' @ dec_nat log_len @ ''}''"
  have lit: "EXP4_TICK_RE = Seq (Lit (CHR 0x22 # ''commit_index\"'')) (Seq (Greedy0 is_space) (Seq (Lit '':'') (Seq (Greedy0 is_space)
       (Group ''ci'' (Greedy1 is_digit)))))" by (simp add: EXP4_TICK_RE_def)
  have skip: "d \<noteq> CHR 0x22 \<Longrightarrow> search (Seq (Lit (CHR 0x22 # l)) r) (d # s) = search (Seq (Lit (CHR 0x22 # l)) r) s"
    "d \<noteq> CHR ''c'' \<Longrightarrow> search (Seq (Lit (CHR 0x22 # CHR ''c'' # l)) r) (CHR 0x22 # d # s) = search (Seq (Lit (CHR 0x22 # CHR ''c'' # l)) r) (d # s)"
    "search (Seq (Lit (CHR 0x22 # CHR ''c'' # CHR ''o'' # l)) r) (CHR 0x22 # CHR ''c'' # CHR ''a'' # s) =
       search (Seq (Lit (CHR 0x22 # CHR ''c'' # CHR ''o'' # l)) r) (CHR ''c'' # CHR ''a'' # s)"
    for d l r s by auto
  have "\<not> is_digit (hd ?tail)" by (simp add: is_digit_def)
  from commit_matches [OF disjI2, OF this]
  have found: "search EXP4_TICK_RE (''\"commit_index\"'' @ '':'' @ dec_nat commit @ ?tail) = Some [(''ci'', dec_nat commit)]" .
  have "search EXP4_TICK_RE (tick_line time role trm commit applied log_len) =
      search EXP4_TICK_RE (''\"commit_index\"'' @ '':'' @ dec_nat commit @ ?tail)"
    using assms(2) d(2) by (auto simp: tick_line_def d(1) lit skip search_skip_chunk [OF d(3)] search_skip_chunk [OF quote_notin_dec_nat]
        simp del: search.simps)
  with found show ?thesis by simp
qed

section \<open>Lemmas\<close>

text \<open>A commit index that the log patterns of this experiment read off a logged tick.\<close>

definition reported :: "log_service \<Rightarrow> log_query \<Rightarrow> int \<Rightarrow> bool" where
  "reported logs q ci \<longleftrightarrow>
     (\<exists>ev g. logged logs q ev \<and> search EXP4_TICK_RE (message_of ev) = Some g \<and> group_int ''ci'' g = ci)"

lemma latest_commit_returns:
  assumes "pages_end logs"
  shows "\<exists>r w'. latest_leader_commit logs node since w = Some (r, w') \<and> secs w \<le> secs w' \<and>
     (case r of Inl e \<Rightarrow> (\<exists>k q t. logs k q t = Inl e) | Inr c \<Rightarrow> pred_option (reported logs (commit_query node since)) c)"
proof -
  let ?q = "commit_query node since"
  from assms obtain n where n: "pages_within logs ?q n None (w_k w)" unfolding pages_end_def by blast
  have "\<exists>r w'. each_event logs ?q commit_visit None None w = Some (r, w') \<and> secs w \<le> secs w' \<and>
     (case r of Inl e \<Rightarrow> (\<exists>k t. logs k ?q t = Inl e) | Inr s' \<Rightarrow> pred_option (reported logs ?q) s')"
    using n
  proof (rule each_event_returns [where J = "pred_option (reported logs ?q)"])
    fix ev s assume "logged logs ?q ev" "pred_option (reported logs ?q) s"
    then show "case commit_visit ev s of (s', brk) \<Rightarrow> if brk then pred_option (reported logs ?q) s' else pred_option (reported logs ?q) s'"
      by (auto simp: commit_visit_def reported_def Let_def split: option.splits)
  qed simp_all
  then show ?thesis by (fastforce simp: latest_leader_commit_def split: sum.splits)
qed

definition service_error :: "exp4_services \<Rightarrow> bench_config \<Rightarrow> py_error \<Rightarrow> bool" where
  "service_error sv cfg e \<longleftrightarrow>
     (\<exists>w. fst (find_leader (cs_peers (x4_chaos sv)) cfg w) = Inl e) \<or> (\<exists>k q t. x4_logs sv k q t = Inl e)"

definition threshold_reached :: "exp4_services \<Rightarrow> int \<Rightarrow> py_str \<times> int \<Rightarrow> bool" where
  "threshold_reached sv target res =
     (case res of (node, ci) \<Rightarrow> target \<le> ci \<and> (ci = 0 \<or> reported (x4_logs sv) (commit_query node 0) ci))"

lemma commit_turn_cases:
  fixes sv :: exp4_services
  assumes "pages_end (x4_logs sv)"
  shows "case commit_turn (x4_chaos sv) cfg (x4_logs sv) target s w of
      (Inl None, _) \<Rightarrow> False
    | (Inl (Some (Inl e, h)), _) \<Rightarrow> service_error sv cfg e
    | (Inl (Some (Inr res, h)), _) \<Rightarrow> threshold_reached sv target res
    | (Inr s', w') \<Rightarrow> secs w + 3 \<le> secs w'"
proof -
  obtain h last_ns where s: "s = (h, last_ns)" by fastforce
  obtain found w1 where f: "find_leader (cs_peers (x4_chaos sv)) cfg w = (found, w1)" by fastforce
  have w1: "secs w \<le> secs w1" using find_leader_time [of w "cs_peers (x4_chaos sv)" cfg] f by simp
  consider e where "found = Inl e" | "found = Inr None" | li where "found = Inr (Some li)"
    by (metis option.exhaust sum.exhaust)
  then show ?thesis
  proof cases
    case 1
    then have "service_error sv cfg e" unfolding service_error_def using f by (metis fst_conv)
    with f s 1 show ?thesis by (simp add: commit_turn_def)
  next
    case 2
    with f s secs_sleep_after [OF w1, of 3] show ?thesis by (simp add: commit_turn_def)
  next
    case 3
    from latest_commit_returns [OF assms, of "li_node_id li" 0 w1] obtain r w2 where
      c: "latest_leader_commit (x4_logs sv) (li_node_id li) 0 w1 = Some (r, w2)" "secs w1 \<le> secs w2"
        "case r of Inl e \<Rightarrow> (\<exists>k q t. x4_logs sv k q t = Inl e)
           | Inr c \<Rightarrow> pred_option (reported (x4_logs sv) (commit_query (li_node_id li) 0)) c" by blast
    have "secs w \<le> secs w2" using w1 c(2) by linarith
    then have late: "secs w \<le> secs (tick w2)" "secs w \<le> secs (tick (tick (tick w2)))"
      using secs_tick [of w2] secs_tick [of "tick w2"] secs_tick [of "tick (tick w2)"] by linarith+
    have slept: "secs w + 3 \<le> secs (sleep 5 (tick w2))" "secs w + 3 \<le> secs (sleep 5 (tick (tick (tick w2))))"
      using secs_sleep_after [OF late(1), of 5] secs_sleep_after [OF late(2), of 5] by linarith+
    show ?thesis
    proof (cases r)
      case (Inl e)
      with c f s 3 show ?thesis by (simp add: commit_turn_def service_error_def)
    next
      case (Inr ci)
      then have "threshold_reached sv target (li_node_id li, get_or ci 0)" if "target \<le> get_or ci 0"
        using that c(3) by (cases ci) (auto simp: threshold_reached_def get_or_def)
      with c(1) f s 3 Inr slept show ?thesis
        by (simp add: commit_turn_def now_ns_def record_event_eq Let_def)
    qed
  qed
qed

lemma commit_polls:
  fixes sv :: exp4_services
  assumes "pages_end (x4_logs sv)"
  shows "deadline_poll (commit_turn (x4_chaos sv) cfg (x4_logs sv) target) 3"
proof unfold_locales
  fix s w s' w' assume "commit_turn (x4_chaos sv) cfg (x4_logs sv) target s w = (Inr s', w')"
  with commit_turn_cases [OF assms, where cfg = cfg and target = target and s = s and w = w] show "secs w + 3 \<le> secs w'" by simp
qed simp

lemma wait_for_commit_result:
  fixes sv :: exp4_services
  assumes "pages_end (x4_logs sv)"
  shows "\<exists>r h' w'. wait_for_commit (x4_chaos sv) cfg (x4_logs sv) target max_wait_s h w = Some ((r, h'), w') \<and>
     (case r of
        Inl e \<Rightarrow> service_error sv cfg e \<or>
          e = TimeoutError (''commit_index never reached '' @ dec_int target) \<and> secs (tick w) + max_wait_s \<le> secs w'
      | Inr res \<Rightarrow> threshold_reached sv target res)"
proof -
  let ?dl = "secs (tick w) + max_wait_s" and ?turn = "commit_turn (x4_chaos sv) cfg (x4_logs sv) target"
  obtain out w2 where loop: "deadline_loop ?dl ?turn (h, 0) (tick w) = Some (out, w2)"
    using deadline_poll.loop_returns [OF commit_polls [OF assms]] by fastforce
  have "case out of Inl None \<Rightarrow> False | Inl (Some (Inl e, _)) \<Rightarrow> service_error sv cfg e
      | Inl (Some (Inr res, _)) \<Rightarrow> threshold_reached sv target res | Inr _ \<Rightarrow> ?dl \<le> secs w2"
  proof (rule deadline_loop_rule [OF loop, where I = "\<lambda>_ _. True"])
    fix s v r v' assume "?turn s v = (Inl r, v')"
    with commit_turn_cases [OF assms, where cfg = cfg and target = target and s = s and w = v]
    show "case Inl r of Inl None \<Rightarrow> False | Inl (Some (Inl e, _)) \<Rightarrow> service_error sv cfg e
      | Inl (Some (Inr res, _)) \<Rightarrow> threshold_reached sv target res | Inr _ \<Rightarrow> ?dl \<le> secs v'"
      by (auto split: option.splits sum.splits)
  qed auto
  then consider (res) r h' where "out = Inl (Some (r, h'))" "case r of Inl e \<Rightarrow> service_error sv cfg e | Inr res \<Rightarrow> threshold_reached sv target res"
    | (late) h' l where "out = Inr (h', l)" "?dl \<le> secs w2"
    by (cases out) (auto split: option.splits sum.splits)
  then show ?thesis
  proof cases
    case res
    then have "wait_for_commit (x4_chaos sv) cfg (x4_logs sv) target max_wait_s h w = Some ((r, h'), w2)"
      using loop by (simp add: wait_for_commit_def now_def Let_def)
    with res(2) show ?thesis by (auto split: sum.splits)
  next
    case late
    let ?r = "Inl (TimeoutError (''commit_index never reached '' @ dec_int target))"
    have "wait_for_commit (x4_chaos sv) cfg (x4_logs sv) target max_wait_s h w = Some ((?r, h'), w2)"
      using loop late by (simp add: wait_for_commit_def now_def Let_def)
    with late(2) show ?thesis by (intro exI [of _ ?r] exI [of _ h'] exI [of _ w2]) simp
  qed
qed

lemma then_stage_rule:
  assumes "\<exists>r s'. m = Some (r, s') \<and> (case r of Inl e \<Rightarrow> Q (Inl e) s' | Inr x \<Rightarrow> P x s')"
    and "\<And>x s'. P x s' \<Longrightarrow> \<exists>r s''. f x s' = Some (r, s'') \<and> Q r s''"
  shows "\<exists>r s''. then_stage m f = Some (r, s'') \<and> Q r s''"
proof -
  from assms(1) obtain r s' where m: "m = Some (r, s')" "case r of Inl e \<Rightarrow> Q (Inl e) s' | Inr x \<Rightarrow> P x s'" by blast
  with assms(2) show ?thesis by (cases r) (auto simp: then_stage_def)
qed

text \<open>One task stopped, of a configured service that does not belong to the given leader.\<close>

definition one_follower_killed :: "bench_config \<Rightarrow> py_str \<Rightarrow> py_str \<Rightarrow> chaos_env \<Rightarrow> chaos_env \<Rightarrow> bool" where
  "one_follower_killed cfg leader_id service s s' \<longleftrightarrow>
     service \<in> set (bc_coordinator_services cfg) \<and> \<not> endswith service leader_id \<and>
     (\<exists>arn. stopped s' = stopped s @ [(service, arn, ''exp4: follower cold restart'')])"

lemma pick_follower_Some:
  "pick_follower cfg leader_id = Some svc \<Longrightarrow> svc \<in> set (bc_coordinator_services cfg) \<and> \<not> endswith svc leader_id"
  unfolding pick_follower_def by (auto simp: find_Some_iff)

lemma kill_step_cases:
  "\<exists>r s'. kill_step sv cfg leader_id s = Some (r, s') \<and>
     (case r of
        Inl e \<Rightarrow> stopped s' = stopped s
      | Inr (node, snap, kill) \<Rightarrow> one_follower_killed cfg leader_id (kr_service kill) s s' \<and> node = follower_node_id_of (kr_service kill))"
proof (cases "pick_follower cfg leader_id")
  case None
  then show ?thesis by (simp add: kill_step_def)
next
  case (Some svc)
  obtain snap w1 where snap: "snapshot_s3_object (x4_head sv) (x4_env_bucket sv) cfg (follower_node_id_of svc) (ch_world s) = (snap, w1)"
    by fastforce
  let ?s1 = "record_ch (snapshot_event (follower_node_id_of svc) snap) (s\<lparr>ch_world := w1\<rparr>)"
  obtain r s2 where kill: "stop_random_task (x4_chaos sv) svc ''exp4: follower cold restart'' ?s1 = (r, s2)" by fastforce
  note facts = stop_random_task_cases [OF kill] Some snap kill pick_follower_Some [OF Some]
  have cases: "case kill_step sv cfg leader_id s of
      None \<Rightarrow> False
    | Some (Inl e, s') \<Rightarrow> stopped s' = stopped s
    | Some (Inr (node, snap, kill), s') \<Rightarrow>
        one_follower_killed cfg leader_id (kr_service kill) s s' \<and> node = follower_node_id_of (kr_service kill)"
    using facts
    by (cases r; cases "projr r") (auto simp: kill_step_def one_follower_killed_def Let_def)
  then obtain a b where "kill_step sv cfg leader_id s = Some (a, b)" by (cases "kill_step sv cfg leader_id s") auto
  with cases show ?thesis by (intro exI [of _ a] exI [of _ b]) (cases a; simp)
qed

lemma recovery_step_cases:
  fixes sv :: exp4_services
  assumes "pages_end (x4_logs sv)"
  shows "\<exists>r s'. recovery_step sv leader_id leader_commit node kill s = Some (r, s') \<and> stopped s' = stopped s \<and>
     (case r of Inl e \<Rightarrow> True
      | Inr (fresh, tml) \<Rightarrow> timeline_ok (x4_logs sv)
          \<lparr>ro_node_id = node, ro_killed_ns = kr_killed_ns kill, ro_leader_commit = fresh, ro_tol = 10\<rparr> tml)"
proof -
  from latest_commit_returns [OF assms, of leader_id "kr_killed_ns kill" "ch_world s"] obtain c w1 where
    c: "latest_leader_commit (x4_logs sv) leader_id (kr_killed_ns kill) (ch_world s) = Some (c, w1)" by blast
  show ?thesis
  proof (cases c)
    case (Inl e)
    with c show ?thesis by (simp add: recovery_step_def)
  next
    case (Inr ci)
    let ?fresh = "if ci = None \<or> ci = Some 0 then leader_commit else the ci"
    let ?ro = "\<lparr>ro_node_id = node, ro_killed_ns = kr_killed_ns kill, ro_leader_commit = ?fresh, ro_tol = 10\<rparr>"
    have "(0::real) < 10" by simp
    from recorded_timeline.observe_outcome [OF assms this, of ?ro 600 w1] obtain r w2 where
      "observe_recovery (x4_logs sv) ?ro 600 10 w1 = Some (r, w2)" "recorded_timeline.outcome (x4_logs sv) ?ro r" by blast
    with c Inr show ?thesis
      by (cases r) (auto simp: recovery_step_def Let_def recorded_timeline.outcome_def)
  qed
qed

lemma await_threshold_cases:
  fixes sv :: exp4_services
  assumes "pages_end (x4_logs sv)"
  shows "\<exists>r s'. await_threshold sv cfg target max_wait_s s = Some (r, s') \<and> stopped s' = stopped s"
proof -
  from wait_for_commit_result [OF assms] obtain r h w where
    "wait_for_commit (x4_chaos sv) cfg (x4_logs sv) target max_wait_s (ch_hist s) (ch_world s) = Some ((r, h), w)" by blast
  then show ?thesis by (simp add: await_threshold_def)
qed

definition summary_ok :: "exp4_services \<Rightarrow> bench_config \<Rightarrow> chaos_env \<Rightarrow> chaos_env \<Rightarrow> exp4_summary \<Rightarrow> bool" where
  "summary_ok sv cfg s s' sm \<longleftrightarrow>
     (\<exists>service killed_ns tml. one_follower_killed cfg (x4_leader_node_id sm) service s s' \<and>
        x4_follower_node_id sm = follower_node_id_of service \<and> x4_recovery_timeline sm = timeline_to_dict tml \<and>
        timeline_ok (x4_logs sv) \<lparr>ro_node_id = x4_follower_node_id sm, ro_killed_ns = killed_ns,
          ro_leader_commit = x4_leader_commit_at_kill sm, ro_tol = 10\<rparr> tml \<and>
        x4_raw_log_size_bytes_estimate sm = 220 * x4_leader_commit_at_kill sm)"

definition run_outcome :: "exp4_services \<Rightarrow> bench_config \<Rightarrow> chaos_env \<Rightarrow> exp4_summary result \<Rightarrow> chaos_env \<Rightarrow> bool" where
  "run_outcome sv cfg s r s' =
     (case r of
        Inl e \<Rightarrow> stopped s' = stopped s \<or> (\<exists>leader_id service. one_follower_killed cfg leader_id service s s')
      | Inr sm \<Rightarrow> summary_ok sv cfg s s' sm)"

lemma recover_and_finish_outcome:
  fixes sv :: exp4_services
  assumes "pages_end (x4_logs sv)" "one_follower_killed cfg (fst lc) (kr_service kill) s s2"
  shows "\<exists>r s'. recover_and_finish sv cfg lc (follower_node_id_of (kr_service kill), snap, kill) s2 = Some (r, s') \<and>
    run_outcome sv cfg s r s'"
proof -
  let ?node = "follower_node_id_of (kr_service kill)"
  let ?ok = "\<lambda>rec. timeline_ok (x4_logs sv) \<lparr>ro_node_id = ?node, ro_killed_ns = kr_killed_ns kill, ro_leader_commit = fst rec, ro_tol = 10\<rparr> (snd rec)"
  have rec: "\<exists>r s'. recovery_step sv (fst lc) (snd lc) ?node kill s2 = Some (r, s') \<and>
      (case r of Inl e \<Rightarrow> run_outcome sv cfg s (Inl e) s' | Inr rec \<Rightarrow> stopped s' = stopped s2 \<and> ?ok rec)"
    using recovery_step_cases [OF assms(1), of "fst lc" "snd lc" ?node kill s2] assms(2)
    by (force simp: run_outcome_def one_follower_killed_def split: sum.splits)
  have "\<exists>r s''. finish_step sv cfg (fst lc) ?node snap rec s' = Some (r, s'') \<and> run_outcome sv cfg s r s''"
    if "stopped s' = stopped s2 \<and> ?ok rec" for rec s'
    using that assms(2) by (force simp: finish_step_def run_outcome_def summary_ok_def one_follower_killed_def Let_def case_prod_beta)
  from then_stage_rule [OF rec this] show ?thesis by (simp add: recover_and_finish_def)
qed

lemma run_exp4_result:
  fixes sv :: exp4_services
  assumes "pages_end (x4_logs sv)"
  shows "\<exists>r s'. run_exp4 sv cfg max_wait_s target s = Some (r, s') \<and> run_outcome sv cfg s r s'"
  unfolding run_exp4_def
proof (rule then_stage_rule [where P = "\<lambda>_ s1. stopped s1 = stopped s"])
  show "\<exists>r s'. await_threshold sv cfg target max_wait_s (record_ch (event_of ''run_start'') s) = Some (r, s') \<and>
    (case r of Inl e \<Rightarrow> run_outcome sv cfg s (Inl e) s' | Inr x \<Rightarrow> stopped s' = stopped s)"
    using await_threshold_cases [OF assms, of cfg target max_wait_s "record_ch (event_of ''run_start'') s"]
    by (force simp: run_outcome_def split: sum.splits)
next
  fix lc and s1 :: chaos_env assume s1: "stopped s1 = stopped s"
  let ?s1 = "record_ch ((event_of ''commit_threshold_reached'')\<lparr>e_commit_index := Some (snd lc), e_info := [(''leader'', fst lc)]\<rparr>) s1"
  have "\<exists>r s'. kill_step sv cfg (fst lc) ?s1 = Some (r, s') \<and> (case r of Inl e \<Rightarrow> run_outcome sv cfg s (Inl e) s'
      | Inr victim \<Rightarrow> (\<exists>snap kill. victim = (follower_node_id_of (kr_service kill), snap, kill) \<and>
          one_follower_killed cfg (fst lc) (kr_service kill) s s'))"
    using kill_step_cases [of sv cfg "fst lc" ?s1] by (force simp: one_follower_killed_def run_outcome_def s1 split: sum.splits)
  then show "\<exists>r s''. kill_and_recover sv cfg lc s1 = Some (r, s'') \<and> run_outcome sv cfg s r s''"
    unfolding kill_and_recover_def by (rule then_stage_rule) (use recover_and_finish_outcome [OF assms] in blast)
qed

lemma tick_line_no_pair:
  assumes "rfc3339_like time" "role \<in> {''follower'', ''candidate'', ''leader''}"
  shows "search RAFT_TICK_RE (tick_line time role trm commit applied log_len) = None"
proof -
  have "CHR ''='' \<notin> set (dec_nat n)" for n using dec_nat_digits [of n] by (auto simp: is_digit_def)
  then have "CHR ''='' \<notin> set (tick_line time role trm commit applied log_len)"
    using assms by (auto simp: tick_line_def rfc3339_like_def)
  then have "\<not> contains (tick_line time role trm commit applied log_len) ''role=''"
    by (auto simp: contains_iff)
  then show ?thesis unfolding RAFT_TICK_RE_def by (rule search_needs_literal)
qed

section \<open>Properties\<close>

text \<open>
  Waiting for the commit index ends.  If the log pages come to an end, \<open>_wait_for_commit\<close> returns within its
  deadline and one turn: a node found as leader with a commit index that reaches the target and that a
  logged tick of that node reports; or it raises, either an error of the services, or
  \<open>TimeoutError\<close> once the deadline has passed.
\<close>

theorem wait_for_commit_returns:
  fixes sv :: exp4_services
  assumes "pages_end (x4_logs sv)"
  shows "\<exists>r h' w'. wait_for_commit (x4_chaos sv) cfg (x4_logs sv) target max_wait_s h w = Some ((r, h'), w') \<and>
     (case r of
        Inl e \<Rightarrow> service_error sv cfg e \<or>
          e = TimeoutError (''commit_index never reached '' @ dec_int target) \<and> secs (tick w) + max_wait_s \<le> secs w'
      | Inr res \<Rightarrow> threshold_reached sv target res)"
  by (rule wait_for_commit_result [OF assms])

text \<open>
  The two patterns on the coordinator's tick lines.  Whatever the numbers, the pattern of \<open>exp4.py\<close>
  reads back the commit index that the coordinator wrote, while the pattern of \<open>follower_recovery.py\<close>
  finds nothing in the same line.
\<close>

theorem tick_line_read_back:
  assumes "rfc3339_like time" "role \<in> {''follower'', ''candidate'', ''leader''}"
  shows "map_option (group_int ''ci'') (search EXP4_TICK_RE (tick_line time role trm commit applied log_len)) = Some (int commit) \<and>
    search RAFT_TICK_RE (tick_line time role trm commit applied log_len) = None"
  using commit_search_tick [OF assms] tick_line_no_pair [OF assms] by (simp add: group_int_def dget_default_def)

theorem tick_line_read_back_witness:
  "map_option (group_int ''ci'') (search EXP4_TICK_RE (tick_line ''2026-01-01T00:00:00Z'' ''follower'' 3 95 95 100)) = Some 95 \<and>
   search RAFT_TICK_RE (tick_line ''2026-01-01T00:00:00Z'' ''follower'' 3 95 95 100) = None"
  using tick_line_read_back [of "''2026-01-01T00:00:00Z''" "''follower''" 3 95 95 100]
  by (simp add: rfc3339_like_def is_digit_def del: search.simps)


text \<open>Two coordinators, \<open>a\<close> the leader, with ticks as the coordinator writes them.\<close>

definition demo_chaos :: chaos_services where
  "demo_chaos =
     \<lparr>cs_peers = \<lparr>ps_scan = (\<lambda>_. Inr [\<lparr>pr_node_id = Some ''coordinator-a'', pr_http_addr = Some ''10.0.0.1:8080'',
        pr_is_leader = Some True, pr_heartbeat_ts = None\<rparr>]), ps_state = (\<lambda>_ _. Inr None)\<rparr>,
      cs_list_tasks = (\<lambda>_ svc. Inr [svc @ ''/task'']), cs_stop_task = (\<lambda>_ _. None), cs_random = (\<lambda>_. 0),
      cs_receive = (\<lambda>_ _. Inr []), cs_visibility = (\<lambda>_ _. VisOk)\<rparr>"

definition demo_exp4 :: exp4_services where
  "demo_exp4 = \<lparr>x4_chaos = demo_chaos, x4_logs = demo_logs (tick_line ''2026-01-01T00:00:00Z'' ''follower'' 3 95 95 100),
     x4_head = (\<lambda>_ _ _. Inr (1024, ''2026-01-01'')), x4_env_bucket = None\<rparr>"

definition demo_exp4_config :: bench_config where
  "demo_exp4_config = demo_bench_config\<lparr>bc_coordinator_services := [''dev-coordinator-a'', ''dev-coordinator-b'']\<rparr>"

lemma demo_exp4_pages: "pages_end (x4_logs demo_exp4)"
  by (simp add: demo_exp4_def demo_pages)

definition demo_env :: chaos_env where
  "demo_env = \<lparr>stopped = [], ch_hist = [], ch_world = demo_world\<rparr>"


lemma demo_wait:
  "map_option (fst \<circ> fst) (wait_for_commit demo_chaos demo_exp4_config (x4_logs demo_exp4) 90 1800 [] demo_world) =
     Some (Inr (''coordinator-a'', 95))"
proof -
  have "rfc3339_like ''2026-01-01T00:00:00Z''" by (simp add: rfc3339_like_def is_digit_def)
  then have tick: "search EXP4_TICK_RE (tick_line ''2026-01-01T00:00:00Z'' ''follower'' 3 95 95 100) = Some [(''ci'', dec_nat 95)]"
    by (rule commit_search_tick) simp
  show ?thesis
    by (simp add: wait_for_commit_def now_def now_ns_def Let_def deadline_loop_unfold secs_def tick_def commit_turn_def find_leader_def
        call_def demo_chaos_def demo_exp4_config_def complete_row_def get_or_def usable_service_def ecs_service_for_def endswith_def
        latest_leader_commit_def each_event_unfold demo_exp4_def demo_logs_def commit_query_def commit_visit_def message_of_def
        tick group_int_def dget_default_def record_event_eq del: search.simps dec_nat.simps)
qed

theorem wait_for_commit_returns_witness:
  "\<exists>h' w'. wait_for_commit demo_chaos demo_exp4_config (x4_logs demo_exp4) 90 1800 [] demo_world =
     Some ((Inr (''coordinator-a'', 95), h'), w') \<and> threshold_reached demo_exp4 90 (''coordinator-a'', 95)"
proof -
  have ch: "x4_chaos demo_exp4 = demo_chaos" by (simp add: demo_exp4_def)
  from wait_for_commit_returns [OF demo_exp4_pages, of demo_exp4_config 90 1800 "[]" demo_world, unfolded ch]
  obtain r h' w' where r: "wait_for_commit demo_chaos demo_exp4_config (x4_logs demo_exp4) 90 1800 [] demo_world = Some ((r, h'), w')"
    "case r of Inl e \<Rightarrow> service_error demo_exp4 demo_exp4_config e \<or>
          e = TimeoutError (''commit_index never reached '' @ dec_int 90) \<and> secs (tick demo_world) + 1800 \<le> secs w'
      | Inr res \<Rightarrow> threshold_reached demo_exp4 90 res" by blast
  with demo_wait have "r = Inr (''coordinator-a'', 95)" by simp
  with r show ?thesis by auto
qed

end
