(* ===== verification/Scans.thy ===== *)
theory Scans
  imports Submitter History
begin

text \<open>
  \<open>chaos-bench/dup_scan.py\<close> and \<open>chaos-bench/divergence_scan.py\<close>: after a run, the rows of all
  submitted tasks are fetched with BatchGetItem, 100 keys at a time, retrying the keys DynamoDB
  left unprocessed, and duplicates, stuck and missing tasks are reported.  BatchGetItem is a
  parameter; its documented behaviour (the rows of some of the keys are returned, the other keys
  come back as unprocessed) is the hypothesis \<open>honest_batch\<close>, and that throttling does not last
  forever is \<open>progressing\<close>.
\<close>

section \<open>Draining a batch\<close>

type_synonym batch_get = "nat \<Rightarrow> py_str list \<Rightarrow> (ddb_row list \<times> py_str list) result"

partial_function (option) drain ::
  "batch_get \<Rightarrow> (ddb_row \<Rightarrow> 's \<Rightarrow> 's result) \<Rightarrow> py_str list \<Rightarrow> 's \<Rightarrow> world \<Rightarrow> ('s result \<times> world) option" where
  "drain get visit keys s w =
     (if keys = [] then Some (Inr s, w)
      else
        let (r, w1) = call (\<lambda>k. get k keys) w
        in case r of
             Inl e \<Rightarrow> Some (Inl e, w1)
           | Inr (items, unproc) \<Rightarrow>
               (case fold_res visit items s of
                  Inl e \<Rightarrow> Some (Inl e, w1)
                | Inr s' \<Rightarrow> drain get visit unproc s' w1))"

fun scan_chunks ::
  "batch_get \<Rightarrow> (ddb_row \<Rightarrow> 's \<Rightarrow> 's result) \<Rightarrow> py_str list list \<Rightarrow> 's \<Rightarrow> world \<Rightarrow> ('s result \<times> world) option" where
  "scan_chunks get visit [] s w = Some (Inr s, w)"
| "scan_chunks get visit (c # cs) s w =
     (case drain get visit c s w of
        None \<Rightarrow> None
      | Some (Inl e, w1) \<Rightarrow> Some (Inl e, w1)
      | Some (Inr s', w1) \<Rightarrow> scan_chunks get visit cs s' w1)"

section \<open>dup_scan.py\<close>

record dup_result =
  dr_total_scanned :: nat
  dr_duplicate_count :: nat
  dr_duplicate_task_ids :: "py_str list"
  dr_max_receive_count :: int

definition attr :: "ddb_row \<Rightarrow> py_str \<Rightarrow> py_str \<Rightarrow> py_str option" where
  "attr row name ty = dget (dget_default row name []) ty"

text \<open>\<open>item["task_id"]["S"]\<close>\<close>

definition row_task_id :: "ddb_row \<Rightarrow> py_str result" where
  "row_task_id row =
     (case dget row ''task_id'' of
        None \<Rightarrow> Inl (KeyError ''task_id'')
      | Some v \<Rightarrow> (case dget v ''S'' of None \<Rightarrow> Inl (KeyError ''S'') | Some t \<Rightarrow> Inr t))"

definition receive_count :: "ddb_row \<Rightarrow> int option" where
  "receive_count row =
     (case attr row ''receive_count'' ''N'' of
        None \<Rightarrow> None
      | Some v \<Rightarrow> (case int_of_str v of Inl _ \<Rightarrow> None | Inr n \<Rightarrow> Some n))"

definition dup_visit :: "ddb_row \<Rightarrow> py_str list \<times> int \<Rightarrow> (py_str list \<times> int) result" where
  "dup_visit row acc =
     (case receive_count row of
        None \<Rightarrow> Inr acc
      | Some rc \<Rightarrow>
          let max_rc = (if snd acc < rc then rc else snd acc)
          in if 1 < rc then bind_res (row_task_id row) (\<lambda>t. Inr (fst acc @ [t], max_rc))
             else Inr (fst acc, max_rc))"

definition dup_scan :: "batch_get \<Rightarrow> history \<Rightarrow> world \<Rightarrow> (dup_result result \<times> world) option" where
  "dup_scan get h w =
     (let task_ids = task_ids_from_history h
      in map_option (\<lambda>(r, w'). (bind_res r (\<lambda>(dup_ids, max_rc). Inr
             \<lparr>dr_total_scanned = length task_ids, dr_duplicate_count = length dup_ids,
              dr_duplicate_task_ids = dup_ids, dr_max_receive_count = max_rc\<rparr>), w'))
           (scan_chunks get dup_visit (chunks 100 task_ids) ([], 0) w))"

definition dup_to_dict :: "dup_result \<Rightarrow> nat \<times> nat \<times> int \<times> py_str list" where
  "dup_to_dict r = (dr_total_scanned r, dr_duplicate_count r, dr_max_receive_count r, take 20 (dr_duplicate_task_ids r))"

section \<open>divergence_scan.py\<close>

record divergence_result =
  dv_total_scanned :: nat
  dv_stuck_pending :: nat
  dv_stuck_assigned :: nat
  dv_missing :: nat
  dv_stuck_pending_sample :: "py_str list"
  dv_stuck_assigned_sample :: "py_str list"
  dv_missing_sample :: "py_str list"

record div_acc =
  da_pending :: "py_str list"
  da_assigned :: "py_str list"
  da_found :: "py_str set"

definition div_task_ids_from_history :: "history \<Rightarrow> py_str list" where
  "div_task_ids_from_history h = fst (fold note_task_id (events_of h) ([], {}))"

definition div_visit :: "ddb_row \<Rightarrow> div_acc \<Rightarrow> div_acc result" where
  "div_visit row acc =
     bind_res (row_task_id row) (\<lambda>t.
       let acc1 = acc\<lparr>da_found := insert t (da_found acc)\<rparr>;
           status = (case attr row ''status'' ''S'' of None \<Rightarrow> [] | Some x \<Rightarrow> x)
       in if status = ''PENDING'' then Inr (acc1\<lparr>da_pending := da_pending acc @ [t]\<rparr>)
          else if status = ''ASSIGNED'' then Inr (acc1\<lparr>da_assigned := da_assigned acc @ [t]\<rparr>)
          else Inr acc1)"

definition divergence_scan :: "batch_get \<Rightarrow> history \<Rightarrow> world \<Rightarrow> (divergence_result result \<times> world) option" where
  "divergence_scan get h w =
     (let task_ids = div_task_ids_from_history h
      in if task_ids = [] then
           Some (Inr \<lparr>dv_total_scanned = 0, dv_stuck_pending = 0, dv_stuck_assigned = 0, dv_missing = 0,
                      dv_stuck_pending_sample = [], dv_stuck_assigned_sample = [], dv_missing_sample = []\<rparr>, w)
         else
           map_option (\<lambda>(r, w'). (bind_res r (\<lambda>acc.
               let missing = filter (\<lambda>t. t \<notin> da_found acc) task_ids
               in Inr \<lparr>dv_total_scanned = length task_ids, dv_stuck_pending = length (da_pending acc),
                       dv_stuck_assigned = length (da_assigned acc), dv_missing = length missing,
                       dv_stuck_pending_sample = da_pending acc, dv_stuck_assigned_sample = da_assigned acc,
                       dv_missing_sample = missing\<rparr>), w'))
             (scan_chunks get div_visit (chunks 100 task_ids) \<lparr>da_pending = [], da_assigned = [], da_found = {}\<rparr> w))"

definition div_to_dict :: "divergence_result \<Rightarrow> nat \<times> nat \<times> nat \<times> nat \<times> py_str list \<times> py_str list \<times> py_str list" where
  "div_to_dict r = (dv_total_scanned r, dv_stuck_pending r, dv_stuck_assigned r, dv_missing r,
     take 20 (dv_stuck_pending_sample r), take 20 (dv_stuck_assigned_sample r), take 20 (dv_missing_sample r))"

section \<open>What BatchGetItem promises\<close>

type_synonym task_table = "py_str \<Rightarrow> ddb_row option"

definition rows_of :: "task_table \<Rightarrow> py_str list \<Rightarrow> ddb_row list" where
  "rows_of table keys = List.map_filter table keys"

definition honest_batch :: "task_table \<Rightarrow> batch_get \<Rightarrow> bool" where
  "honest_batch table get \<longleftrightarrow>
     (\<forall>k keys. \<exists>served items unproc. get k keys = Inr (items, unproc) \<and>
        mset keys = mset served + mset unproc \<and> mset items = mset (rows_of table served))"

definition advances_at :: "batch_get \<Rightarrow> nat \<Rightarrow> bool" where
  "advances_at get k \<longleftrightarrow>
     (\<forall>keys items unproc. keys \<noteq> [] \<longrightarrow> get k keys = Inr (items, unproc) \<longrightarrow> length unproc < length keys)"

definition progressing :: "batch_get \<Rightarrow> bool" where
  "progressing get \<longleftrightarrow> (\<forall>k. \<exists>d. advances_at get (k + d))"

definition keyed :: "task_table \<Rightarrow> bool" where
  "keyed table \<longleftrightarrow> (\<forall>t row. table t = Some row \<longrightarrow> row_task_id row = Inr t)"

section \<open>The contract of a visitor\<close>

lemma drain_unfold:
  "drain get visit keys s w =
     (if keys = [] then Some (Inr s, w)
      else case get (w_k w) keys of
             Inl e \<Rightarrow> Some (Inl e, tick w)
           | Inr (items, unproc) \<Rightarrow>
               (case fold_res visit items s of
                  Inl e \<Rightarrow> Some (Inl e, tick w)
                | Inr s' \<Rightarrow> drain get visit unproc s' (tick w)))"
  by (subst drain.simps) (simp add: call_def Let_def)

lemma w_k_tick [simp]: "w_k (tick w) = Suc (w_k w)"
  by (simp add: tick_def)

lemma set_mset_eq: "mset xs = mset ys \<Longrightarrow> set xs = set ys"
  by (metis set_mset_mset)

lemma rows_of_mset: "mset keys = mset keys' \<Longrightarrow> mset (rows_of table keys) = mset (rows_of table keys')"
  by (simp add: rows_of_def map_filter_def)

text \<open>
  A visitor that never fails on good rows, with the total function it computes there; then scanning
  visits every row of the table for the given keys, in some order.
\<close>

locale batch_visitor =
  fixes visit :: "ddb_row \<Rightarrow> 's \<Rightarrow> 's result"
    and upd :: "ddb_row \<Rightarrow> 's \<Rightarrow> 's"
    and good :: "ddb_row \<Rightarrow> bool"
  assumes visit_good: "good row \<Longrightarrow> visit row s = Inr (upd row s)"
begin

lemma fold_good: "\<forall>r \<in> set items. good r \<Longrightarrow> fold_res visit items s = Inr (fold upd items s)"
  by (rule fold_res_Inr) (simp add: visit_good)

definition drained :: "task_table \<Rightarrow> batch_get \<Rightarrow> py_str list \<Rightarrow> 's \<Rightarrow> world \<Rightarrow> bool" where
  "drained table get keys s w \<longleftrightarrow>
     (\<exists>items w'. drain get visit keys s w = Some (Inr (fold upd items s), w') \<and> mset items = mset (rows_of table keys))"

lemma drained_Nil: "drained table get [] s w"
  unfolding drained_def by (intro exI [of _ "[]"] exI [of _ w]) (simp add: drain_unfold rows_of_def map_filter_simps)

lemma drained_step:
  assumes honest: "honest_batch table get" and rows: "\<forall>t row. table t = Some row \<longrightarrow> good row" and "keys \<noteq> []"
    and rest: "\<And>items unproc. get (w_k w) keys = Inr (items, unproc) \<Longrightarrow> length unproc \<le> length keys \<Longrightarrow>
      drained table get unproc (fold upd items s) (tick w)"
  shows "drained table get keys s w"
proof -
  from honest obtain served items unproc where g: "get (w_k w) keys = Inr (items, unproc)"
    "mset keys = mset served + mset unproc" "mset items = mset (rows_of table served)"
    unfolding honest_batch_def by blast
  have "set items = set (rows_of table served)" using g(3) by (rule set_mset_eq)
  then have good: "fold_res visit items s = Inr (fold upd items s)"
    using rows by (intro fold_good) (auto simp: rows_of_def map_filter_def)
  have "length unproc \<le> length keys" using arg_cong [OF g(2), of size] by simp
  with rest [OF g(1)] obtain items' w' where rec:
    "drain get visit unproc (fold upd items s) (tick w) = Some (Inr (fold upd items' (fold upd items s)), w')"
    "mset items' = mset (rows_of table unproc)" unfolding drained_def by blast
  have "mset (rows_of table keys) = mset (rows_of table (served @ unproc))"
    using g(2) by (simp add: rows_of_mset)
  then have "mset (items @ items') = mset (rows_of table keys)"
    using g(3) rec(2) by (simp add: rows_of_def map_filter_def)
  moreover have "drain get visit keys s w = Some (Inr (fold upd (items @ items') s), w')"
    using assms(3) g(1) good rec(1) by (simp add: drain_unfold [of get visit keys])
  ultimately show ?thesis unfolding drained_def by blast
qed

lemma drain_visits:
  assumes honest: "honest_batch table get" and prog: "progressing get"
    and rows: "\<forall>t row. table t = Some row \<longrightarrow> good row"
  shows "drained table get keys s w"
proof (induction "length keys" arbitrary: keys s w rule: less_induct)
  case (less keys s w)
  have "drained table get ks s w" if "length ks = length keys" "advances_at get (w_k w + d)" for ks d s w
    using that
  proof (induction d arbitrary: ks s w)
    case 0
    show ?case
    proof (cases "ks = []")
      case False
      have "length unproc < length keys" if "get (w_k w) ks = Inr (items, unproc)" for items unproc
        using that 0 False by (auto simp: advances_at_def)
      then show ?thesis by (intro drained_step [OF honest rows False] less.hyps) blast
    qed (simp add: drained_Nil)
  next
    case (Suc d)
    show ?case
    proof (cases "ks = []")
      case False
      show ?thesis
      proof (rule drained_step [OF honest rows False])
        fix items :: "ddb_row list" and unproc :: "py_str list"
        assume "length unproc \<le> length ks"
        then consider "length unproc < length keys" | "length unproc = length keys" using Suc.prems(1) by linarith
        then show "drained table get unproc (fold upd items s) (tick w)"
          by cases (use less.hyps Suc.IH [of unproc "tick w"] Suc.prems(2) in simp_all)
      qed
    qed (simp add: drained_Nil)
  qed
  moreover obtain d where "advances_at get (w_k w + d)" using prog unfolding progressing_def by blast
  ultimately show ?case by blast
qed

lemma scan_visits:
  assumes "honest_batch table get" "progressing get" "\<forall>t row. table t = Some row \<longrightarrow> good row"
  shows "\<exists>items w'. scan_chunks get visit cs s w = Some (Inr (fold upd items s), w') \<and>
     mset items = mset (rows_of table (concat cs))"
proof (induction cs arbitrary: s w)
  case Nil
  show ?case by (intro exI [of _ "[]"] exI [of _ w]) (simp add: rows_of_def map_filter_simps)
next
  case (Cons c cs)
  from drain_visits [OF assms, of c s w] obtain items w1 where d:
    "drain get visit c s w = Some (Inr (fold upd items s), w1)" "mset items = mset (rows_of table c)"
    unfolding drained_def by blast
  from Cons [of "fold upd items s" w1] obtain items' w' where
    "scan_chunks get visit cs (fold upd items s) w1 = Some (Inr (fold upd items' (fold upd items s)), w')"
    "mset items' = mset (rows_of table (concat cs))" by blast
  with d show ?case
    by (intro exI [of _ "items @ items'"] exI [of _ w']) (simp add: rows_of_def map_filter_def)
qed

end

section \<open>What the visitors compute\<close>

definition dup_upd :: "ddb_row \<Rightarrow> py_str list \<times> int \<Rightarrow> py_str list \<times> int" where
  "dup_upd row acc = projr (dup_visit row acc)"

definition div_upd :: "ddb_row \<Rightarrow> div_acc \<Rightarrow> div_acc" where
  "div_upd row acc = projr (div_visit row acc)"

definition has_id :: "ddb_row \<Rightarrow> bool" where
  "has_id row \<longleftrightarrow> \<not> isl (row_task_id row)"

interpretation dups: batch_visitor dup_visit dup_upd has_id
proof unfold_locales
  show "dup_visit row s = Inr (dup_upd row s)" if "has_id row" for row s
    using that by (cases "row_task_id row") (auto simp: has_id_def dup_upd_def dup_visit_def Let_def split: option.splits)
qed

interpretation divs: batch_visitor div_visit div_upd has_id
proof unfold_locales
  show "div_visit row s = Inr (div_upd row s)" if "has_id row" for row s
    using that by (cases "row_task_id row") (auto simp: has_id_def div_upd_def div_visit_def Let_def)
qed

lemma keyed_has_id: "keyed table \<Longrightarrow> \<forall>t row. table t = Some row \<longrightarrow> has_id row"
  by (auto simp: keyed_def has_id_def)

definition id_of :: "ddb_row \<Rightarrow> py_str" where
  "id_of row = projr (row_task_id row)"

definition is_dup :: "ddb_row \<Rightarrow> bool" where
  "is_dup row \<longleftrightarrow> (case receive_count row of None \<Rightarrow> False | Some rc \<Rightarrow> 1 < rc)"

definition has_status :: "py_str \<Rightarrow> ddb_row \<Rightarrow> bool" where
  "has_status st row \<longleftrightarrow> attr row ''status'' ''S'' = Some st"

lemma fold_dup_upd:
  "\<forall>r \<in> set items. has_id r \<Longrightarrow>
   fold dup_upd items (ids, m) =
     (ids @ map id_of (filter is_dup items), fold max (List.map_filter receive_count items) m)"
proof (induction items arbitrary: ids m)
  case (Cons r items)
  obtain t where t: "row_task_id r = Inr t" using Cons.prems by (cases "row_task_id r") (auto simp: has_id_def)
  have "dup_upd r (ids, m) =
      (ids @ (if is_dup r then [id_of r] else []), (case receive_count r of None \<Rightarrow> m | Some rc \<Rightarrow> max rc m))"
    by (auto simp: dup_upd_def dup_visit_def is_dup_def id_of_def t Let_def max_def split: option.split)
  with Cons show ?case
    by (cases "receive_count r") (auto simp: map_filter_simps is_dup_def)
qed (simp add: map_filter_simps)

lemma fold_div_upd:
  "\<forall>r \<in> set items. has_id r \<Longrightarrow>
   fold div_upd items acc =
     acc\<lparr>da_pending := da_pending acc @ map id_of (filter (has_status ''PENDING'') items),
         da_assigned := da_assigned acc @ map id_of (filter (has_status ''ASSIGNED'') items),
         da_found := da_found acc \<union> id_of ` set items\<rparr>"
proof (induction items arbitrary: acc)
  case (Cons r items)
  obtain t where t: "row_task_id r = Inr t" using Cons.prems by (cases "row_task_id r") (auto simp: has_id_def)
  have "div_upd r acc =
      acc\<lparr>da_pending := da_pending acc @ (if has_status ''PENDING'' r then [id_of r] else []),
          da_assigned := da_assigned acc @ (if has_status ''ASSIGNED'' r then [id_of r] else []),
          da_found := insert (id_of r) (da_found acc)\<rparr>"
    by (cases "attr r ''status'' ''S''") (auto simp: div_upd_def div_visit_def has_status_def id_of_def t Let_def)
  with Cons show ?case by (auto simp: Un_insert_left)
qed simp

lemma rows_of_ids:
  assumes "keyed table" "distinct ids"
  shows "map id_of (rows_of table ids) = filter (\<lambda>t. table t \<noteq> None) ids" "\<forall>r \<in> set (rows_of table ids). has_id r"
    and "map id_of (filter P (rows_of table ids)) =
      filter (\<lambda>t. case table t of None \<Rightarrow> False | Some r \<Rightarrow> P r) ids"
  using assms
  by (induction ids) (auto simp: rows_of_def map_filter_simps keyed_def id_of_def has_id_def split: option.splits)

lemma mset_map_filter: "mset xs = mset ys \<Longrightarrow> mset (map f (filter P xs)) = mset (map f (filter P ys))"
  by simp

lemma fold_max_insert: "fold max xs (m :: int) = Max (insert m (set xs))"
proof (induction xs arbitrary: m)
  case (Cons x xs)
  have "Max (insert (max x m) (set xs)) = max (max x m) (Max (insert m (insert x (set xs))))"
    by (cases "set xs = {}") (auto simp: max_def)
  then show ?case using Cons [of "max x m"] by (simp add: max_absorb2)
qed simp

lemma div_task_ids_same: "div_task_ids_from_history h = task_ids_from_history h"
  by (simp add: div_task_ids_from_history_def task_ids_from_history_def)

lemma task_ids_distinct [simp]: "distinct (task_ids_from_history h)"
  by (simp add: task_ids_from_history_eq)

lemma set_map_filter: "set (List.map_filter f xs) = {y. \<exists>x \<in> set xs. f x = Some y}"
  by (auto simp: map_filter_def) force

lemma filter_mset_card:
  "mset xs = mset (filter P ids) \<Longrightarrow> distinct ids \<Longrightarrow> distinct xs \<and> set xs = {t \<in> set ids. P t} \<and> length xs = card {t \<in> set ids. P t}"
  by (metis distinct_card distinct_filter mset_eq_imp_distinct_iff mset_eq_length set_filter set_mset_eq)

lemma dup_scan_result:
  assumes "honest_batch table get" "progressing get" "keyed table"
  shows "\<exists>res w'. dup_scan get h w = Some (Inr res, w') \<and>
     dr_total_scanned res = card (set (submit_ids (events_of h))) \<and>
     distinct (dr_duplicate_task_ids res) \<and>
     set (dr_duplicate_task_ids res) =
       {t \<in> set (submit_ids (events_of h)). \<exists>row. table t = Some row \<and> is_dup row} \<and>
     dr_duplicate_count res = card (set (dr_duplicate_task_ids res)) \<and>
     dr_max_receive_count res =
       Max (insert 0 {rc. \<exists>t \<in> set (submit_ids (events_of h)). \<exists>row. table t = Some row \<and> receive_count row = Some rc})"
proof -
  let ?ids = "task_ids_from_history h"
  from dups.scan_visits [OF assms(1,2) keyed_has_id [OF assms(3)], of "chunks 100 ?ids" "([], 0)" w]
  obtain items w' where scan: "scan_chunks get dup_visit (chunks 100 ?ids) ([], 0) w = Some (Inr (fold dup_upd items ([], 0)), w')"
    and items: "mset items = mset (rows_of table ?ids)" by (auto simp: concat_chunks)
  have ids: "set ?ids = set (submit_ids (events_of h))" by (simp add: task_ids_from_history_eq)
  have seti: "set items = set (rows_of table ?ids)" by (rule set_mset_eq [OF items])
  have fold: "fold dup_upd items ([], 0) =
      (map id_of (filter is_dup items), fold max (List.map_filter receive_count items) 0)"
    using rows_of_ids(2) [OF assms(3), of ?ids] seti by (simp add: fold_dup_upd)
  have "mset (map id_of (filter is_dup items)) =
      mset (filter (\<lambda>t. case table t of None \<Rightarrow> False | Some r \<Rightarrow> is_dup r) ?ids)"
    using mset_map_filter [OF items, of id_of is_dup] rows_of_ids(3) [OF assms(3), of ?ids is_dup] by simp
  from filter_mset_card [OF this]
  have dup: "distinct (map id_of (filter is_dup items))"
    "set (map id_of (filter is_dup items)) = {t \<in> set ?ids. \<exists>row. table t = Some row \<and> is_dup row}"
    by (auto split: option.splits)
  have "set (List.map_filter receive_count items) =
      {rc. \<exists>t \<in> set ?ids. \<exists>row. table t = Some row \<and> receive_count row = Some rc}"
    by (simp only: set_map_filter seti rows_of_def) blast
  then have "fold max (List.map_filter receive_count items) 0 =
      Max (insert 0 {rc. \<exists>t \<in> set ?ids. \<exists>row. table t = Some row \<and> receive_count row = Some rc})"
    by (simp add: fold_max_insert)
  with scan dup show ?thesis
    using distinct_card [OF dup(1)] distinct_card [of ?ids]
    by (simp add: dup_scan_def fold ids)
qed

lemma divergence_scan_result:
  assumes "honest_batch table get" "progressing get" "keyed table"
  shows "\<exists>res w'. divergence_scan get h w = Some (Inr res, w') \<and>
     (let ids = set (submit_ids (events_of h)) in
       set (dv_stuck_pending_sample res) = {t \<in> ids. \<exists>row. table t = Some row \<and> has_status ''PENDING'' row} \<and>
       set (dv_stuck_assigned_sample res) = {t \<in> ids. \<exists>row. table t = Some row \<and> has_status ''ASSIGNED'' row} \<and>
       set (dv_missing_sample res) = {t \<in> ids. table t = None} \<and>
       dv_stuck_pending res = card (set (dv_stuck_pending_sample res)) \<and>
       dv_stuck_assigned res = card (set (dv_stuck_assigned_sample res)) \<and>
       dv_missing res = card (set (dv_missing_sample res)) \<and>
       dv_total_scanned res = card ids)"
proof (cases "task_ids_from_history h = []")
  case True
  then have "submit_ids (events_of h) = []"
    by (metis set_first_occs set_empty task_ids_from_history_eq)
  with True show ?thesis by (simp add: divergence_scan_def div_task_ids_same Let_def)
next
  case False
  let ?ids = "task_ids_from_history h" and ?acc = "\<lparr>da_pending = [], da_assigned = [], da_found = {}\<rparr> :: div_acc"
  from divs.scan_visits [OF assms(1,2) keyed_has_id [OF assms(3)], of "chunks 100 ?ids" ?acc w]
  obtain items w' where scan: "scan_chunks get div_visit (chunks 100 ?ids) ?acc w = Some (Inr (fold div_upd items ?acc), w')"
    and items: "mset items = mset (rows_of table ?ids)" by (auto simp: concat_chunks)
  have ids: "set ?ids = set (submit_ids (events_of h))" by (simp add: task_ids_from_history_eq)
  have seti: "set items = set (rows_of table ?ids)" by (rule set_mset_eq [OF items])
  have fold: "fold div_upd items ?acc =
      \<lparr>da_pending = map id_of (filter (has_status ''PENDING'') items),
       da_assigned = map id_of (filter (has_status ''ASSIGNED'') items), da_found = id_of ` set items\<rparr>"
    using rows_of_ids(2) [OF assms(3), of ?ids] seti by (simp add: fold_div_upd)
  have st: "distinct (map id_of (filter (has_status x) items)) \<and>
      set (map id_of (filter (has_status x) items)) = {t \<in> set ?ids. \<exists>row. table t = Some row \<and> has_status x row}" for x
    using filter_mset_card [of "map id_of (filter (has_status x) items)" _ ?ids]
      mset_map_filter [OF items, of id_of "has_status x"] rows_of_ids(3) [OF assms(3), of ?ids "has_status x"]
    by (auto split: option.splits)
  have "id_of ` set items = {t \<in> set ?ids. table t \<noteq> None}"
    using arg_cong [OF rows_of_ids(1) [OF assms(3), of ?ids], of set] seti by simp
  then have miss: "filter (\<lambda>t. t \<notin> id_of ` set items) ?ids = filter (\<lambda>t. table t = None) ?ids"
    by (intro filter_cong) auto
  from scan False show ?thesis
    using distinct_card [of ?ids] distinct_card [of "filter (\<lambda>t. table t = None) ?ids"]
      distinct_card [OF conjunct1 [OF st]] conjunct2 [OF st]
    by (simp add: divergence_scan_def div_task_ids_same Let_def fold miss ids)
qed

section \<open>Properties\<close>

text \<open>
  C22: the duplicate scan.  If BatchGetItem returns the rows of some of the requested keys and hands the
  others back, and does not do so forever without progress, the scan ends without error: it has
  scanned every submitted task once, and reports as duplicates exactly the submitted tasks whose
  row has a receive count above 1, each once, with the greatest receive count (0 if none).
\<close>

theorem dup_scan_correct:
  assumes "honest_batch table get" "progressing get" "keyed table"
  shows "\<exists>res w'. dup_scan get h w = Some (Inr res, w') \<and>
     dr_total_scanned res = card (set (submit_ids (events_of h))) \<and>
     distinct (dr_duplicate_task_ids res) \<and>
     set (dr_duplicate_task_ids res) =
       {t \<in> set (submit_ids (events_of h)). \<exists>row. table t = Some row \<and> is_dup row} \<and>
     dr_duplicate_count res = card (set (dr_duplicate_task_ids res)) \<and>
     dr_max_receive_count res =
       Max (insert 0 {rc. \<exists>t \<in> set (submit_ids (events_of h)). \<exists>row. table t = Some row \<and> receive_count row = Some rc})"
  by (rule dup_scan_result [OF assms])

text \<open>
  C23: the divergence scan, under the same conditions: stuck in \<open>PENDING\<close>, stuck in \<open>ASSIGNED\<close> and
  missing are exactly the submitted tasks whose row has that status or that have no row, and all
  other submitted tasks have a row with another status; it does not look at receive counts.
\<close>

theorem divergence_scan_correct:
  assumes "honest_batch table get" "progressing get" "keyed table"
  shows "\<exists>res w'. divergence_scan get h w = Some (Inr res, w') \<and>
     (let ids = set (submit_ids (events_of h)) in
       set (dv_stuck_pending_sample res) = {t \<in> ids. \<exists>row. table t = Some row \<and> has_status ''PENDING'' row} \<and>
       set (dv_stuck_assigned_sample res) = {t \<in> ids. \<exists>row. table t = Some row \<and> has_status ''ASSIGNED'' row} \<and>
       set (dv_missing_sample res) = {t \<in> ids. table t = None} \<and>
       dv_stuck_pending res = card (set (dv_stuck_pending_sample res)) \<and>
       dv_stuck_assigned res = card (set (dv_stuck_assigned_sample res)) \<and>
       dv_missing res = card (set (dv_missing_sample res)) \<and>
       dv_total_scanned res = card ids)"
  by (rule divergence_scan_result [OF assms])

definition demo_table :: task_table where
  "demo_table t = (if t = ''t1'' then Some [(''task_id'', [(''S'', ''t1'')]), (''receive_count'', [(''N'', ''2'')]),
     (''status'', [(''S'', ''COMPLETED'')])] else None)"

definition demo_get :: batch_get where
  "demo_get k keys = Inr (rows_of demo_table keys, [])"

definition demo_history :: history where
  "demo_history = [EventLine ((event_of ''submit'')\<lparr>e_task_id := Some ''t1''\<rparr>), BlankLine,
     EventLine ((event_of ''submit'')\<lparr>e_task_id := Some ''t2''\<rparr>)]"

lemma demo_batch: "honest_batch demo_table demo_get" "progressing demo_get" "keyed demo_table"
proof -
  show "honest_batch demo_table demo_get"
    unfolding honest_batch_def demo_get_def by (auto intro: exI [of _ "_ :: py_str list"])
  show "progressing demo_get" by (auto simp: progressing_def advances_at_def demo_get_def)
  show "keyed demo_table" by (auto simp: keyed_def demo_table_def row_task_id_def split: if_splits)
qed

lemma demo_ids: "submit_ids (events_of demo_history) = [''t1'', ''t2'']"
  by (simp add: demo_history_def submit_ids_def submit_id_def is_submit_def map_filter_simps)

theorem dup_scan_correct_witness:
  "\<exists>res w'. dup_scan demo_get demo_history \<lparr>w_ns = 0, w_k = 0, w_delay = (\<lambda>_. 1)\<rparr> = Some (Inr res, w') \<and>
     dr_total_scanned res = 2 \<and> set (dr_duplicate_task_ids res) = {''t1''}"
proof -
  have rc: "receive_count [(''task_id'', [(''S'', ''t1'')]), (''receive_count'', [(''N'', ''2'')]), (''status'', [(''S'', ''COMPLETED'')])] = Some 2"
    by (simp add: receive_count_def attr_def dget_default_def int_of_str_def strip_def is_space_def unsigned_of_str_def
        is_digit_def nat_of_digits_def digit_val_def)
  from dup_scan_correct [OF demo_batch, of demo_history "\<lparr>w_ns = 0, w_k = 0, w_delay = (\<lambda>_. 1)\<rparr>"]
  obtain res w' where res: "dup_scan demo_get demo_history \<lparr>w_ns = 0, w_k = 0, w_delay = (\<lambda>_. 1)\<rparr> = Some (Inr res, w')"
    "dr_total_scanned res = card (set (submit_ids (events_of demo_history)))"
    "set (dr_duplicate_task_ids res) =
       {t \<in> set (submit_ids (events_of demo_history)). \<exists>row. demo_table t = Some row \<and> is_dup row}" by blast
  have "{t \<in> {''t1'', ''t2''}. \<exists>row. demo_table t = Some row \<and> is_dup row} = {''t1''}"
    using rc by (auto simp: demo_table_def is_dup_def)
  with res show ?thesis by (simp add: demo_ids)
qed

theorem divergence_scan_correct_witness:
  "\<exists>res w'. divergence_scan demo_get demo_history \<lparr>w_ns = 0, w_k = 0, w_delay = (\<lambda>_. 1)\<rparr> = Some (Inr res, w') \<and>
     dv_total_scanned res = 2 \<and> set (dv_missing_sample res) = {''t2''}"
proof -
  from divergence_scan_correct [OF demo_batch, of demo_history "\<lparr>w_ns = 0, w_k = 0, w_delay = (\<lambda>_. 1)\<rparr>"]
  obtain res w' where res: "divergence_scan demo_get demo_history \<lparr>w_ns = 0, w_k = 0, w_delay = (\<lambda>_. 1)\<rparr> = Some (Inr res, w')"
    "dv_total_scanned res = card (set (submit_ids (events_of demo_history)))"
    "set (dv_missing_sample res) = {t \<in> set (submit_ids (events_of demo_history)). demo_table t = None}"
    unfolding Let_def by blast
  have "{t \<in> {''t1'', ''t2''}. demo_table t = None} = {''t2''}" by (auto simp: demo_table_def)
  with res show ?thesis by (simp add: demo_ids)
qed

end
