(* ===== verification/Exp3.thy ===== *)
theory Exp3
  imports Bench Scans
begin

text \<open>
  \<open>chaos-bench/exp3.py\<close>: the traced poll that records every status observation, and the analysis
  that combines the two scans, the linearizability checker and the event counts; and the checker
  itself, \<open>experiments/lincheck/main.go\<close>.  Porcupine, which decides linearizability, is a
  parameter of the checker.
\<close>

section \<open>Traced poll\<close>

definition observe_event :: "py_str \<Rightarrow> int \<Rightarrow> int \<Rightarrow> py_str option \<Rightarrow> hist_event" where
  "observe_event tid call_ns return_ns st =
     (event_of ''poll_observe'')\<lparr>e_task_id := Some tid, e_call_ns := Some call_ns, e_return_ns := Some return_ns,
       e_status := st\<rparr>"

definition traced_body ::
  "tasks_db \<Rightarrow> py_str \<Rightarrow> int \<Rightarrow> real \<Rightarrow> history \<Rightarrow> world \<Rightarrow> ((unit result \<times> history) + history) \<times> world" where
  "traced_body db tid submitted_ns interval h w =
     (let (call_ns, w1) = now_ns w;
          (r, w2) = poll_status db tid w1
      in case r of
           Inl e \<Rightarrow> (Inl (Inl e, h), w2)
         | Inr st \<Rightarrow>
             let (return_ns, w3) = now_ns w2
             in if st = None \<or> st = Some [] then (Inr h, sleep interval w3)
                else
                  let (h1, w4) = record_event (observe_event tid call_ns return_ns st) (h, w3)
                  in if is_terminal st then
                       let (h2, w5) = record_event (complete_event tid submitted_ns return_ns st) (h1, w4)
                       in (Inl (Inr (), h2), w5)
                     else (Inr h1, sleep interval w4))"

definition poll_to_completion_traced ::
  "tasks_db \<Rightarrow> py_str \<Rightarrow> int \<Rightarrow> real \<Rightarrow> real \<Rightarrow> history \<Rightarrow> world \<Rightarrow> ((unit result \<times> history) \<times> world) option" where
  "poll_to_completion_traced db tid submitted_ns timeout_s interval h w =
     (let (t0, w1) = now w
      in map_option (\<lambda>(out, w2).
           case out of
             Inl res \<Rightarrow> (res, w2)
           | Inr h' \<Rightarrow>
               let (t, w3) = now_ns w2;
                   (h'', w4) = record_event (timeout_event tid submitted_ns t) (h', w3)
               in ((Inr (), h''), w4))
         (deadline_loop (t0 + timeout_s) (traced_body db tid submitted_ns interval) h w1))"

section \<open>lincheck\<close>

definition status_code :: "py_str \<Rightarrow> nat" where
  "status_code st =
     (if st = ''PENDING'' then 1 else if st = ''ASSIGNED'' then 2
      else if st = ''COMPLETED'' \<or> st = ''FAILED'' then 3 else 0)"

text \<open>The \<open>Step\<close> function of the monotone model: the new state, or \<open>None\<close> for a backward transition.\<close>

definition model_step :: "nat \<Rightarrow> nat \<Rightarrow> nat option" where
  "model_step cur code = (if code = 0 then Some cur else if code < cur then None else Some (max code cur))"

record lin_op =
  op_code :: nat
  op_call :: int
  op_return :: int

definition lin_op_of :: "hist_event \<Rightarrow> (py_str \<times> lin_op) option" where
  "lin_op_of ev =
     (if \<not> is_op ''poll_observe'' ev then None
      else case e_task_id ev of
             None \<Rightarrow> None
           | Some t \<Rightarrow>
               let code = (case e_status ev of None \<Rightarrow> 0 | Some st \<Rightarrow> status_code st)
               in if t = [] \<or> code = 0 then None
                  else Some (t, \<lparr>op_code = code, op_call = get_or (e_call_ns ev) 0, op_return = get_or (e_return_ns ev) 0\<rparr>))"

definition lin_groups :: "hist_event list \<Rightarrow> (py_str, lin_op list) pydict" where
  "lin_groups evs = group_by (\<lambda>_. True) fst snd (List.map_filter lin_op_of evs)"

record lin_result =
  lr_total_tasks :: nat
  lr_total_operations :: nat
  lr_violations :: nat
  lr_violating_task_sample :: "py_str list"
  lr_linearizable :: bool

definition lincheck :: "(lin_op list \<Rightarrow> bool) \<Rightarrow> history \<Rightarrow> lin_result" where
  "lincheck check_ops h =
     (let groups = lin_groups (events_of h);
          violating = filter (\<lambda>(t, ops). \<not> check_ops (sort_key op_call ops)) groups
      in \<lparr>lr_total_tasks = length groups, lr_total_operations = sum_list (map (length \<circ> snd) groups),
          lr_violations = length violating, lr_violating_task_sample = take 20 (sort (map fst violating)),
          lr_linearizable = (violating = [])\<rparr>)"

definition lincheck_exit :: "lin_result \<Rightarrow> int" where
  "lincheck_exit res = (if lr_linearizable res then 0 else 1)"

section \<open>Analysis\<close>

datatype lin_outcome = LinTimeout | LinExit int "int option"

record exp3_counts =
  c_leader_kills :: nat
  c_follower_kills :: nat
  c_redeliveries :: int
  c_submitted :: nat
  c_completed :: nat
  c_timed_out :: nat

definition exp3_counts_init :: exp3_counts where
  "exp3_counts_init = \<lparr>c_leader_kills = 0, c_follower_kills = 0, c_redeliveries = 0, c_submitted = 0,
     c_completed = 0, c_timed_out = 0\<rparr>"

definition exp3_line :: "hist_event \<Rightarrow> exp3_counts \<Rightarrow> exp3_counts" where
  "exp3_line ev c =
     (if is_op ''submit'' ev then c\<lparr>c_submitted := c_submitted c + 1\<rparr>
      else if is_op ''complete'' ev then c\<lparr>c_completed := c_completed c + 1\<rparr>
      else if is_op ''timeout'' ev then c\<lparr>c_timed_out := c_timed_out c + 1\<rparr>
      else if is_op ''chaos.kill_leader'' ev then c\<lparr>c_leader_kills := c_leader_kills c + 1\<rparr>
      else if is_op ''chaos.kill_follower'' ev then c\<lparr>c_follower_kills := c_follower_kills c + 1\<rparr>
      else if is_op ''chaos.sqs_redeliver'' ev then c\<lparr>c_redeliveries := c_redeliveries c + get_or (e_redelivered ev) 0\<rparr>
      else c)"

record exp3_stats =
  t_submitted :: nat
  t_completed :: nat
  t_timed_out :: nat
  t_lost :: int
  t_leader_kills :: nat
  t_follower_kills :: nat
  t_redeliveries :: int
  t_duplicate_dispatches :: nat
  t_max_receive_count :: int
  t_stuck_pending :: nat
  t_stuck_assigned :: nat
  t_linearizability_violations :: int

text \<open>\<open>lin\<close>: \<open>None\<close> when no checker binary is given or it is not a file, else how the subprocess ended.\<close>

definition lin_violations :: "lin_outcome option \<Rightarrow> int" where
  "lin_violations lin =
     (case lin of
        Some (LinExit code reported) \<Rightarrow> if code = 0 then get_or reported 0 else -1
      | _ \<Rightarrow> -1)"

definition exp3_stats_of :: "history \<Rightarrow> dup_result \<Rightarrow> divergence_result \<Rightarrow> lin_outcome option \<Rightarrow> exp3_stats" where
  "exp3_stats_of h dup dv lin =
     (let c = fold exp3_line (events_of h) exp3_counts_init
      in \<lparr>t_submitted = c_submitted c, t_completed = c_completed c, t_timed_out = c_timed_out c,
          t_lost = max 0 (int (c_submitted c) - int (c_completed c) - int (c_timed_out c)),
          t_leader_kills = c_leader_kills c, t_follower_kills = c_follower_kills c, t_redeliveries = c_redeliveries c,
          t_duplicate_dispatches = dr_duplicate_count dup, t_max_receive_count = dr_max_receive_count dup,
          t_stuck_pending = dv_stuck_pending dv, t_stuck_assigned = dv_stuck_assigned dv,
          t_linearizability_violations = lin_violations lin\<rparr>)"

definition exp3_analyze :: "batch_get \<Rightarrow> lin_outcome option \<Rightarrow> history \<Rightarrow> world \<Rightarrow> (exp3_stats result \<times> world) option" where
  "exp3_analyze get lin h w =
     (case dup_scan get h w of
        None \<Rightarrow> None
      | Some (Inl e, w1) \<Rightarrow> Some (Inl e, w1)
      | Some (Inr dup, w1) \<Rightarrow>
          (case divergence_scan get h w1 of
             None \<Rightarrow> None
           | Some (Inl e, w2) \<Rightarrow> Some (Inl e, w2)
           | Some (Inr dv, w2) \<Rightarrow> Some (Inr (exp3_stats_of h dup dv lin), w2)))"

text \<open>How the subprocess ends when it runs the checker on this history.\<close>

definition run_lincheck :: "(lin_op list \<Rightarrow> bool) \<Rightarrow> history \<Rightarrow> lin_outcome" where
  "run_lincheck check_ops h =
     (let res = lincheck check_ops h in LinExit (lincheck_exit res) (Some (int (lr_violations res))))"

section \<open>What the traced poll records\<close>

text \<open>
  \<open>obs_chain tid lo obs hi\<close>: the events are observations of \<open>tid\<close>, each begun strictly after the one
  before ended (the first after \<open>lo\<close>), and all ended before \<open>hi\<close>.
\<close>

fun obs_chain :: "py_str \<Rightarrow> int \<Rightarrow> hist_event list \<Rightarrow> int \<Rightarrow> bool" where
  "obs_chain tid lo [] hi = (lo < hi)"
| "obs_chain tid lo (ev # evs) hi =
     (\<exists>c r. is_op ''poll_observe'' ev \<and> e_task_id ev = Some tid \<and> e_call_ns ev = Some c \<and> e_return_ns ev = Some r \<and>
        e_status ev \<noteq> None \<and> lo < c \<and> c \<le> r \<and> obs_chain tid r evs hi)"

lemma obs_chain_later: "obs_chain tid lo obs hi \<Longrightarrow> hi \<le> hi' \<Longrightarrow> obs_chain tid lo obs hi'"
  by (induction obs arbitrary: lo) auto

lemma obs_chain_snoc:
  "obs_chain tid lo obs hi \<Longrightarrow> hi \<le> c \<Longrightarrow> c \<le> r \<Longrightarrow> r < hi' \<Longrightarrow> st \<noteq> None \<Longrightarrow>
   obs_chain tid lo (obs @ [stamp t (observe_event tid c r st)]) hi'"
  by (induction obs arbitrary: lo) (auto simp: observe_event_def)

lemma sleep_advances: "0 < d \<Longrightarrow> w_ns w < w_ns (sleep d w)"
proof -
  assume "0 < d"
  then have "0 < nat \<lceil>d * 1000000000\<rceil>" by simp
  moreover have "w_ns (sleep d w) = w_ns (tick w) + nat \<lceil>d * 1000000000\<rceil>" by (simp add: sleep_def Let_def)
  ultimately show ?thesis using w_ns_tick [of w] by linarith
qed

lemma traced_body_eq:
  "traced_body db tid submitted_ns interval h w =
     (case fst (poll_status db tid (tick w)) of
        Inl e \<Rightarrow> (Inl (Inl e, h), tick (tick w))
      | Inr st \<Rightarrow>
          let c = int (w_ns (tick w)); w3 = tick (tick (tick w)); r = int (w_ns w3);
              obs = stamp (int (w_ns (tick w3))) (observe_event tid c r st)
          in if st = None \<or> st = Some [] then (Inr h, sleep interval w3)
             else if is_terminal st then
               (Inl (Inr (), h @ map EventLine [obs, stamp (int (w_ns (tick (tick w3)))) (complete_event tid submitted_ns r st)]),
                tick (tick w3))
             else (Inr (h @ [EventLine obs]), sleep interval (tick w3)))"
  using poll_status_time [of db tid "tick w"]
  by (cases "poll_status db tid (tick w)") (simp add: traced_body_def now_ns_def record_event_eq Let_def split: sum.split)

lemma tick3: "w_ns w \<le> w_ns (tick w)" "w_ns (tick w) \<le> w_ns (tick (tick (tick w)))"
  "secs w \<le> secs (tick (tick (tick w)))"
  unfolding secs_mono_iff
  using w_ns_tick [of w] w_ns_tick [of "tick w"] w_ns_tick [of "tick (tick w)"] by linarith+

lemma traced_polls:
  assumes "0 < interval"
  shows "deadline_poll (traced_body db tid submitted_ns interval) interval"
proof unfold_locales
  fix s w s' w'
  assume b: "traced_body db tid submitted_ns interval s w = (Inr s', w')"
  have "secs w \<le> secs (tick (tick (tick (tick w))))" using tick3(3) [of w] order_trans [OF _ secs_tick] by blast
  with b secs_sleep_after [OF tick3(3), of w interval] secs_sleep_after [of w "tick (tick (tick (tick w)))" interval]
  show "secs w + interval \<le> secs w'"
    by (auto simp: traced_body_eq Let_def split: sum.splits if_splits)
qed (rule assms)

definition traced_ok :: "tasks_db \<Rightarrow> py_str \<Rightarrow> int \<Rightarrow> real \<Rightarrow> hist_event list \<Rightarrow> hist_event list \<Rightarrow> bool" where
  "traced_ok db tid submitted_ns dl obs fin \<longleftrightarrow>
     (\<exists>hi. obs_chain tid (-1) obs hi) \<and>
     (fin = [] \<or>
      (\<exists>ev. fin = [ev] \<and> outcome_ok db tid submitted_ns dl ev \<and>
         (is_op ''timeout'' ev \<or>
          (\<exists>obs' lst. obs = obs' @ [lst] \<and> e_status ev = e_status lst \<and> e_completed_ns ev = e_return_ns lst))))"

lemma traced_inv_step:
  assumes "0 < interval" "traced_body db tid submitted_ns interval (h @ map EventLine obs) w = (Inr h', w')"
    and "obs_chain tid (-1) obs (int (w_ns w))"
  shows "\<exists>obs'. h' = h @ map EventLine obs' \<and> obs_chain tid (-1) obs' (int (w_ns w'))"
proof -
  let ?w3 = "tick (tick (tick w))"
  have t: "w_ns w \<le> w_ns ?w3" "w_ns ?w3 < w_ns (sleep interval (tick ?w3))" "w_ns ?w3 \<le> w_ns (sleep interval ?w3)"
    using tick3(1,2) [of w] sleep_advances [OF assms(1), of "tick ?w3"] sleep_advances [OF assms(1), of ?w3]
      w_ns_tick [of ?w3] by linarith+
  have keep: "obs_chain tid (-1) obs (int (w_ns (sleep interval ?w3)))"
    using obs_chain_later [OF assms(3)] t by force
  have add: "obs_chain tid (-1) (obs @ [stamp x (observe_event tid (int (w_ns (tick w))) (int (w_ns ?w3)) st)])
      (int (w_ns (sleep interval (tick ?w3))))" if "st \<noteq> None" for st x
    using obs_chain_snoc [OF assms(3), of "int (w_ns (tick w))" "int (w_ns ?w3)"] tick3(1,2) [of w] t(2) that by simp
  from assms(2) obtain st where st: "fst (poll_status db tid (tick w)) = Inr st"
    by (cases "fst (poll_status db tid (tick w))") (auto simp: traced_body_eq)
  show ?thesis
  proof (cases "st = None \<or> st = Some []")
    case True
    with assms(2) st keep show ?thesis by (intro exI [of _ obs]) (auto simp: traced_body_eq Let_def)
  next
    case False
    with assms(2) st add [of st "int (w_ns (tick ?w3))"] show ?thesis
      by (intro exI [of _ "obs @ [stamp (int (w_ns (tick ?w3))) (observe_event tid (int (w_ns (tick w))) (int (w_ns ?w3)) st)]"])
        (auto simp: traced_body_eq Let_def split: if_splits)
  qed
qed

lemma traced_stop_step:
  assumes "traced_body db tid submitted_ns interval (h @ map EventLine obs) w = (Inl (r, h'), w')"
    and "obs_chain tid (-1) obs (int (w_ns w))"
  shows "\<exists>obs' fin. h' = h @ map EventLine (obs' @ fin) \<and> traced_ok db tid submitted_ns dl obs' fin \<and> (isl r \<longleftrightarrow> fin = [])"
proof (cases "fst (poll_status db tid (tick w))")
  case (Inl e)
  with assms show ?thesis
    by (intro exI [of _ obs] exI [of _ "[]"]) (auto simp: traced_body_eq traced_ok_def)
next
  case (Inr st)
  let ?w3 = "tick (tick (tick w))"
  let ?obs = "stamp (int (w_ns (tick ?w3))) (observe_event tid (int (w_ns (tick w))) (int (w_ns ?w3)) st)"
  let ?fin = "stamp (int (w_ns (tick (tick ?w3)))) (complete_event tid submitted_ns (int (w_ns ?w3)) st)"
  from assms(1) Inr have st: "is_terminal st" "st \<noteq> None" "r = Inr ()" "h' = h @ map EventLine ((obs @ [?obs]) @ [?fin])"
    by (auto simp: traced_body_eq Let_def split: if_splits)
  have "obs_chain tid (-1) (obs @ [?obs]) (int (w_ns ?w3) + 1)"
    using st(2) tick3(1,2) [of w] by (intro obs_chain_snoc [OF assms(2)]) auto
  moreover have "outcome_ok db tid submitted_ns dl ?fin"
    using st(1) poll_status_Inr [OF Inr] by (auto simp: outcome_ok_def complete_event_def)
  ultimately have "traced_ok db tid submitted_ns dl (obs @ [?obs]) [?fin]"
    by (auto simp: traced_ok_def complete_event_def observe_event_def)
  with st(3,4) show ?thesis by (intro exI [of _ "obs @ [?obs]"] exI [of _ "[?fin]"]) simp
qed

lemma traced_outcome_lemma:
  assumes "0 < interval"
  shows "\<exists>r obs fin w'. poll_to_completion_traced db tid submitted_ns timeout_s interval h w =
       Some ((r, h @ map EventLine (obs @ fin)), w') \<and>
     traced_ok db tid submitted_ns (secs (tick w) + timeout_s) obs fin \<and> (isl r \<longleftrightarrow> fin = [])"
proof -
  let ?dl = "secs (tick w) + timeout_s" and ?body = "traced_body db tid submitted_ns interval"
  obtain out w2 where loop: "deadline_loop ?dl ?body h (tick w) = Some (out, w2)"
    using deadline_poll.loop_returns [OF traced_polls [OF assms]] by fastforce
  have res: "case out of
      Inl (r, h') \<Rightarrow> (\<exists>obs fin. h' = h @ map EventLine (obs @ fin) \<and> traced_ok db tid submitted_ns ?dl obs fin \<and> (isl r \<longleftrightarrow> fin = []))
    | Inr h' \<Rightarrow> (\<exists>obs hi. h' = h @ map EventLine obs \<and> obs_chain tid (-1) obs hi) \<and> ?dl \<le> secs w2"
  proof (rule deadline_loop_rule [OF loop, where I = "\<lambda>h' v. \<exists>obs. h' = h @ map EventLine obs \<and> obs_chain tid (-1) obs (int (w_ns v))"])
    show "\<exists>obs. h = h @ map EventLine obs \<and> obs_chain tid (-1) obs (int (w_ns (tick w)))"
      by (intro exI [of _ "[]"]) simp
  next
    fix s and v :: world
    assume "\<exists>obs. s = h @ map EventLine obs \<and> obs_chain tid (-1) obs (int (w_ns v))"
    then show "\<exists>obs. s = h @ map EventLine obs \<and> obs_chain tid (-1) obs (int (w_ns (tick v)))"
      using obs_chain_later [where hi = "int (w_ns v)"] w_ns_tick [of v] by (metis of_nat_le_iff)
  qed (use traced_inv_step [OF assms] traced_stop_step in \<open>fastforce+\<close>)
  have late: "traced_ok db tid submitted_ns ?dl obs [stamp t (timeout_event tid submitted_ns (int (w_ns (tick w2))))]"
    if "?dl \<le> secs w2" "obs_chain tid (-1) obs hi" for t obs hi
  proof -
    from that(1) order_trans [OF _ secs_tick] have "?dl \<le> secs (tick w2)" by blast
    then show ?thesis using that(2) by (auto simp: traced_ok_def outcome_ok_def timeout_event_def secs_def field_simps)
  qed
  show ?thesis
  proof (cases out)
    case (Inl p)
    obtain r h' where p: "p = (r, h')" by fastforce
    have "poll_to_completion_traced db tid submitted_ns timeout_s interval h w = Some ((r, h'), w2)"
      using loop by (simp add: poll_to_completion_traced_def now_def Let_def Inl p)
    with res [unfolded Inl p] show ?thesis by auto
  next
    case (Inr h')
    with res obtain obs hi where o: "h' = h @ map EventLine obs" "obs_chain tid (-1) obs hi" "?dl \<le> secs w2" by auto
    let ?fin = "stamp (int (w_ns (tick (tick w2)))) (timeout_event tid submitted_ns (int (w_ns (tick w2))))"
    have "poll_to_completion_traced db tid submitted_ns timeout_s interval h w =
        Some ((Inr (), h @ map EventLine (obs @ [?fin])), tick (tick w2))"
      using loop by (simp add: poll_to_completion_traced_def now_def now_ns_def record_event_eq Let_def Inr o(1))
    with late [OF o(3,2)] show ?thesis by force
  qed
qed

section \<open>Linearizability of status observations\<close>

text \<open>
  The definition of linearizability that Porcupine decides, for this model: some total order of the
  operations in which none comes before one that had returned before it was called, and which the
  monotone model accepts from its initial state.
\<close>

fun run_model :: "nat \<Rightarrow> nat list \<Rightarrow> bool" where
  "run_model cur [] = True"
| "run_model cur (c # cs) = (case model_step cur c of None \<Rightarrow> False | Some cur' \<Rightarrow> run_model cur' cs)"

definition linearizable :: "lin_op list \<Rightarrow> bool" where
  "linearizable ops \<longleftrightarrow>
     (\<exists>order. mset order = mset ops \<and> sorted_wrt (\<lambda>a b. \<not> op_return b < op_call a) order \<and>
        run_model 0 (map op_code order))"

definition porcupine_correct :: "(lin_op list \<Rightarrow> bool) \<Rightarrow> bool" where
  "porcupine_correct check_ops \<longleftrightarrow> (\<forall>ops. check_ops ops = linearizable ops)"

lemma run_model_sorted: "list_all (\<lambda>c. c \<noteq> 0) cs \<Longrightarrow> run_model cur cs \<longleftrightarrow> sorted (cur # cs)"
proof (induction cs arbitrary: cur)
  case (Cons c cs)
  then show ?case
    by (auto simp: model_step_def max_def)
qed simp

definition op_chain :: "lin_op list \<Rightarrow> bool" where
  "op_chain ops \<longleftrightarrow>
     sorted_wrt (\<lambda>a b. op_return a < op_call b) ops \<and> (\<forall>a \<in> set ops. op_call a \<le> op_return a)"

lemma sorted_wrt_pairs: "sorted_wrt P xs \<Longrightarrow> a \<in> set xs \<Longrightarrow> b \<in> set xs \<Longrightarrow> a = b \<or> P a b \<or> P b a"
  by (induction xs) auto

lemma op_chain_calls:
  assumes "op_chain ops"
  shows "sorted (map op_call ops)" "inj_on op_call (set ops)"
proof -
  show "sorted (map op_call ops)"
    unfolding sorted_map
  proof (rule sorted_wrt_mono_rel [of ops "\<lambda>a b. op_return a < op_call b"])
    fix a b assume "a \<in> set ops" "op_return a < op_call b"
    with assms show "op_call a \<le> op_call b" unfolding op_chain_def by force
  qed (use assms in \<open>simp add: op_chain_def\<close>)
  show "inj_on op_call (set ops)"
    using assms sorted_wrt_pairs [of "\<lambda>a b. op_return a < op_call b" ops] unfolding op_chain_def inj_on_def by force
qed

lemma op_chain_linearizable:
  assumes "op_chain ops"
  shows "linearizable ops \<longleftrightarrow> run_model 0 (map op_code ops)"
proof
  assume "linearizable ops"
  then obtain order where ord: "mset order = mset ops" "sorted_wrt (\<lambda>a b. \<not> op_return b < op_call a) order"
    "run_model 0 (map op_code order)" unfolding linearizable_def by blast
  have set_eq: "set order = set ops" by (rule set_mset_eq [OF ord(1)])
  have "op_call a \<le> op_call b" if "a \<in> set order" "b \<in> set order" "\<not> op_return b < op_call a" for a b
  proof -
    from that(1,2) set_eq have in_ops: "a \<in> set ops" "b \<in> set ops" by simp_all
    then have "a = b \<or> op_return a < op_call b \<or> op_return b < op_call a"
      using assms sorted_wrt_pairs [of "\<lambda>a b. op_return a < op_call b" ops a b] unfolding op_chain_def by blast
    moreover have "op_call a \<le> op_return a" using assms in_ops unfolding op_chain_def by blast
    ultimately show ?thesis using that(3) by auto
  qed
  then have sorted: "sorted (map op_call order)"
    unfolding sorted_map by (rule sorted_wrt_mono_rel [OF _ ord(2)])
  note calls = op_chain_calls [OF assms]
  have "order = ops"
    using sort_key_inj_key_eq [OF ord(1) [symmetric] calls(2) sorted] sort_key_inj_key_eq [OF refl calls(2) calls(1)]
    by (rule trans [OF sym])
  with ord(3) show "run_model 0 (map op_code ops)" by simp
next
  assume run: "run_model 0 (map op_code ops)"
  have "sorted_wrt (\<lambda>a b. \<not> op_return b < op_call a) ops"
  proof (rule sorted_wrt_mono_rel [of ops "\<lambda>a b. op_return a < op_call b"])
    fix a b assume ab: "a \<in> set ops" "b \<in> set ops" "op_return a < op_call b"
    then have "op_call a \<le> op_return a" "op_call b \<le> op_return b" using assms unfolding op_chain_def by blast+
    with ab(3) show "\<not> op_return b < op_call a" by linarith
  qed (use assms in \<open>simp add: op_chain_def\<close>)
  with run show "linearizable ops" unfolding linearizable_def by blast
qed

lemma group_by_one_key:
  "\<forall>x \<in> set xs. k x = key \<Longrightarrow>
   group_by (\<lambda>_. True) k v xs = (if xs = [] then [] else [(key, map v xs)])"
  by (induction xs rule: rev_induct) (auto simp: dappend_def dget_default_def)

definition observed_codes :: "hist_event list \<Rightarrow> nat list" where
  "observed_codes evs =
     filter (\<lambda>c. c \<noteq> 0) (map (\<lambda>ev. status_code (get_or (e_status ev) [])) (filter (is_op ''poll_observe'') evs))"

lemma chain_ops:
  assumes "obs_chain tid lo obs hi" "tid \<noteq> []"
  shows "(\<forall>x \<in> set (List.map_filter lin_op_of obs). fst x = tid \<and> lo < op_call (snd x)) \<and>
     op_chain (map snd (List.map_filter lin_op_of obs)) \<and>
     map op_code (map snd (List.map_filter lin_op_of obs)) = observed_codes obs"
  using assms(1)
proof (induction obs arbitrary: lo)
  case Nil
  show ?case by (simp add: map_filter_simps op_chain_def observed_codes_def)
next
  case (Cons ev obs)
  obtain c r st where ev: "is_op ''poll_observe'' ev" "e_task_id ev = Some tid" "e_call_ns ev = Some c"
    "e_return_ns ev = Some r" "e_status ev = Some st" "lo < c" "c \<le> r" "obs_chain tid r obs hi"
    using Cons.prems by auto
  have one: "lin_op_of ev = (if status_code st = 0 then None else Some (tid, \<lparr>op_code = status_code st, op_call = c, op_return = r\<rparr>))"
    using ev assms(2) by (simp add: lin_op_of_def get_or_def)
  have codes: "observed_codes (ev # obs) = (if status_code st = 0 then [] else [status_code st]) @ observed_codes obs"
    using ev by (simp add: observed_codes_def get_or_def)
  from Cons.IH [OF ev(8)] ev(6,7) show ?case
    unfolding codes by (force simp: one map_filter_simps op_chain_def)
qed

lemma chain_check:
  assumes "porcupine_correct check_ops" "obs_chain tid lo obs hi" "tid \<noteq> []"
  shows "check_ops (sort_key op_call (map snd (List.map_filter lin_op_of obs))) = sorted (observed_codes obs)"
proof -
  let ?xs = "List.map_filter lin_op_of obs"
  have chain: "op_chain (map snd ?xs)" "map op_code (map snd ?xs) = observed_codes obs"
    using chain_ops [OF assms(2,3)] by blast+
  have "sort_key op_call (map snd ?xs) = map snd ?xs"
    using op_chain_calls(1) [OF chain(1)] by (simp add: sorted_sort_id sort_key_id_if_sorted)
  then show ?thesis
    using assms(1) op_chain_linearizable [OF chain(1)] run_model_sorted [of "observed_codes obs" 0] chain(2)
    by (simp add: porcupine_correct_def list_all_iff observed_codes_def)
qed

lemma lincheck_chain:
  assumes "porcupine_correct check_ops" "obs_chain tid lo (events_of h) hi" "tid \<noteq> []"
  shows "lr_violations (lincheck check_ops h) = (if sorted (observed_codes (events_of h)) then 0 else 1)"
proof -
  let ?xs = "List.map_filter lin_op_of (events_of h)"
  have chain: "\<forall>x \<in> set ?xs. fst x = tid" "map op_code (map snd ?xs) = observed_codes (events_of h)"
    using chain_ops [OF assms(2,3)] by blast+
  have groups: "lin_groups (events_of h) = (if ?xs = [] then [] else [(tid, map snd ?xs)])"
    unfolding lin_groups_def using chain(1) by (intro group_by_one_key) blast
  moreover have "?xs = [] \<Longrightarrow> observed_codes (events_of h) = []" using chain(2) by simp
  ultimately show ?thesis using chain_check [OF assms] by (auto simp: lincheck_def Let_def)
qed

lemma exp3_counts:
  "fold exp3_line evs exp3_counts_init =
     \<lparr>c_leader_kills = length (filter (is_op ''chaos.kill_leader'') evs),
      c_follower_kills = length (filter (is_op ''chaos.kill_follower'') evs),
      c_redeliveries = sum_list (map (\<lambda>ev. get_or (e_redelivered ev) 0) (filter (is_op ''chaos.sqs_redeliver'') evs)),
      c_submitted = length (filter (is_op ''submit'') evs), c_completed = length (filter (is_op ''complete'') evs),
      c_timed_out = length (filter (is_op ''timeout'') evs)\<rparr>"
proof (induction evs rule: rev_induct)
  case Nil
  show ?case by (simp add: exp3_counts_init_def)
next
  case (snoc ev evs)
  have diff: "is_op a ev \<Longrightarrow> is_op b ev \<longleftrightarrow> a = b" for a b by (simp add: is_op_def)
  consider "is_op ''submit'' ev" | "is_op ''complete'' ev" | "is_op ''timeout'' ev" | "is_op ''chaos.kill_leader'' ev"
    | "is_op ''chaos.kill_follower'' ev" | "is_op ''chaos.sqs_redeliver'' ev"
    | "\<forall>x \<in> {''submit'', ''complete'', ''timeout'', ''chaos.kill_leader'', ''chaos.kill_follower'', ''chaos.sqs_redeliver''}.
        \<not> is_op x ev" by blast
  then show ?case by cases (simp_all add: snoc exp3_line_def [of ev] diff)
qed

section \<open>Properties\<close>

text \<open>
  The traced poll.  With a positive poll interval \<open>_poll_to_completion_traced\<close> always returns.  It
  adds a sequence of observations of its task, each begun strictly after the one before ended, and
  then, unless a poll raised, exactly one outcome: a timeout after the deadline, or a completion
  with the status and the time of the last observation.
\<close>

theorem traced_poll_outcome:
  assumes "0 < interval"
  shows "\<exists>r obs fin w'. poll_to_completion_traced db tid submitted_ns timeout_s interval h w =
       Some ((r, h @ map EventLine (obs @ fin)), w') \<and>
     traced_ok db tid submitted_ns (secs (tick w) + timeout_s) obs fin \<and> (isl r \<longleftrightarrow> fin = [])"
  by (rule traced_outcome_lemma [OF assms])

theorem traced_poll_outcome_witness:
  "\<exists>r obs fin w'. poll_to_completion_traced (\<lambda>_ t. Inr (Some (task_row t 5 ''ts''))) ''t1'' 7 120 (1/2) []
       \<lparr>w_ns = 0, w_k = 0, w_delay = (\<lambda>_. 1)\<rparr> = Some ((r, [] @ map EventLine (obs @ fin)), w') \<and>
     traced_ok (\<lambda>_ t. Inr (Some (task_row t 5 ''ts''))) ''t1'' 7
       (secs (tick \<lparr>w_ns = 0, w_k = 0, w_delay = (\<lambda>_. 1)\<rparr>) + 120) obs fin \<and> (isl r \<longleftrightarrow> fin = [])"
  by (rule traced_poll_outcome) simp

text \<open>
  C27: experiment 3 never reports a linearizability violation.  Whatever Porcupine answers and however
  many tasks the checker finds in violation, the analysis that runs it reports 0 when there is
  none and \<open>-1\<close>, the value for a skipped check, otherwise: the checker exits with status 1 when it
  finds violations, and its result file is read only after exit status 0.  The other figures are
  those of the history and of the table: events counted by kind, duplicate and stuck tasks counted
  once each.
\<close>

theorem exp3_hides_violations:
  assumes "honest_batch table get" "progressing get" "keyed table"
  shows "\<exists>st w'. exp3_analyze get (Some (run_lincheck check_ops h)) h w = Some (Inr st, w') \<and>
     t_linearizability_violations st = (if lr_violations (lincheck check_ops h) = 0 then 0 else -1) \<and>
     t_submitted st = length (filter (is_op ''submit'') (events_of h)) \<and>
     t_completed st = length (filter (is_op ''complete'') (events_of h)) \<and>
     t_leader_kills st = length (filter (is_op ''chaos.kill_leader'') (events_of h)) \<and>
     t_follower_kills st = length (filter (is_op ''chaos.kill_follower'') (events_of h)) \<and>
     t_duplicate_dispatches st =
       card {t \<in> set (submit_ids (events_of h)). \<exists>row. table t = Some row \<and> is_dup row} \<and>
     t_stuck_pending st =
       card {t \<in> set (submit_ids (events_of h)). \<exists>row. table t = Some row \<and> has_status ''PENDING'' row}"
proof -
  from dup_scan_result [OF assms, of h w] obtain dup w1 where dup: "dup_scan get h w = Some (Inr dup, w1)"
    "dr_duplicate_count dup = card {t \<in> set (submit_ids (events_of h)). \<exists>row. table t = Some row \<and> is_dup row}" by auto
  from divergence_scan_result [OF assms, of h w1] obtain dv w2 where dv: "divergence_scan get h w1 = Some (Inr dv, w2)"
    "dv_stuck_pending dv =
       card {t \<in> set (submit_ids (events_of h)). \<exists>row. table t = Some row \<and> has_status ''PENDING'' row}"
    by (auto simp: Let_def)
  have "lin_violations (Some (run_lincheck check_ops h)) = (if lr_violations (lincheck check_ops h) = 0 then 0 else -1)"
    by (simp add: lin_violations_def run_lincheck_def lincheck_exit_def lincheck_def Let_def get_or_def)
  with dup dv show ?thesis by (simp add: exp3_analyze_def exp3_stats_of_def Let_def exp3_counts)
qed

text \<open>Two observations of one task, completed and then pending again: one violation, reported as \<open>-1\<close>.\<close>

definition demo_backward :: history where
  "demo_backward =
     [EventLine (observe_event ''t1'' 10 11 (Some ''COMPLETED'')), EventLine (observe_event ''t1'' 20 21 (Some ''PENDING''))]"

theorem exp3_hides_violations_witness:
  "lr_violations (lincheck linearizable demo_backward) = 1 \<and>
   (\<exists>st w'. exp3_analyze demo_get (Some (run_lincheck linearizable demo_backward)) demo_backward
      \<lparr>w_ns = 0, w_k = 0, w_delay = (\<lambda>_. 1)\<rparr> = Some (Inr st, w') \<and> t_linearizability_violations st = -1)"
proof -
  have chain: "obs_chain ''t1'' 0 (events_of demo_backward) 22"
    by (simp add: demo_backward_def observe_event_def)
  have "\<not> sorted (observed_codes (events_of demo_backward))"
    by (simp add: demo_backward_def observed_codes_def observe_event_def get_or_def status_code_def)
  with lincheck_chain [OF _ chain] have v: "lr_violations (lincheck linearizable demo_backward) = 1"
    by (simp add: porcupine_correct_def)
  with exp3_hides_violations [OF demo_batch, of linearizable demo_backward "\<lparr>w_ns = 0, w_k = 0, w_delay = (\<lambda>_. 1)\<rparr>"]
  show ?thesis by auto
qed

end
