(* ===== verification/Exp3_Run.thy ===== *)
theory Exp3_Run
  imports Exp3 Exp1_Analysis
begin

text \<open>
  A whole run of experiment 3 (\<open>chaos-bench/exp3.py\<close>): the threads of its bench worker, which submit a
  task and follow it with the traced poll, and the count-based submission loop; and what the
  linearizability checker finds in the history that all the threads of a run write.
\<close>

section \<open>Task threads\<close>

definition traced_thread ::
  "submit_services \<Rightarrow> tasks_db \<Rightarrow> bench_config \<Rightarrow> run_params \<Rightarrow> world \<Rightarrow> history option" where
  "traced_thread sv db cfg params w =
     (let (sr, h, w1) = do_submit sv cfg params w
      in case sr of
           None \<Rightarrow> Some h
         | Some r \<Rightarrow>
             map_option (\<lambda>((_, h'), _). h')
               (poll_to_completion_traced db (sr_task_id r) (sr_submitted_ns r) (completion_timeout_s params)
                  (rp_poll_interval_s params) h w1))"

definition traced_trace :: "bench_config \<Rightarrow> run_params \<Rightarrow> task_start \<Rightarrow> hist_event list" where
  "traced_trace cfg params st =
     (case st of (sv, db, w) \<Rightarrow> (case traced_thread sv db cfg params w of None \<Rightarrow> [] | Some h \<Rightarrow> events_of h))"

lemma events_of_map [simp]: "events_of (map EventLine evs) = evs"
  by (induction evs) auto

text \<open>A thread's events: one for the submission, then a chain of observations, then at most one outcome.\<close>

lemma traced_trace_shape:
  assumes "0 < rp_poll_interval_s params"
  shows "\<exists>pre obs fin hi. traced_trace cfg params st = pre @ obs @ fin \<and> obs_chain (start_tid st) (-1) obs hi \<and>
     list_all (\<lambda>ev. \<not> is_op ''poll_observe'' ev) (pre @ fin)"
proof -
  obtain sv db w where st: "st = (sv, db, w)" by (cases st)
  let ?payload = "replicate (nat (payload_bytes params)) CHR ''x''"
  obtain r s where sub: "submit sv cfg ?payload (rp_priority params) \<lparr>aws_log = [], aws_world = w\<rparr> = (r, s)" by fastforce
  show ?thesis
  proof (cases r)
    case (Inl e)
    then have "traced_trace cfg params st = [stamp (int (w_ns (tick (aws_world s)))) (submit_error_event e)] @ [] @ []"
      using sub by (simp add: traced_trace_def st traced_thread_def do_submit_def record_event_eq Let_def)
    then show ?thesis
      by (intro exI [of _ "[stamp (int (w_ns (tick (aws_world s)))) (submit_error_event e)]"] exI [of _ "[]"] exI [of _ "0"])
        (simp add: submit_error_event_def is_op_def)
  next
    case (Inr sr)
    let ?ev = "stamp (int (w_ns (tick (aws_world s)))) (submit_event sr)"
    have tid: "sr_task_id sr = start_tid st"
      using submit_task_id [of sv cfg ?payload "rp_priority params" w sr] sub Inr by (simp add: start_tid_def st)
    obtain res obs fin w' where p: "poll_to_completion_traced db (sr_task_id sr) (sr_submitted_ns sr) (completion_timeout_s params)
        (rp_poll_interval_s params) [EventLine ?ev] (tick (aws_world s)) = Some ((res, [EventLine ?ev] @ map EventLine (obs @ fin)), w')"
      "traced_ok db (sr_task_id sr) (sr_submitted_ns sr) (secs (tick (tick (aws_world s))) + completion_timeout_s params) obs fin"
      using traced_outcome_lemma [OF assms] by blast
    have "traced_trace cfg params st = [?ev] @ obs @ fin"
      using sub Inr p(1) by (simp add: traced_trace_def st traced_thread_def do_submit_def record_event_eq Let_def flip: map_append)
    moreover obtain hi where "obs_chain (start_tid st) (-1) obs hi" using p(2) by (auto simp: traced_ok_def tid)
    moreover have "list_all (\<lambda>ev. \<not> is_op ''poll_observe'' ev) ([?ev] @ fin)"
      using p(2) by (auto simp: traced_ok_def outcome_ok_def is_op_def submit_event_def)
    ultimately show ?thesis by blast
  qed
qed

section \<open>The checker on a run\<close>

lemma map_filter_filter: "List.map_filter f (filter P xs) = filter Q (List.map_filter f xs)"
  if "\<And>x y. f x = Some y \<Longrightarrow> P x = Q y"
  using that by (induction xs) (auto simp: map_filter_simps split: option.splits)

lemma map_filter_dropped: "list_all (\<lambda>x. f x = None) xs \<Longrightarrow> List.map_filter f xs = []"
  by (induction xs) (auto simp: map_filter_simps)

definition observes :: "py_str \<Rightarrow> hist_event \<Rightarrow> bool" where
  "observes tid ev \<longleftrightarrow> is_op ''poll_observe'' ev \<and> e_task_id ev = Some tid"

lemma lin_op_of_observes: "lin_op_of ev = Some (t, op) \<Longrightarrow> observes tid ev \<longleftrightarrow> t = tid"
  by (auto simp: lin_op_of_def observes_def Let_def split: if_splits option.splits)

text \<open>The group of a task depends on the observations of that task only.\<close>

lemma group_of_task:
  "map snd (filter (\<lambda>x. fst x = tid) (List.map_filter lin_op_of evs)) =
     map snd (List.map_filter lin_op_of (filter (observes tid) evs))"
  using map_filter_filter [of lin_op_of "observes tid" "\<lambda>x. fst x = tid" evs] lin_op_of_observes [of _ _ _ tid]
  by (metis (mono_tags, lifting) prod.collapse)

lemma lincheck_count:
  "lr_violations (lincheck check_ops h) =
     card {t. (let ops = map snd (List.map_filter lin_op_of (filter (observes t) (events_of h)))
               in ops \<noteq> [] \<and> \<not> check_ops (sort_key op_call ops))}"
proof -
  let ?g = "lin_groups (events_of h)" and ?bad = "\<lambda>p. \<not> check_ops (sort_key op_call (snd p))"
  let ?ops = "\<lambda>t. map snd (List.map_filter lin_op_of (filter (observes t) (events_of h)))"
  have items: "(t, ops) \<in> set ?g \<longleftrightarrow> ops = ?ops t \<and> ops \<noteq> []" for t ops
    unfolding lin_groups_def group_by_items by (simp add: group_of_task)
  have "distinct (map fst (filter ?bad ?g))"
    unfolding lin_groups_def using group_by_distinct by (rule distinct_map_filter)
  then have "length (filter ?bad ?g) = card (fst ` set (filter ?bad ?g))"
    using distinct_card [of "map fst (filter ?bad ?g)"] by simp
  also have "fst ` set (filter ?bad ?g) = {t. let ops = ?ops t in ops \<noteq> [] \<and> \<not> check_ops (sort_key op_call ops)}"
  proof (intro set_eqI iffI)
    fix t assume "t \<in> fst ` set (filter ?bad ?g)"
    then obtain ops where "(t, ops) \<in> set ?g" "?bad (t, ops)" by auto
    then show "t \<in> {t. let ops = ?ops t in ops \<noteq> [] \<and> \<not> check_ops (sort_key op_call ops)}" by (auto simp: items Let_def)
  next
    fix t assume "t \<in> {t. let ops = ?ops t in ops \<noteq> [] \<and> \<not> check_ops (sort_key op_call ops)}"
    then have "(t, ?ops t) \<in> set ?g" "?bad (t, ?ops t)" by (simp_all add: items Let_def)
    then show "t \<in> fst ` set (filter ?bad ?g)" by force
  qed
  finally show ?thesis by (simp add: lincheck_def Let_def case_prod_unfold)
qed

lemma obs_chain_observes: "obs_chain tid lo obs hi \<Longrightarrow> list_all (observes tid) obs"
  by (induction obs arbitrary: lo) (auto simp: observes_def)

lemma trace_observations:
  assumes "0 < rp_poll_interval_s params"
  shows "\<exists>obs hi. filter (observes tid) (traced_trace cfg params st) = (if tid = start_tid st then obs else []) \<and>
     obs_chain (start_tid st) (-1) obs hi \<and> observed_codes (traced_trace cfg params st) = observed_codes obs"
proof -
  from traced_trace_shape [OF assms] obtain pre obs fin hi where
    tr: "traced_trace cfg params st = pre @ obs @ fin" "obs_chain (start_tid st) (-1) obs hi"
      "list_all (\<lambda>ev. \<not> is_op ''poll_observe'' ev) (pre @ fin)" by blast
  from obs_chain_observes [OF tr(2)] have "filter (observes tid) obs = (if tid = start_tid st then obs else [])"
    by (auto simp: list_all_iff observes_def filter_empty_conv)
  moreover have "filter (observes tid) pre = []" "filter (observes tid) fin = []"
    using tr(3) by (auto simp: list_all_iff observes_def filter_empty_conv)
  moreover have "observed_codes (pre @ obs @ fin) = observed_codes obs"
    using tr(3) by (simp add: observed_codes_def list_all_iff filter_empty_conv)
  ultimately show ?thesis using tr(1,2) by (intro exI [of _ obs] exI [of _ hi]) simp
qed

lemma own_observations:
  assumes "0 < rp_poll_interval_s params" "distinct (map start_tid starts)" "st \<in> set starts"
    and inter: "interleaved (map (traced_trace cfg params) starts @ others) evs"
    and others: "list_all (list_all (\<lambda>ev. \<not> is_op ''poll_observe'' ev)) others"
  shows "filter (observes (start_tid st)) evs = filter (observes (start_tid st)) (traced_trace cfg params st)"
proof -
  let ?ts = "map (traced_trace cfg params) starts @ others"
  obtain i where i: "i < length starts" "st = starts ! i" using assms(3) by (auto simp: in_set_conv_nth)
  have "filter (observes (start_tid st)) (?ts ! j) = []" if j: "j < length ?ts" "j \<noteq> i" for j
  proof (cases "j < length starts")
    case True
    with i j(2) assms(2) have "start_tid st \<noteq> start_tid (starts ! j)" by (auto simp: distinct_conv_nth)
    with trace_observations [OF assms(1), of "start_tid st" cfg "starts ! j"] True show ?thesis
      by (auto simp: nth_append)
  next
    case False
    with j(1) have "?ts ! j \<in> set others" by (simp add: nth_append)
    with others show ?thesis by (auto simp: list_all_iff observes_def filter_empty_conv)
  qed
  with interleaved_filter_own [OF inter, of i "observes (start_tid st)"] i show ?thesis by (simp add: nth_append)
qed

lemma no_observations:
  assumes "0 < rp_poll_interval_s params" "tid \<notin> set (map start_tid starts)"
    and inter: "interleaved (map (traced_trace cfg params) starts @ others) evs"
    and others: "list_all (list_all (\<lambda>ev. \<not> is_op ''poll_observe'' ev)) others"
  shows "filter (observes tid) evs = []"
proof -
  have "filter (observes tid) (traced_trace cfg params st) = []" if "st \<in> set starts" for st
    using trace_observations [OF assms(1), of tid cfg st] that assms(2) by auto
  then have "\<not> observes tid ev" if "ev \<in> set (traced_trace cfg params st)" "st \<in> set starts" for ev st
    using that by (fastforce simp: filter_empty_conv)
  moreover have "\<not> observes tid ev" if "ev \<in> set t" "t \<in> set others" for ev t
    using that others by (auto simp: list_all_iff observes_def)
  ultimately show ?thesis using interleaved_set [OF inter] by (auto simp: filter_empty_conv)
qed

lemma lincheck_run_result:
  assumes porc: "porcupine_correct check_ops" and pos: "0 < rp_poll_interval_s params"
    and ids: "distinct (map start_tid starts)" "[] \<notin> set (map start_tid starts)"
    and inter: "interleaved (map (traced_trace cfg params) starts @ others) (events_of h)"
    and others: "list_all (list_all (\<lambda>ev. \<not> is_op ''poll_observe'' ev)) others"
  shows "lr_violations (lincheck check_ops h) =
     length (filter (\<lambda>st. \<not> sorted (observed_codes (traced_trace cfg params st))) starts)"
proof -
  let ?ops = "\<lambda>t. map snd (List.map_filter lin_op_of (filter (observes t) (events_of h)))"
  let ?bad = "\<lambda>t. ?ops t \<noteq> [] \<and> \<not> check_ops (sort_key op_call (?ops t))"
  have bad: "?bad (start_tid st) \<longleftrightarrow> \<not> sorted (observed_codes (traced_trace cfg params st))" if st: "st \<in> set starts" for st
  proof -
    obtain obs hi where obs: "filter (observes (start_tid st)) (traced_trace cfg params st) = obs"
      "obs_chain (start_tid st) (-1) obs hi" "observed_codes (traced_trace cfg params st) = observed_codes obs"
      using trace_observations [OF pos, of "start_tid st" cfg st] by auto
    have nonempty: "start_tid st \<noteq> []" using ids(2) st by force
    have own: "?ops (start_tid st) = map snd (List.map_filter lin_op_of obs)"
      using own_observations [OF pos ids(1) st inter others] obs(1) by simp
    have "map op_code (?ops (start_tid st)) = observed_codes obs"
      using chain_ops [OF obs(2) nonempty] unfolding own by blast
    then have "?ops (start_tid st) = [] \<Longrightarrow> sorted (observed_codes obs)" by (metis list.simps(8) sorted0)
    then show ?thesis using chain_check [OF porc obs(2) nonempty] unfolding own obs(3) by blast
  qed
  have none: "\<not> ?bad t" if "t \<notin> set (map start_tid starts)" for t
    using no_observations [OF pos that inter others] by (simp add: map_filter_simps)
  have "{t. ?bad t} = start_tid ` {st \<in> set starts. \<not> sorted (observed_codes (traced_trace cfg params st))}"
  proof (intro set_eqI iffI)
    fix t assume t: "t \<in> {t. ?bad t}"
    with none [of t] have "t \<in> start_tid ` set starts" by auto
    then obtain st where "st \<in> set starts" "t = start_tid st" by blast
    with bad [of st] t show "t \<in> start_tid ` {st \<in> set starts. \<not> sorted (observed_codes (traced_trace cfg params st))}" by blast
  next
    fix t assume "t \<in> start_tid ` {st \<in> set starts. \<not> sorted (observed_codes (traced_trace cfg params st))}"
    with bad show "t \<in> {t. ?bad t}" by blast
  qed
  then show ?thesis
    using lincheck_count [of check_ops h] card_image_filter [OF ids(1)] by (simp add: Let_def)
qed

section \<open>Properties\<close>

text \<open>
  C17: the checker finds exactly the backward transitions.  Let any number of tasks be submitted and
  polled concurrently by the traced poll, with distinct non-empty ids, against any answers of the
  services, and let their events interleave in any way with those of the other threads.  If
  Porcupine decides linearizability, the number of violations reported is the number of tasks
  whose known statuses, in the order they were observed, went backward (a terminal status to
  \<open>ASSIGNED\<close> or \<open>PENDING\<close>, or \<open>ASSIGNED\<close> to \<open>PENDING\<close>).
\<close>

theorem lincheck_finds_backward_steps:
  assumes "porcupine_correct check_ops" "0 < rp_poll_interval_s params"
    and "distinct (map start_tid starts)" "[] \<notin> set (map start_tid starts)"
    and "interleaved (map (traced_trace cfg params) starts @ others) (events_of h)"
    and "list_all (list_all (\<lambda>ev. \<not> is_op ''poll_observe'' ev)) others"
  shows "lr_violations (lincheck check_ops h) =
     length (filter (\<lambda>st. \<not> sorted (observed_codes (traced_trace cfg params st))) starts)"
  by (rule lincheck_run_result [OF assms])

text \<open>A task that is seen assigned, then pending again, then completed.\<close>

definition demo_backward_db :: tasks_db where
  "demo_backward_db k tid =
     Inr (Some [(''status'', [(''S'', if k < 12 then ''ASSIGNED'' else if k < 20 then ''PENDING'' else ''COMPLETED'')])])"

definition demo_backward_start :: task_start where
  "demo_backward_start = (demo_submit_services, demo_backward_db, \<lparr>w_ns = 0, w_k = 0, w_delay = (\<lambda>_. 1)\<rparr>)"

lemma demo_backward_codes: "observed_codes (traced_trace demo_bench_config demo_params demo_backward_start) = [2, 1, 3]"
  by (simp add: traced_trace_def demo_backward_start_def traced_thread_def do_submit_def submit_def issue_eq call_def Let_def
      now_ns_def record_event_eq demo_submit_services_def demo_params_def poll_to_completion_traced_def now_def
      deadline_loop_unfold traced_body_eq poll_status_def demo_backward_db_def row_status_def dget_default_def is_terminal_def
      secs_def tick_def sleep_def observed_codes_def submit_event_def observe_event_def complete_event_def get_or_def
      status_code_def)

theorem lincheck_finds_backward_steps_witness:
  "lr_violations (lincheck linearizable (map EventLine (traced_trace demo_bench_config demo_params demo_backward_start))) = 1"
proof -
  let ?tr = "traced_trace demo_bench_config demo_params demo_backward_start"
  have "porcupine_correct linearizable" "0 < rp_poll_interval_s demo_params" "distinct (map start_tid [demo_backward_start])"
    "[] \<notin> set (map start_tid [demo_backward_start])"
    "interleaved (map (traced_trace demo_bench_config demo_params) [demo_backward_start] @ []) (events_of (map EventLine ?tr))"
    "list_all (list_all (\<lambda>ev. \<not> is_op ''poll_observe'' ev)) []"
    using interleaved_one [of ?tr]
    by (simp_all add: porcupine_correct_def demo_params_def start_tid_def demo_backward_start_def thread_tid_def demo_submit_services_def)
  from lincheck_finds_backward_steps [OF this] show ?thesis by (simp add: demo_backward_codes)
qed

end
