(* ===== verification/Exp3_Threads.thy ===== *)
theory Exp3_Threads
  imports Exp3_Run Exp1_Run
begin

text \<open>
  \<open>run_exp3\<close> of \<open>chaos-bench/exp3.py\<close>: all the threads of a run, the history they write together, and
  the summary that \<open>analyze\<close> computes from it.
\<close>

section \<open>A run\<close>

text \<open>The parameters that \<open>run_exp3\<close> passes to its bench worker.\<close>

definition exp3_params :: "real \<Rightarrow> run_params" where
  "exp3_params rate =
     \<lparr>rate_per_min = rate, duration_s = 0, payload_bytes = 128, rp_priority = 5, rp_poll_interval_s = 1 / 2,
      completion_timeout_s = 120\<rparr>"

text \<open>
  What the threads of a run meet: the started tasks, the services and worlds of the tracker and of the
  three injection loops, and the number of turns each takes before the stop event.
\<close>

record exp3_threads =
  th_rate :: real
  th_tasks :: "task_start list"
  th_tracker :: "peer_services \<times> nat \<times> world"
  th_leader_kill :: "chaos_services \<times> real \<times> nat \<times> world"
  th_follower_kill :: "chaos_services \<times> real \<times> nat \<times> world"
  th_redeliver :: "chaos_services \<times> real \<times> nat \<times> world"
  th_end_ns :: int

definition injection_loop ::
  "(chaos_services \<Rightarrow> bench_config \<Rightarrow> chaos_env \<Rightarrow> chaos_env) \<Rightarrow> real \<Rightarrow> bench_config \<Rightarrow> chaos_services \<times> real \<times> nat \<times> world \<Rightarrow> chaos_env" where
  "injection_loop turn offset cfg a =
     (case a of (sv, period, n, w) \<Rightarrow>
        chaos_loop (turn sv cfg) (period * offset) period n \<lparr>stopped = [], ch_hist = [], ch_world = w\<rparr>)"

definition leader_kills :: "bench_config \<Rightarrow> exp3_threads \<Rightarrow> chaos_env" where
  "leader_kills cfg th = injection_loop exp3_kill_leader_turn 1 cfg (th_leader_kill th)"

definition follower_kills :: "bench_config \<Rightarrow> exp3_threads \<Rightarrow> chaos_env" where
  "follower_kills cfg th = injection_loop exp3_kill_follower_turn (7 / 10) cfg (th_follower_kill th)"

definition redeliveries :: "bench_config \<Rightarrow> exp3_threads \<Rightarrow> chaos_env" where
  "redeliveries cfg th = injection_loop exp3_redeliver_turn (4 / 10) cfg (th_redeliver th)"

text \<open>The threads that write after the start line; the last trace is the end line of \<open>run_exp3\<close>.\<close>

definition exp3_others :: "bench_config \<Rightarrow> exp3_threads \<Rightarrow> hist_event list list" where
  "exp3_others cfg th =
     [case th_tracker th of (sv, n, w) \<Rightarrow> tracker_trace sv (15 / 100) n w,
      events_of (ch_hist (leader_kills cfg th)), events_of (ch_hist (follower_kills cfg th)),
      events_of (ch_hist (redeliveries cfg th)), [stamp (th_end_ns th) (event_of ''run_end'')]]"

definition exp3_run_traces :: "bench_config \<Rightarrow> exp3_threads \<Rightarrow> hist_event list list" where
  "exp3_run_traces cfg th = map (traced_trace cfg (exp3_params (th_rate th))) (th_tasks th) @ exp3_others cfg th"

text \<open>\<open>h\<close> is a history that a run may leave: the start line, then any interleaving of the threads.\<close>

definition exp3_history :: "bench_config \<Rightarrow> exp3_threads \<Rightarrow> int \<Rightarrow> history \<Rightarrow> bool" where
  "exp3_history cfg th start_ns h \<longleftrightarrow>
     (\<exists>evs. events_of h = stamp start_ns (event_of ''run_start'') # evs \<and> interleaved (exp3_run_traces cfg th) evs)"

section \<open>Lines of each thread\<close>

definition only_ops :: "py_str set \<Rightarrow> hist_event list \<Rightarrow> bool" where
  "only_ops ops evs \<longleftrightarrow> list_all (\<lambda>ev. \<exists>op \<in> ops. is_op op ev) evs"

lemma only_ops_filter: "only_ops ops evs \<Longrightarrow> op \<notin> ops \<Longrightarrow> filter (is_op op) evs = []"
  by (auto simp: only_ops_def list_all_iff filter_empty_conv is_op_def)

locale turn_ops =
  fixes turn :: "chaos_env \<Rightarrow> chaos_env" and ops :: "py_str set"
  assumes turn_writes: "only_ops ops (events_of (ch_hist s)) \<Longrightarrow> only_ops ops (events_of (ch_hist (turn s)))"
begin

lemma loop_writes:
  "only_ops ops (events_of (ch_hist (chaos_loop turn offset period n \<lparr>stopped = [], ch_hist = [], ch_world = w\<rparr>)))"
proof (induction n)
  case 0
  show ?case by (simp add: chaos_loop_def only_ops_def)
next
  case (Suc n)
  then show ?case using turn_writes by (simp add: chaos_loop_def Let_def)
qed

end

interpretation leader_ops: turn_ops "exp3_kill_leader_turn sv cfg" "{''chaos.kill_leader'', ''chaos.skip'', ''chaos.error''}"
  for sv :: chaos_services and cfg :: bench_config
  by unfold_locales
    (auto simp: exp3_kill_leader_turn_def kill_leader_def Let_def only_ops_def split: sum.split option.split prod.split
      dest!: stop_random_task_cases)

interpretation follower_ops: turn_ops "exp3_kill_follower_turn sv cfg" "{''chaos.kill_follower'', ''chaos.skip'', ''chaos.error''}"
  for sv :: chaos_services and cfg :: bench_config
  by unfold_locales
    (auto simp: exp3_kill_follower_turn_def Let_def only_ops_def split: sum.split option.split prod.split dest!: kill_follower_cases)

interpretation redeliver_ops: turn_ops "exp3_redeliver_turn sv cfg" "{''chaos.sqs_redeliver'', ''chaos.error''}"
  for sv :: chaos_services and cfg :: bench_config
  by unfold_locales
    (auto simp: exp3_redeliver_turn_def inject_sqs_redelivery_def call_def Let_def only_ops_def split: sum.split prod.split)

lemma injection_ops:
  "only_ops {''chaos.kill_leader'', ''chaos.skip'', ''chaos.error''} (events_of (ch_hist (leader_kills cfg th)))"
  "only_ops {''chaos.kill_follower'', ''chaos.skip'', ''chaos.error''} (events_of (ch_hist (follower_kills cfg th)))"
  "only_ops {''chaos.sqs_redeliver'', ''chaos.error''} (events_of (ch_hist (redeliveries cfg th)))"
  by (simp_all add: leader_kills_def follower_kills_def redeliveries_def injection_loop_def case_prod_unfold
      leader_ops.loop_writes follower_ops.loop_writes redeliver_ops.loop_writes)

lemma tracker_ops: "only_ops {''leader_observed'', ''leader_gap''} (tracker_trace sv poll_s n w)"
proof -
  have "only_ops {''leader_observed'', ''leader_gap''} (events_of (fst (snd (tracker_run sv poll_s n w))))"
  proof (induction n)
    case (Suc n)
    obtain latest h v where "tracker_run sv poll_s n w = (latest, h, v)" by (metis prod.exhaust)
    with Suc show ?case
      by (auto simp: tracker_run_def tracker_turn_eq Let_def only_ops_def change_event_def split: option.split)
  qed (simp add: tracker_run_def only_ops_def)
  then show ?thesis by (simp add: tracker_trace_def)
qed

text \<open>The lines of a task thread: its submission or the error of it, observations, at most one outcome.\<close>

lemma traced_trace_lines:
  assumes "0 < rp_poll_interval_s params"
  shows "\<exists>first obs fin. traced_trace cfg params st = first # obs @ fin \<and> only_ops {''poll_observe''} obs \<and>
     (is_op ''submit_error'' first \<and> obs = [] \<and> fin = [] \<or>
      is_op ''submit'' first \<and> (fin = [] \<or> (\<exists>ev. fin = [ev] \<and> (is_op ''complete'' ev \<or> is_op ''timeout'' ev))))"
proof -
  obtain sv db w where st: "st = (sv, db, w)" by (cases st)
  let ?payload = "replicate (nat (payload_bytes params)) CHR ''x''"
  obtain r s where sub: "submit sv cfg ?payload (rp_priority params) \<lparr>aws_log = [], aws_world = w\<rparr> = (r, s)" by fastforce
  show ?thesis
  proof (cases r)
    case (Inl e)
    then have "traced_trace cfg params st = stamp (int (w_ns (tick (aws_world s)))) (submit_error_event e) # [] @ []"
      using sub by (simp add: traced_trace_def st traced_thread_def do_submit_def record_event_eq Let_def)
    then show ?thesis by (intro exI [of _ "stamp (int (w_ns (tick (aws_world s)))) (submit_error_event e)"] exI [of _ "[]"])
        (simp add: only_ops_def submit_error_event_def)
  next
    case (Inr sr)
    let ?ev = "stamp (int (w_ns (tick (aws_world s)))) (submit_event sr)"
    obtain res obs fin w' where p: "poll_to_completion_traced db (sr_task_id sr) (sr_submitted_ns sr) (completion_timeout_s params)
        (rp_poll_interval_s params) [EventLine ?ev] (tick (aws_world s)) = Some ((res, [EventLine ?ev] @ map EventLine (obs @ fin)), w')"
      "traced_ok db (sr_task_id sr) (sr_submitted_ns sr) (secs (tick (tick (aws_world s))) + completion_timeout_s params) obs fin"
      using traced_outcome_lemma [OF assms] by blast
    have "traced_trace cfg params st = ?ev # obs @ fin"
      using sub Inr p(1) by (simp add: traced_trace_def st traced_thread_def do_submit_def record_event_eq Let_def flip: map_append)
    moreover from p(2) obtain hi where "obs_chain (sr_task_id sr) (-1) obs hi" by (auto simp: traced_ok_def)
    then have "only_ops {''poll_observe''} obs"
      using obs_chain_observes by (auto simp: only_ops_def list_all_iff observes_def)
    moreover have "is_op ''submit'' ?ev" by (simp add: submit_event_def)
    moreover have "fin = [] \<or> (\<exists>ev. fin = [ev] \<and> (is_op ''complete'' ev \<or> is_op ''timeout'' ev))"
      using p(2) by (auto simp: traced_ok_def outcome_ok_def)
    ultimately show ?thesis by blast
  qed
qed

lemma traced_trace_counts:
  assumes "0 < rp_poll_interval_s params"
  shows "op \<in> {''submit'', ''complete'', ''timeout''} \<Longrightarrow>
      length (filter (is_op op) (traced_trace cfg params st)) = of_bool (recorded op (traced_trace cfg params st))"
    and "recorded ''complete'' (traced_trace cfg params st) \<longrightarrow>
      recorded ''submit'' (traced_trace cfg params st) \<and> \<not> recorded ''timeout'' (traced_trace cfg params st)"
    and "recorded ''timeout'' (traced_trace cfg params st) \<longrightarrow> recorded ''submit'' (traced_trace cfg params st)"
    and "op \<in> {''chaos.kill_leader'', ''chaos.kill_follower'', ''chaos.sqs_redeliver''} \<Longrightarrow> filter (is_op op) (traced_trace cfg params st) = []"
proof -
  obtain ev0 obs fin where tr: "traced_trace cfg params st = ev0 # obs @ fin" "only_ops {''poll_observe''} obs"
    "is_op ''submit_error'' ev0 \<and> obs = [] \<and> fin = [] \<or>
      is_op ''submit'' ev0 \<and> (fin = [] \<or> (\<exists>ev. fin = [ev] \<and> (is_op ''complete'' ev \<or> is_op ''timeout'' ev)))"
    using traced_trace_lines [OF assms, of cfg st] by blast
  have obs: "filter (is_op x) obs = []" "\<not> list_ex (is_op x) obs" if "x \<noteq> ''poll_observe''" for x
    using only_ops_filter [OF tr(2), of x] that by (auto simp: filter_empty_conv list_ex_iff)
  show "length (filter (is_op op) (traced_trace cfg params st)) = of_bool (recorded op (traced_trace cfg params st))"
    if "op \<in> {''submit'', ''complete'', ''timeout''}"
    using tr(3) obs that by (auto simp: tr(1) recorded_def is_op_def)
  show "recorded ''complete'' (traced_trace cfg params st) \<longrightarrow>
      recorded ''submit'' (traced_trace cfg params st) \<and> \<not> recorded ''timeout'' (traced_trace cfg params st)"
    "recorded ''timeout'' (traced_trace cfg params st) \<longrightarrow> recorded ''submit'' (traced_trace cfg params st)"
    using tr(3) obs by (auto simp: tr(1) recorded_def is_op_def)
  show "filter (is_op op) (traced_trace cfg params st) = []"
    if "op \<in> {''chaos.kill_leader'', ''chaos.kill_follower'', ''chaos.sqs_redeliver''}"
    using tr(3) obs that by (auto simp: tr(1) is_op_def)
qed

section \<open>Counts of a run\<close>

lemma others_filter:
  "op \<in> {''submit'', ''complete'', ''timeout''} \<Longrightarrow> (\<Sum>t \<leftarrow> exp3_others cfg th. length (filter (is_op op) t)) = 0"
  "(\<Sum>t \<leftarrow> exp3_others cfg th. length (filter (is_op ''chaos.kill_leader'') t)) = length (stopped (leader_kills cfg th))"
  "(\<Sum>t \<leftarrow> exp3_others cfg th. length (filter (is_op ''chaos.kill_follower'') t)) = length (stopped (follower_kills cfg th))"
  "map (filter (is_op ''chaos.sqs_redeliver'')) (exp3_others cfg th) =
     [[], [], [], filter (is_op ''chaos.sqs_redeliver'') (events_of (ch_hist (redeliveries cfg th))), []]"
proof -
  obtain sv n w where tr: "th_tracker th = (sv, n, w)" by (cases "th_tracker th")
  note ops = only_ops_filter [OF injection_ops(1)] only_ops_filter [OF injection_ops(2)] only_ops_filter [OF injection_ops(3)]
    only_ops_filter [OF tracker_ops]
  have kills: "length (filter (is_op ''chaos.kill_leader'') (events_of (ch_hist (leader_kills cfg th)))) = length (stopped (leader_kills cfg th))"
    "length (filter (is_op ''chaos.kill_follower'') (events_of (ch_hist (follower_kills cfg th)))) = length (stopped (follower_kills cfg th))"
    using leader_kill.loop_accounts [where s = "\<lparr>stopped = [], ch_hist = [], ch_world = _\<rparr>"]
      follower_kill.loop_accounts [where s = "\<lparr>stopped = [], ch_hist = [], ch_world = _\<rparr>"]
    by (simp_all add: leader_kills_def follower_kills_def injection_loop_def case_prod_unfold)
  show "op \<in> {''submit'', ''complete'', ''timeout''} \<Longrightarrow> (\<Sum>t \<leftarrow> exp3_others cfg th. length (filter (is_op op) t)) = 0"
    "(\<Sum>t \<leftarrow> exp3_others cfg th. length (filter (is_op ''chaos.kill_leader'') t)) = length (stopped (leader_kills cfg th))"
    "(\<Sum>t \<leftarrow> exp3_others cfg th. length (filter (is_op ''chaos.kill_follower'') t)) = length (stopped (follower_kills cfg th))"
    "map (filter (is_op ''chaos.sqs_redeliver'')) (exp3_others cfg th) =
       [[], [], [], filter (is_op ''chaos.sqs_redeliver'') (events_of (ch_hist (redeliveries cfg th))), []]"
    using kills by (auto simp: exp3_others_def tr ops)
qed

lemma sum_of_bool: "(\<Sum>x \<leftarrow> xs. of_bool (P x)) = length (filter P xs)"
  by (induction xs) auto

definition with_op :: "py_str \<Rightarrow> bench_config \<Rightarrow> exp3_threads \<Rightarrow> task_start list" where
  "with_op op cfg th = filter (\<lambda>t. recorded op (traced_trace cfg (exp3_params (th_rate th)) t)) (th_tasks th)"

lemma run_line_counts:
  assumes "exp3_history cfg th start_ns h"
  shows "op \<in> {''submit'', ''complete'', ''timeout''} \<Longrightarrow> length (filter (is_op op) (events_of h)) = length (with_op op cfg th)"
    and "length (filter (is_op ''chaos.kill_leader'') (events_of h)) = length (stopped (leader_kills cfg th))"
    and "length (filter (is_op ''chaos.kill_follower'') (events_of h)) = length (stopped (follower_kills cfg th))"
    and "sum_list (map f (filter (is_op ''chaos.sqs_redeliver'') (events_of h))) =
      (sum_list (map f (filter (is_op ''chaos.sqs_redeliver'') (events_of (ch_hist (redeliveries cfg th))))) :: int)"
proof -
  from assms obtain evs where evs: "events_of h = stamp start_ns (event_of ''run_start'') # evs"
    "interleaved (exp3_run_traces cfg th) evs" by (auto simp: exp3_history_def)
  note count = interleaved_filter_count [OF evs(2)]
  have pos: "0 < rp_poll_interval_s (exp3_params (th_rate th))" by (simp add: exp3_params_def)
  have none: "(\<Sum>t \<leftarrow> map (traced_trace cfg (exp3_params (th_rate th))) (th_tasks th). length (filter (is_op op) t)) = 0"
    if "op \<in> {''chaos.kill_leader'', ''chaos.kill_follower''}" for op
    using traced_trace_counts(4) [OF pos, of op] that by (auto simp: sum_list_eq_0_iff)
  show "length (filter (is_op op) (events_of h)) = length (with_op op cfg th)" if "op \<in> {''submit'', ''complete'', ''timeout''}"
    using that others_filter(1) [OF that] traced_trace_counts(1) [OF pos that]
    by (auto simp: evs(1) count exp3_run_traces_def comp_def sum_of_bool with_op_def)
  show "length (filter (is_op ''chaos.kill_leader'') (events_of h)) = length (stopped (leader_kills cfg th))"
    "length (filter (is_op ''chaos.kill_follower'') (events_of h)) = length (stopped (follower_kills cfg th))"
    using none [of "''chaos.kill_leader''"] none [of "''chaos.kill_follower''"] others_filter(2,3) [of cfg th]
    by (simp_all add: evs(1) count exp3_run_traces_def)
  have "(\<Sum>t \<leftarrow> exp3_others cfg th. sum_list (map f (filter (is_op ''chaos.sqs_redeliver'') t))) =
      sum_list (map (sum_list \<circ> map f) (map (filter (is_op ''chaos.sqs_redeliver'')) (exp3_others cfg th)))"
    by (simp add: comp_def)
  moreover have "(\<Sum>t \<leftarrow> map (traced_trace cfg (exp3_params (th_rate th))) (th_tasks th).
      sum_list (map f (filter (is_op ''chaos.sqs_redeliver'') t))) = 0"
    using traced_trace_counts(4) [OF pos, of "''chaos.sqs_redeliver''"] by (simp add: comp_def)
  ultimately show "sum_list (map f (filter (is_op ''chaos.sqs_redeliver'') (events_of h))) =
      (sum_list (map f (filter (is_op ''chaos.sqs_redeliver'') (events_of (ch_hist (redeliveries cfg th))))) :: int)"
    by (simp add: evs(1) interleaved_filter_sum [OF evs(2)] exp3_run_traces_def others_filter(4))
qed

lemma with_op_partition:
  "length (with_op ''submit'' cfg th) = length (with_op ''complete'' cfg th) + length (with_op ''timeout'' cfg th) +
     length (filter (\<lambda>t. let tr = traced_trace cfg (exp3_params (th_rate th)) t
        in recorded ''submit'' tr \<and> \<not> recorded ''complete'' tr \<and> \<not> recorded ''timeout'' tr) (th_tasks th))"
  unfolding with_op_def Let_def by (rule filter_partition3) (simp add: traced_trace_counts(2,3) exp3_params_def)

section \<open>Properties\<close>

text \<open>
  C16: the summary of a run of experiment 3.  Let the threads of \<open>run_exp3\<close> write a history in any
  interleaving and the tasks table answer consistently during the analysis.  The analysis returns; it
  counts exactly the tasks submitted, completed and timed out, the tasks that were really stopped as
  leader and as follower, the redeliveries, and the submitted tasks received twice or stuck; and \<open>lost\<close> is the number
  of submitted tasks whose polling raised, the only ones without an outcome.
\<close>

theorem exp3_run_summary:
  assumes "exp3_history cfg th start_ns h" "honest_batch table get" "progressing get" "keyed table"
  shows "\<exists>st w'. exp3_analyze get lin h w = Some (Inr st, w') \<and>
     t_submitted st = length (with_op ''submit'' cfg th) \<and> t_completed st = length (with_op ''complete'' cfg th) \<and>
     t_timed_out st = length (with_op ''timeout'' cfg th) \<and>
     t_lost st = int (length (filter (\<lambda>t. let tr = traced_trace cfg (exp3_params (th_rate th)) t
        in recorded ''submit'' tr \<and> \<not> recorded ''complete'' tr \<and> \<not> recorded ''timeout'' tr) (th_tasks th))) \<and>
     t_leader_kills st = length (stopped (leader_kills cfg th)) \<and>
     t_follower_kills st = length (stopped (follower_kills cfg th)) \<and>
     t_redeliveries st = sum_list (map (\<lambda>ev. get_or (e_redelivered ev) 0)
        (filter (is_op ''chaos.sqs_redeliver'') (events_of (ch_hist (redeliveries cfg th))))) \<and>
     t_duplicate_dispatches st = card {t \<in> set (submit_ids (events_of h)). \<exists>row. table t = Some row \<and> is_dup row} \<and>
     t_stuck_pending st = card {t \<in> set (submit_ids (events_of h)). \<exists>row. table t = Some row \<and> has_status ''PENDING'' row} \<and>
     t_stuck_assigned st = card {t \<in> set (submit_ids (events_of h)). \<exists>row. table t = Some row \<and> has_status ''ASSIGNED'' row}"
proof -
  from dup_scan_result [OF assms(2-4), of h w] obtain dup w1 where dup: "dup_scan get h w = Some (Inr dup, w1)"
    "dr_duplicate_count dup = card {t \<in> set (submit_ids (events_of h)). \<exists>row. table t = Some row \<and> is_dup row}" by auto
  from divergence_scan_result [OF assms(2-4), of h w1] obtain dv w2 where dv: "divergence_scan get h w1 = Some (Inr dv, w2)"
    "dv_stuck_pending dv = card {t \<in> set (submit_ids (events_of h)). \<exists>row. table t = Some row \<and> has_status ''PENDING'' row}"
    "dv_stuck_assigned dv = card {t \<in> set (submit_ids (events_of h)). \<exists>row. table t = Some row \<and> has_status ''ASSIGNED'' row}"
    by (auto simp: Let_def)
  have "exp3_analyze get lin h w = Some (Inr (exp3_stats_of h dup dv lin), w2)" using dup(1) dv(1) by (simp add: exp3_analyze_def)
  then show ?thesis
    using run_line_counts [OF assms(1)] with_op_partition [of cfg th] dup(2) dv(2,3)
    by (intro exI [of _ "exp3_stats_of h dup dv lin"] exI [of _ w2]) (simp add: exp3_stats_of_def Let_def exp3_counts)
qed

text \<open>A small run: a task, one leader kill, one follower kill, one redelivery that finds no message.\<close>

definition demo_exp3_threads :: exp3_threads where
  "demo_exp3_threads =
     (let w0 = \<lparr>w_ns = 0, w_k = 0, w_delay = (\<lambda>_. 0)\<rparr>
      in \<lparr>th_rate = 100, th_tasks = [demo_backward_start], th_tracker = (cs_peers demo_kill_services, 1, w0),
          th_leader_kill = (demo_kill_services, 30, 1, w0), th_follower_kill = (demo_kill_services, 45, 1, w0),
          th_redeliver = (demo_kill_services, 20, 1, w0), th_end_ns = 0\<rparr>)"

definition demo_exp3_history :: history where
  "demo_exp3_history =
     map EventLine (stamp 0 (event_of ''run_start'') # concat (exp3_run_traces demo_kill_config demo_exp3_threads))"

lemma demo_exp3_history: "exp3_history demo_kill_config demo_exp3_threads 0 demo_exp3_history"
  unfolding exp3_history_def demo_exp3_history_def events_of_map using interleaved_concat by blast

lemma demo_exp3_task:
  "map e_op (traced_trace demo_kill_config (exp3_params 100) demo_backward_start) =
     map Some [''submit'', ''poll_observe'', ''poll_observe'', ''poll_observe'', ''complete'']"
  by (simp add: traced_trace_def demo_backward_start_def traced_thread_def do_submit_def submit_def issue_eq call_def Let_def
      now_ns_def record_event_eq demo_submit_services_def exp3_params_def poll_to_completion_traced_def now_def
      deadline_loop_unfold traced_body_eq poll_status_def demo_backward_db_def row_status_def dget_default_def is_terminal_def
      secs_def tick_def sleep_def submit_event_def observe_event_def complete_event_def get_or_def)

lemma demo_exp3_kills:
  "length (stopped (leader_kills demo_kill_config demo_exp3_threads)) = 1"
  "map fst (stopped (follower_kills demo_kill_config demo_exp3_threads)) = [''dev-coordinator-b'']"
  by (simp_all add: leader_kills_def follower_kills_def demo_exp3_threads_def injection_loop_def chaos_loop_def
      exp3_kill_leader_turn_def exp3_kill_follower_turn_def kill_follower_def find_leader_def call_def Let_def
      demo_kill_services_def complete_row_def get_or_def usable_service_def ecs_service_for_def demo_kill_config_def endswith_def
      kill_leader_def stop_random_task_def running_tasks_def choice_def now_ns_def tick_def sleep_def record_ch_def record_event_eq)

theorem exp3_run_summary_witness:
  "\<exists>st w'. exp3_analyze demo_get None demo_exp3_history \<lparr>w_ns = 0, w_k = 0, w_delay = (\<lambda>_. 0)\<rparr> = Some (Inr st, w') \<and>
     t_submitted st = 1 \<and> t_completed st = 1 \<and> t_lost st = 0 \<and> t_leader_kills st = 1 \<and> t_follower_kills st = 1"
proof -
  let ?tr = "traced_trace demo_kill_config (exp3_params 100) demo_backward_start"
  have rec: "recorded op ?tr \<longleftrightarrow> Some op \<in> set (map e_op ?tr)" for op
    by (force simp: recorded_def list_ex_iff is_op_def)
  have "th_tasks demo_exp3_threads = [demo_backward_start]" "th_rate demo_exp3_threads = 100" by (simp_all add: demo_exp3_threads_def Let_def)
  moreover have "length (stopped (follower_kills demo_kill_config demo_exp3_threads)) = 1"
    using arg_cong [OF demo_exp3_kills(2), of length] by simp
  ultimately show ?thesis
    using exp3_run_summary [OF demo_exp3_history demo_batch, of None "\<lparr>w_ns = 0, w_k = 0, w_delay = (\<lambda>_. 0)\<rparr>"] demo_exp3_kills(1)
    by (auto simp: with_op_def rec demo_exp3_task)
qed

end
