(* ===== verification/Plot.thy ===== *)
theory Plot
  imports Exp1_Analysis
begin

text \<open>
  \<open>chaos-bench/plot.py\<close>: the statistics of a bench history, and the task threads of \<open>run_bench\<close> that write
  it.  \<open>np.percentile\<close> and \<open>np.mean\<close> are parameters; drawing is not modelled.
\<close>

section \<open>Threads of run_bench\<close>

text \<open>
  \<open>do_submit\<close> of \<open>run_bench\<close> has no handler: an exception of the submission ends it and is dropped with
  the future, so a failed submission leaves no line.
\<close>

definition bench_thread ::
  "submit_services \<Rightarrow> tasks_db \<Rightarrow> bench_config \<Rightarrow> run_params \<Rightarrow> world \<Rightarrow> history option" where
  "bench_thread sv db cfg params w =
     (let payload = replicate (nat (payload_bytes params)) CHR ''x'';
          (r, s) = submit sv cfg payload (rp_priority params) \<lparr>aws_log = [], aws_world = w\<rparr>
      in case r of
           Inl e \<Rightarrow> Some []
         | Inr sr \<Rightarrow>
             let (h, w1) = record_event (submit_event sr) ([], aws_world s)
             in map_option (\<lambda>((_, h'), _). h')
                  (poll_to_completion db (sr_task_id sr) (sr_submitted_ns sr) (completion_timeout_s params)
                     (rp_poll_interval_s params) h w1))"

definition bench_trace :: "bench_config \<Rightarrow> run_params \<Rightarrow> task_start \<Rightarrow> hist_event list" where
  "bench_trace cfg params st =
     (case st of (sv, db, w) \<Rightarrow> (case bench_thread sv db cfg params w of None \<Rightarrow> [] | Some h \<Rightarrow> events_of h))"

section \<open>Statistics\<close>

record plot_acc =
  pa_latencies_ms :: "real list"
  pa_completions_by_sec :: "(int, nat) pydict"
  pa_run_start_ns :: "int option"
  pa_status_counts :: "(py_str, nat) pydict"

definition plot_acc_init :: plot_acc where
  "plot_acc_init = \<lparr>pa_latencies_ms = [], pa_completions_by_sec = [], pa_run_start_ns = None, pa_status_counts = []\<rparr>"

definition second_of :: "int \<Rightarrow> int \<Rightarrow> int" where
  "second_of start_ns t = py_trunc (real_of_int (t - start_ns) / 1000000000)"

definition plot_line :: "hist_event \<Rightarrow> plot_acc \<Rightarrow> plot_acc result" where
  "plot_line ev acc =
     (if is_op ''run_start'' ev then Inr (acc\<lparr>pa_run_start_ns := e_wall_ns ev\<rparr>)
      else if is_op ''complete'' ev \<or> is_op ''timeout'' ev then
        let acc1 = acc\<lparr>pa_status_counts := dincr (get_or (e_status ev) ''?'') (pa_status_counts acc)\<rparr>
        in if is_op ''complete'' ev then
             bind_res (need ''completed_ns'' (e_completed_ns ev)) (\<lambda>c.
             bind_res (need ''submitted_ns'' (e_submitted_ns ev)) (\<lambda>s.
               let acc2 = acc1\<lparr>pa_latencies_ms := pa_latencies_ms acc1 @ [real_of_int (c - s) / 1000000]\<rparr>
               in Inr (case pa_run_start_ns acc2 of
                         None \<Rightarrow> acc2
                       | Some st \<Rightarrow> acc2\<lparr>pa_completions_by_sec := dincr (second_of st c) (pa_completions_by_sec acc2)\<rparr>)))
           else Inr acc1
      else Inr acc)"

record plot_stats =
  pl_completed_count :: nat
  pl_failed_count :: nat
  pl_timeout_count :: nat
  pl_p50_ms :: real
  pl_p95_ms :: real
  pl_p99_ms :: real
  pl_mean_ms :: real
  pl_completions_by_sec :: "(int, nat) pydict"
  pl_latencies_ms :: "real list"

definition plot_analyze :: "(real list \<Rightarrow> real \<Rightarrow> real) \<Rightarrow> (real list \<Rightarrow> real) \<Rightarrow> hist_event list \<Rightarrow> plot_stats result" where
  "plot_analyze np_percentile np_mean events =
     bind_res (fold_res plot_line events plot_acc_init) (\<lambda>acc.
       let lat = (if pa_latencies_ms acc = [] then [0] else pa_latencies_ms acc)
       in Inr \<lparr>pl_completed_count = dget_default (pa_status_counts acc) ''COMPLETED'' 0,
               pl_failed_count = dget_default (pa_status_counts acc) ''FAILED'' 0,
               pl_timeout_count = dget_default (pa_status_counts acc) ''TIMEOUT'' 0,
               pl_p50_ms = np_percentile lat 50, pl_p95_ms = np_percentile lat 95, pl_p99_ms = np_percentile lat 99,
               pl_mean_ms = np_mean lat, pl_completions_by_sec = pa_completions_by_sec acc,
               pl_latencies_ms = pa_latencies_ms acc\<rparr>)"

text \<open>\<open>render\<close>: the two curves it draws, the distribution and the throughput; \<open>None\<close> when there is nothing to draw.\<close>

definition cdf_points :: "plot_stats \<Rightarrow> (real \<times> real) list option" where
  "cdf_points st =
     (if pl_latencies_ms st = [] then None
      else let xs = sort (pl_latencies_ms st); n = length xs in Some (zip xs (map (\<lambda>i. real i / real n) [1 ..< n + 1])))"

definition throughput_bars :: "plot_stats \<Rightarrow> (int \<times> nat) list option" where
  "throughput_bars st =
     (if pl_completions_by_sec st = [] then None
      else let seconds = sort (map fst (pl_completions_by_sec st))
           in Some (map (\<lambda>s. (s, dget_default (pl_completions_by_sec st) s 0)) seconds))"

section \<open>Lemmas\<close>

definition outcome_typed :: "hist_event \<Rightarrow> bool" where
  "outcome_typed ev \<longleftrightarrow> (is_op ''complete'' ev \<longrightarrow> e_completed_ns ev \<noteq> None \<and> e_submitted_ns ev \<noteq> None)"

definition latency_ms :: "hist_event \<Rightarrow> real" where
  "latency_ms ev = real_of_int (the (e_completed_ns ev) - the (e_submitted_ns ev)) / 1000000"

definition has_outcome :: "py_str \<Rightarrow> hist_event \<Rightarrow> bool" where
  "has_outcome st ev \<longleftrightarrow> (is_op ''complete'' ev \<or> is_op ''timeout'' ev) \<and> get_or (e_status ev) ''?'' = st"

text \<open>What the accumulator holds of the events after the start line.\<close>

definition plot_acc_of :: "int \<Rightarrow> hist_event list \<Rightarrow> plot_acc \<Rightarrow> bool" where
  "plot_acc_of start_ns evs acc \<longleftrightarrow>
     pa_run_start_ns acc = Some start_ns \<and> pa_latencies_ms acc = map latency_ms (filter (is_op ''complete'') evs) \<and>
     (\<forall>st. dget_default (pa_status_counts acc) st 0 = length (filter (has_outcome st) evs)) \<and>
     distinct (map fst (pa_completions_by_sec acc)) \<and>
     fst ` set (pa_completions_by_sec acc) = (\<lambda>ev. second_of start_ns (the (e_completed_ns ev))) ` {ev \<in> set evs. is_op ''complete'' ev} \<and>
     (\<forall>k. dget_default (pa_completions_by_sec acc) k 0 =
        length (filter (\<lambda>ev. is_op ''complete'' ev \<and> second_of start_ns (the (e_completed_ns ev)) = k) evs))"

lemma keys_dincr [simp]: "fst ` set (dincr k d) = insert k (fst ` set d)"
  by (simp add: dincr_def)

lemma plot_line_step:
  assumes "plot_acc_of start_ns evs acc" "outcome_typed ev" "\<not> is_op ''run_start'' ev"
  shows "\<exists>acc'. plot_line ev acc = Inr acc' \<and> plot_acc_of start_ns (evs @ [ev]) acc'"
proof -
  consider (complete) "is_op ''complete'' ev" | (timeout) "is_op ''timeout'' ev" | (other) "\<not> is_op ''complete'' ev \<and> \<not> is_op ''timeout'' ev"
    by blast
  then show ?thesis
  proof cases
    case complete
    then obtain c s where cs: "e_completed_ns ev = Some c" "e_submitted_ns ev = Some s" using assms(2) by (auto simp: outcome_typed_def)
    let ?k = "second_of start_ns c"
    let ?acc = "acc\<lparr>pa_status_counts := dincr (get_or (e_status ev) ''?'') (pa_status_counts acc),
      pa_latencies_ms := pa_latencies_ms acc @ [real_of_int (c - s) / 1000000],
      pa_completions_by_sec := dincr ?k (pa_completions_by_sec acc)\<rparr>"
    have start: "pa_run_start_ns acc = Some start_ns" using assms(1) by (simp add: plot_acc_of_def)
    have line: "plot_line ev acc = Inr ?acc" using complete assms(3) cs start by (simp add: plot_line_def need_def Let_def)
    have "plot_acc_of start_ns (evs @ [ev]) ?acc"
      unfolding plot_acc_of_def
    proof (intro conjI allI)
      show "fst ` set (pa_completions_by_sec ?acc) =
        (\<lambda>ev. second_of start_ns (the (e_completed_ns ev))) ` {e \<in> set (evs @ [ev]). is_op ''complete'' e}"
      proof -
        have "{e \<in> set (evs @ [ev]). is_op ''complete'' e} = insert ev {e \<in> set evs. is_op ''complete'' e}" using complete by auto
        then show ?thesis using assms(1) cs by (simp add: plot_acc_of_def)
      qed
    qed (use assms(1) complete cs in \<open>auto simp: plot_acc_of_def latency_ms_def has_outcome_def\<close>)
    with line show ?thesis by blast
  next
    case timeout
    let ?acc = "acc\<lparr>pa_status_counts := dincr (get_or (e_status ev) ''?'') (pa_status_counts acc)\<rparr>"
    have ops: "\<not> is_op ''complete'' ev" using is_op_unique [OF timeout] by simp
    then have "{e \<in> set (evs @ [ev]). is_op ''complete'' e} = {e \<in> set evs. is_op ''complete'' e}" by auto
    then have "plot_acc_of start_ns (evs @ [ev]) ?acc"
      using assms(1) timeout ops unfolding plot_acc_of_def by (auto simp: has_outcome_def)
    moreover have "plot_line ev acc = Inr ?acc" using timeout ops assms(3) by (simp add: plot_line_def)
    ultimately show ?thesis by blast
  next
    case other
    then have "{e \<in> set (evs @ [ev]). is_op ''complete'' e} = {e \<in> set evs. is_op ''complete'' e}" by auto
    then have "plot_acc_of start_ns (evs @ [ev]) acc"
      using assms(1) other unfolding plot_acc_of_def by (auto simp: has_outcome_def)
    moreover have "plot_line ev acc = Inr acc" using other assms(3) by (simp add: plot_line_def)
    ultimately show ?thesis by blast
  qed
qed

lemma plot_fold:
  assumes "list_all outcome_typed evs" "list_all (\<lambda>ev. \<not> is_op ''run_start'' ev) evs"
  shows "\<exists>acc. fold_res plot_line evs (plot_acc_init\<lparr>pa_run_start_ns := Some start_ns\<rparr>) = Inr acc \<and> plot_acc_of start_ns evs acc"
  using assms
proof (induction evs rule: rev_induct)
  case Nil
  show ?case by (simp add: plot_acc_of_def plot_acc_init_def)
next
  case (snoc ev evs)
  then obtain acc where "fold_res plot_line evs (plot_acc_init\<lparr>pa_run_start_ns := Some start_ns\<rparr>) = Inr acc" "plot_acc_of start_ns evs acc"
    by auto
  with snoc.prems plot_line_step [of start_ns evs acc ev] show ?case by (auto simp: fold_res_append)
qed

text \<open>The statistics of a history that begins with the start line.\<close>

lemma plot_analyze_run:
  assumes "list_all outcome_typed evs" "list_all (\<lambda>ev. \<not> is_op ''run_start'' ev) evs"
    and "is_op ''run_start'' ev0" "e_wall_ns ev0 = Some start_ns"
  shows "\<exists>st. plot_analyze np_percentile np_mean (ev0 # evs) = Inr st \<and>
     pl_completed_count st = length (filter (has_outcome ''COMPLETED'') evs) \<and>
     pl_failed_count st = length (filter (has_outcome ''FAILED'') evs) \<and>
     pl_timeout_count st = length (filter (has_outcome ''TIMEOUT'') evs) \<and>
     pl_latencies_ms st = map latency_ms (filter (is_op ''complete'') evs) \<and>
     distinct (map fst (pl_completions_by_sec st)) \<and>
     fst ` set (pl_completions_by_sec st) = (\<lambda>ev. second_of start_ns (the (e_completed_ns ev))) ` {ev \<in> set evs. is_op ''complete'' ev} \<and>
     (\<forall>k. dget_default (pl_completions_by_sec st) k 0 =
        length (filter (\<lambda>ev. is_op ''complete'' ev \<and> second_of start_ns (the (e_completed_ns ev)) = k) evs))"
proof -
  have "plot_line ev0 plot_acc_init = Inr (plot_acc_init\<lparr>pa_run_start_ns := Some start_ns\<rparr>)"
    using assms(3,4) by (simp add: plot_line_def)
  moreover from plot_fold [OF assms(1,2), of start_ns] obtain acc where
    acc: "fold_res plot_line evs (plot_acc_init\<lparr>pa_run_start_ns := Some start_ns\<rparr>) = Inr acc" "plot_acc_of start_ns evs acc" by blast
  ultimately have "fold_res plot_line (ev0 # evs) plot_acc_init = Inr acc" by simp
  with acc(2) show ?thesis unfolding plot_analyze_def by (simp add: plot_acc_of_def Let_def del: bind_res_eq_Inr)
qed

text \<open>Every completion is counted in one bar of the throughput figure.\<close>

lemma sum_by_key:
  "distinct ks \<Longrightarrow> f ` set xs \<subseteq> set ks \<Longrightarrow> (\<Sum>k \<leftarrow> ks. length (filter (\<lambda>x. f x = k) xs)) = length xs"
proof (induction xs)
  case (Cons x xs)
  have one: "(\<Sum>k \<leftarrow> ks. of_bool (f x = k)) = (1 :: nat)" if "distinct ks" "f x \<in> set ks" for ks
    using that by (induction ks) (auto simp: sum_list_eq_0_iff)
  have "(\<Sum>k \<leftarrow> ks. length (filter (\<lambda>y. f y = k) (x # xs))) =
      (\<Sum>k \<leftarrow> ks. of_bool (f x = k) + length (filter (\<lambda>y. f y = k) xs))"
    by (rule arg_cong [where f = sum_list], rule map_cong) auto
  with Cons one [of ks] show ?case by (simp add: sum_list_addf)
qed (simp add: sum_list_eq_0_iff)

lemma bars_total:
  assumes "distinct (map fst (pl_completions_by_sec st))"
    and "fst ` set (pl_completions_by_sec st) = f ` {ev \<in> set evs. P ev}"
    and "\<And>k. dget_default (pl_completions_by_sec st) k 0 = length (filter (\<lambda>ev. P ev \<and> f ev = k) evs)"
    and "throughput_bars st = Some bars"
  shows "sum_list (map snd bars) = length (filter P evs)"
proof -
  let ?ks = "sort (map fst (pl_completions_by_sec st))"
  have "sum_list (map snd bars) = (\<Sum>k \<leftarrow> ?ks. length (filter (\<lambda>ev. f ev = k) (filter P evs)))"
    using assms(3,4) by (auto simp: throughput_bars_def Let_def comp_def conj_commute split: if_splits)
  also have "\<dots> = length (filter P evs)" using assms(1,2) by (intro sum_by_key) auto
  finally show ?thesis .
qed

end
