(* ===== verification/Plot_Exp3.thy ===== *)
theory Plot_Exp3
  imports Exp3_Run "HOL-Library.Product_Lexorder"
begin

text \<open>
  \<open>experiments/exp3/plot_exp3.py\<close>: what the figures of experiment 3 show of a history and its summary.
  Modelled are the bars, colours and texts of the summary figure, the task counts of the
  timeline, the latencies and percentiles of the distribution and the checks of the last figure; the histogram
  of numpy is a parameter, drawing with matplotlib is not modelled.
\<close>

section \<open>Summary figure\<close>

definition PASS_GREEN :: py_str where "PASS_GREEN = ''#2ecc71''"
definition FAIL_RED :: py_str where "FAIL_RED = ''#e74c3c''"
definition BLUE :: py_str where "BLUE = ''#3498db''"
definition ORANGE :: py_str where "ORANGE = ''#e67e22''"
definition PURPLE :: py_str where "PURPLE = ''#9b59b6''"

text \<open>The check mark and the cross of the source, as UTF-8 bytes.\<close>

definition check_mark :: py_str where "check_mark = [CHR 0xE2, CHR 0x9C, CHR 0x93]"
definition cross_mark :: py_str where "cross_mark = [CHR 0xE2, CHR 0x9C, CHR 0x97]"

record bar =
  bar_label :: py_str
  bar_value :: int
  bar_color :: py_str
  bar_text :: py_str

definition count_color :: "int \<Rightarrow> py_str" where
  "count_color v = (if 0 < v then FAIL_RED else PASS_GREEN)"

definition outcome_panel :: "exp3_stats \<Rightarrow> bar list" where
  "outcome_panel st =
     map (\<lambda>(l, v, c). \<lparr>bar_label = l, bar_value = v, bar_color = c, bar_text = dec_int v\<rparr>)
       [(''Submitted'', int (t_submitted st), BLUE), (''Completed'', int (t_completed st), PASS_GREEN),
        (''Timed Out'', int (t_timed_out st), count_color (int (t_timed_out st))),
        (''Lost'', t_lost st, count_color (t_lost st))]"

definition safety_vals :: "exp3_stats \<Rightarrow> (py_str \<times> int) list" where
  "safety_vals st =
     [(''Duplicate'' @ [CHR 0x0A] @ ''Dispatches'', int (t_duplicate_dispatches st)),
      (''Linearizability'' @ [CHR 0x0A] @ ''Violations'', t_linearizability_violations st),
      (''Stuck'' @ [CHR 0x0A] @ ''PENDING'', int (t_stuck_pending st)), (''Stuck'' @ [CHR 0x0A] @ ''ASSIGNED'', int (t_stuck_assigned st))]"

definition safety_panel :: "exp3_stats \<Rightarrow> bar list" where
  "safety_panel st =
     map (\<lambda>(l, v). \<lparr>bar_label = l, bar_value = v, bar_color = (if v = 0 then PASS_GREEN else FAIL_RED),
            bar_text = dec_int v @ '' '' @ (if v = 0 then check_mark else cross_mark)\<rparr>) (safety_vals st)"

definition fault_panel :: "exp3_stats \<Rightarrow> bar list" where
  "fault_panel st =
     map (\<lambda>(l, v, c). \<lparr>bar_label = l, bar_value = v, bar_color = c, bar_text = dec_int v\<rparr>)
       [(''Leader'' @ [CHR 0x0A] @ ''Kills'', int (t_leader_kills st), ORANGE), (''Follower'' @ [CHR 0x0A] @ ''Kills'', int (t_follower_kills st), PURPLE),
        (''SQS'' @ [CHR 0x0A] @ ''Redeliveries'', t_redeliveries st, BLUE)]"

text \<open>The checks of the last figure, each over a background bar of fixed height.\<close>

definition proof_items :: "exp3_stats \<Rightarrow> (py_str \<times> int \<times> int) list" where
  "proof_items st =
     [(''Duplicate'' @ [CHR 0x0A] @ ''Dispatches'', int (t_duplicate_dispatches st), 500),
      (''Linearizability'' @ [CHR 0x0A] @ ''Violations'', t_linearizability_violations st, 9584),
      (''Stuck PENDING'' @ [CHR 0x0A] @ ''(post-run)'', int (t_stuck_pending st), 500),
      (''Stuck ASSIGNED'' @ [CHR 0x0A] @ ''(post-run)'', int (t_stuck_assigned st), 500)]"

definition proof_bars :: "exp3_stats \<Rightarrow> bar list" where
  "proof_bars st =
     map (\<lambda>(l, v, n). \<lparr>bar_label = l, bar_value = v, bar_color = (if v = 0 then PASS_GREEN else FAIL_RED),
            bar_text = (if v = 0 then ''0 '' @ check_mark else dec_int v @ '' '' @ cross_mark)\<rparr>) (proof_items st)"

section \<open>Timeline\<close>

definition field :: "py_str \<Rightarrow> 'a option \<Rightarrow> 'a result" where
  "field k v = (case v of None \<Rightarrow> Inl (KeyError k) | Some x \<Rightarrow> Inr x)"

text \<open>\<open>next(e["wall_ns"] for e in events if e["op"] == "run_start")\<close>\<close>

fun run_start_ns :: "hist_event list \<Rightarrow> int result" where
  "run_start_ns [] = Inl StopIteration"
| "run_start_ns (ev # evs) =
     bind_res (field ''op'' (e_op ev)) (\<lambda>op. if op = ''run_start'' then field ''wall_ns'' (e_wall_ns ev) else run_start_ns evs)"

type_synonym status_obs = "int \<times> py_str \<times> py_str"

definition obs_of :: "hist_event \<Rightarrow> status_obs list result" where
  "obs_of ev =
     bind_res (field ''op'' (e_op ev)) (\<lambda>op.
       if op = ''submit'' then
         bind_res (field ''wall_ns'' (e_wall_ns ev)) (\<lambda>t. bind_res (field ''task_id'' (e_task_id ev)) (\<lambda>i. Inr [(t, i, ''PENDING'')]))
       else if op = ''poll_observe'' then
         bind_res (field ''return_ns'' (e_return_ns ev)) (\<lambda>t. bind_res (field ''task_id'' (e_task_id ev)) (\<lambda>i.
           bind_res (field ''status'' (e_status ev)) (\<lambda>st. Inr [(t, i, st)])))
       else if op = ''complete'' then
         bind_res (field ''completed_ns'' (e_completed_ns ev)) (\<lambda>t. bind_res (field ''task_id'' (e_task_id ev)) (\<lambda>i.
           bind_res (field ''status'' (e_status ev)) (\<lambda>st. Inr [(t, i, st)])))
       else Inr [])"

record timeline =
  tl_status :: "(py_str, py_str) pydict"
  tl_pending :: int
  tl_assigned :: int
  tl_completed :: int
  tl_points :: "(real \<times> int \<times> int \<times> int) list"

definition timeline_init :: timeline where
  "timeline_init = \<lparr>tl_status = [], tl_pending = 0, tl_assigned = 0, tl_completed = 0, tl_points = []\<rparr>"

definition bump :: "py_str \<Rightarrow> int \<Rightarrow> timeline \<Rightarrow> timeline" where
  "bump st d s =
     (if st = ''PENDING'' then s\<lparr>tl_pending := tl_pending s + d\<rparr>
      else if st = ''ASSIGNED'' then s\<lparr>tl_assigned := tl_assigned s + d\<rparr>
      else if st = ''COMPLETED'' \<or> st = ''FAILED'' then s\<lparr>tl_completed := tl_completed s + d\<rparr>
      else s)"

definition timeline_step :: "int \<Rightarrow> status_obs \<Rightarrow> timeline \<Rightarrow> timeline" where
  "timeline_step start_ns ob s =
     (case ob of (wall_ns, tid, st) \<Rightarrow>
        let old = dget (tl_status s) tid
        in if old = Some st then s
           else
             let s1 = (case old of None \<Rightarrow> s | Some o' \<Rightarrow> bump o' (-1) s);
                 s2 = (bump st 1 s1)\<lparr>tl_status := dset tid st (tl_status s1)\<rparr>
             in s2\<lparr>tl_points := tl_points s2 @
                  [(real_of_int (wall_ns - start_ns) / 1000000000, tl_pending s2, tl_assigned s2, tl_completed s2)]\<rparr>)"

definition task_state_timeline :: "hist_event list \<Rightarrow> timeline result" where
  "task_state_timeline events =
     bind_res (run_start_ns events) (\<lambda>start_ns.
     bind_res (map_res obs_of events) (\<lambda>obss.
       Inr (fold (timeline_step start_ns) (sort (concat obss)) timeline_init)))"

section \<open>Latency distribution\<close>

definition submits_of :: "hist_event list \<Rightarrow> (py_str, int) pydict result" where
  "submits_of events =
     fold_res (\<lambda>ev d. bind_res (field ''op'' (e_op ev)) (\<lambda>op.
       if op = ''submit'' then
         bind_res (field ''task_id'' (e_task_id ev)) (\<lambda>i. bind_res (field ''submitted_ns'' (e_submitted_ns ev)) (\<lambda>t. Inr (dset i t d)))
       else Inr d)) events []"

definition cdf_latencies :: "(py_str, int) pydict \<Rightarrow> hist_event list \<Rightarrow> real list result" where
  "cdf_latencies submits events =
     fold_res (\<lambda>ev xs. bind_res (field ''op'' (e_op ev)) (\<lambda>op.
       if op = ''complete'' then
         bind_res (field ''task_id'' (e_task_id ev)) (\<lambda>i.
           case dget submits i of
             None \<Rightarrow> Inr xs
           | Some t0 \<Rightarrow> bind_res (field ''completed_ns'' (e_completed_ns ev)) (\<lambda>t. Inr (xs @ [real_of_int (t - t0) / 1000000])))
       else Inr xs)) events []"

definition cdf_pct :: "real list \<Rightarrow> real \<Rightarrow> real" where
  "cdf_pct xs p = xs ! nat (py_trunc (real (length xs) * p))"

record cdf =
  cdf_xs :: "real list"
  cdf_p50 :: real
  cdf_p90 :: real
  cdf_p99 :: real
  cdf_max :: real

text \<open>\<open>None\<close> when there is nothing to draw.\<close>

definition latency_cdf :: "hist_event list \<Rightarrow> cdf option result" where
  "latency_cdf events =
     bind_res (submits_of events) (\<lambda>submits.
     bind_res (cdf_latencies submits events) (\<lambda>xs.
       let ys = sort xs
       in Inr (if ys = [] then None
               else Some \<lparr>cdf_xs = ys, cdf_p50 = cdf_pct ys (50 / 100), cdf_p90 = cdf_pct ys (90 / 100),
                          cdf_p99 = cdf_pct ys (99 / 100), cdf_max = last ys\<rparr>)))"

section \<open>Throughput under faults\<close>

text \<open>
  \<open>times_where op key f n\<close>: the list \<open>[(e[key] - n) / 1e9 for e in events if e["op"] == op]\<close>.  The
  timeline marks the injections by such lists, the last figure counts submissions and completions.
\<close>

definition times_where :: "py_str \<Rightarrow> py_str \<Rightarrow> (hist_event \<Rightarrow> int option) \<Rightarrow> int \<Rightarrow> hist_event list \<Rightarrow> real list result" where
  "times_where op key f n events =
     fold_res (\<lambda>ev xs. bind_res (field ''op'' (e_op ev)) (\<lambda>x.
       if x = op then bind_res (field key (f ev)) (\<lambda>t. Inr (xs @ [real_of_int (t - n) / 1000000000])) else Inr xs)) events []"

definition chaos_times :: "hist_event list \<Rightarrow> (py_str, real list) pydict result" where
  "chaos_times events =
     bind_res (run_start_ns events) (\<lambda>n.
     bind_res (times_where ''chaos.kill_leader'' ''wall_ns'' e_wall_ns n events) (\<lambda>l.
     bind_res (times_where ''chaos.kill_follower'' ''wall_ns'' e_wall_ns n events) (\<lambda>f.
     bind_res (times_where ''chaos.sqs_redeliver'' ''wall_ns'' e_wall_ns n events) (\<lambda>r.
       Inr [(''leader_kill'', l), (''follower_kill'', f), (''sqs_redeliver'', r)]))))"

text \<open>\<open>max(xs, default=0)\<close> and \<open>np.arange(0, stop, step)\<close>.\<close>

definition max_default :: "real list \<Rightarrow> real" where
  "max_default xs = (case xs of [] \<Rightarrow> 0 | x # ys \<Rightarrow> fold max ys x)"

definition arange0 :: "real \<Rightarrow> real \<Rightarrow> real list" where
  "arange0 stop step = map (\<lambda>i. real i * step) [0 ..< nat \<lceil>stop / step\<rceil>]"

record throughput =
  tp_bins :: "real list"
  tp_submitted :: "nat list"
  tp_completed :: "nat list"

definition bins_of :: "real list \<Rightarrow> real list \<Rightarrow> real list" where
  "bins_of submit_times completion_times =
     (let max_t = max (max_default submit_times) (max_default completion_times) + 5; bucket = 10
      in arange0 (max_t + bucket) bucket)"

definition chaos_throughput :: "(real list \<Rightarrow> real list \<Rightarrow> nat list) \<Rightarrow> hist_event list \<Rightarrow> throughput result" where
  "chaos_throughput np_histogram events =
     bind_res (run_start_ns events) (\<lambda>n.
     bind_res (times_where ''submit'' ''submitted_ns'' e_submitted_ns n events) (\<lambda>submit_times.
     bind_res (times_where ''complete'' ''completed_ns'' e_completed_ns n events) (\<lambda>completion_times.
       let bins = bins_of submit_times completion_times
       in Inr \<lparr>tp_bins = bins, tp_submitted = np_histogram submit_times bins, tp_completed = np_histogram completion_times bins\<rparr>)))"

section \<open>Lemmas\<close>

text \<open>The status each task was last seen with, and the number of tasks whose status satisfies \<open>P\<close>.\<close>

definition last_status :: "status_obs list \<Rightarrow> py_str \<rightharpoonup> py_str" where
  "last_status obs = foldl (\<lambda>m (_, tid, st). m(tid \<mapsto> st)) Map.empty obs"

definition tasks_in :: "(py_str \<rightharpoonup> py_str) \<Rightarrow> (py_str \<Rightarrow> bool) \<Rightarrow> int" where
  "tasks_in m P = int (card {t. \<exists>st. m t = Some st \<and> P st})"

lemma last_status_snoc: "last_status (obs @ [(w, tid, st)]) = (last_status obs)(tid \<mapsto> st)"
  by (simp add: last_status_def)

lemma finite_last_status: "finite (dom (last_status obs))"
proof (induction obs rule: rev_induct)
  case (snoc ob obs)
  obtain w tid st where "ob = (w, tid, st)" by (cases ob) auto
  then have "dom (last_status (obs @ [ob])) = insert tid (dom (last_status obs))" by (simp add: last_status_snoc)
  with snoc show ?case by simp
qed (simp add: last_status_def)

lemma tasks_in_update:
  assumes "finite (dom m)"
  shows "tasks_in (m(k \<mapsto> v)) P = tasks_in m P - of_bool (\<exists>st. m k = Some st \<and> P st) + of_bool (P v)"
proof -
  let ?A = "{t. \<exists>st. m t = Some st \<and> P st}" and ?B = "{t. t \<noteq> k \<and> (\<exists>st. m t = Some st \<and> P st)}"
  have fin: "finite ?B" by (rule finite_subset [OF _ assms]) auto
  have "?A = (if \<exists>st. m k = Some st \<and> P st then insert k ?B else ?B)" by auto
  then have A: "int (card ?A) = int (card ?B) + of_bool (\<exists>st. m k = Some st \<and> P st)" using fin by simp
  have "{t. \<exists>st. (m(k \<mapsto> v)) t = Some st \<and> P st} = (if P v then insert k ?B else ?B)" by auto
  then have "int (card {t. \<exists>st. (m(k \<mapsto> v)) t = Some st \<and> P st}) = int (card ?B) + of_bool (P v)" using fin by simp
  with A show ?thesis by (simp add: tasks_in_def)
qed

definition is_done :: "py_str \<Rightarrow> bool" where
  "is_done st \<longleftrightarrow> st = ''COMPLETED'' \<or> st = ''FAILED''"

text \<open>The counters of the program are the numbers of tasks in each status.\<close>

definition counters_ok :: "status_obs list \<Rightarrow> timeline \<Rightarrow> bool" where
  "counters_ok obs s \<longleftrightarrow>
     dget (tl_status s) = last_status obs \<and> tl_pending s = tasks_in (last_status obs) (\<lambda>st. st = ''PENDING'') \<and>
     tl_assigned s = tasks_in (last_status obs) (\<lambda>st. st = ''ASSIGNED'') \<and> tl_completed s = tasks_in (last_status obs) is_done"

lemma bump_counts:
  "tl_pending (bump st d s) = tl_pending s + d * of_bool (st = ''PENDING'')"
  "tl_assigned (bump st d s) = tl_assigned s + d * of_bool (st = ''ASSIGNED'')"
  "tl_completed (bump st d s) = tl_completed s + d * of_bool (is_done st)"
  "tl_status (bump st d s) = tl_status s" "tl_points (bump st d s) = tl_points s"
  by (auto simp: bump_def is_done_def)

lemma timeline_step_ok:
  assumes "counters_ok obs s"
  shows "counters_ok (obs @ [ob]) (timeline_step n ob s)"
proof -
  obtain w tid st where ob: "ob = (w, tid, st)" by (cases ob) auto
  have st: "dget (tl_status s) tid = last_status obs tid" using assms by (simp add: counters_ok_def)
  note upd = tasks_in_update [OF finite_last_status [of obs], of tid st]
  show ?thesis
  proof (cases "last_status obs tid = Some st")
    case True
    then have "last_status (obs @ [ob]) = last_status obs" by (simp add: ob last_status_snoc fun_upd_idem)
    with True assms st show ?thesis by (simp add: timeline_step_def ob counters_ok_def)
  next
    case False
    have "dget (dset tid st (tl_status s)) = (last_status obs)(tid \<mapsto> st)" using assms by (auto simp: counters_ok_def)
    with False assms st upd show ?thesis
      by (cases "last_status obs tid") (simp_all add: timeline_step_def ob counters_ok_def last_status_snoc Let_def bump_counts)
  qed
qed

lemma timeline_ok: "counters_ok obs (fold (timeline_step n) obs timeline_init)"
proof (induction obs rule: rev_induct)
  case Nil
  show ?case by (simp add: counters_ok_def timeline_init_def last_status_def tasks_in_def fun_eq_iff)
qed (simp add: timeline_step_ok)

definition status_change :: "status_obs list \<Rightarrow> nat \<Rightarrow> bool" where
  "status_change obs k \<longleftrightarrow> (case obs ! k of (w, tid, st) \<Rightarrow> last_status (take k obs) tid \<noteq> Some st)"

definition point_at :: "int \<Rightarrow> status_obs list \<Rightarrow> nat \<Rightarrow> real \<times> int \<times> int \<times> int" where
  "point_at n obs k =
     (let m = last_status (take (Suc k) obs)
      in (real_of_int (fst (obs ! k) - n) / 1000000000, tasks_in m (\<lambda>st. st = ''PENDING''), tasks_in m (\<lambda>st. st = ''ASSIGNED''),
          tasks_in m is_done))"

lemma timeline_points:
  "tl_points (fold (timeline_step n) obs timeline_init) = map (point_at n obs) (filter (status_change obs) [0 ..< length obs])"
proof (induction obs rule: rev_induct)
  case Nil
  show ?case by (simp add: timeline_init_def)
next
  case (snoc ob obs)
  let ?s = "fold (timeline_step n) obs timeline_init"
  obtain w tid st where ob: "ob = (w, tid, st)" by (cases ob) auto
  have old: "map (point_at n (obs @ [ob])) (filter (status_change (obs @ [ob])) [0 ..< length obs]) =
      map (point_at n obs) (filter (status_change obs) [0 ..< length obs])"
    by (rule map_cong [OF filter_cong]) (auto simp: status_change_def point_at_def nth_append)
  have now: "status_change (obs @ [ob]) (length obs) \<longleftrightarrow> dget (tl_status ?s) tid \<noteq> Some st"
    using timeline_ok [of obs n] by (simp add: status_change_def ob counters_ok_def)
  have "tl_points (timeline_step n ob ?s) = tl_points ?s @
      (if dget (tl_status ?s) tid = Some st then []
       else [(real_of_int (w - n) / 1000000000, tl_pending (timeline_step n ob ?s), tl_assigned (timeline_step n ob ?s),
              tl_completed (timeline_step n ob ?s))])"
    by (auto simp: timeline_step_def ob Let_def bump_counts split: option.split)
  moreover have "point_at n (obs @ [ob]) (length obs) =
      (real_of_int (w - n) / 1000000000, tl_pending (timeline_step n ob ?s), tl_assigned (timeline_step n ob ?s),
       tl_completed (timeline_step n ob ?s))"
    using timeline_step_ok [OF timeline_ok [of obs n], of ob n] by (simp add: point_at_def counters_ok_def Let_def) (simp add: ob)
  ultimately show ?case using now old snoc by simp
qed

text \<open>The bins of the last figure reach past every submission and completion.\<close>

lemma max_default_ge: "x \<in> set xs \<Longrightarrow> x \<le> max_default xs"
proof -
  assume x: "x \<in> set xs"
  then have "max_default xs = fold max xs (hd xs)" by (cases xs) (simp_all add: max_default_def)
  moreover have "xs \<noteq> []" using x by auto
  ultimately show ?thesis using x by (simp add: fold_max_Max)
qed

lemma bins_cover:
  assumes "0 \<le> t" "t \<in> set submit_times \<union> set completion_times"
  shows "hd (bins_of submit_times completion_times) = 0" "t < last (bins_of submit_times completion_times)"
proof -
  let ?m = "max (max_default submit_times) (max_default completion_times) + 5" and ?b = "bins_of submit_times completion_times"
  let ?k = "nat \<lceil>(?m + 10) / 10\<rceil>"
  have t: "t \<le> ?m - 5" using assms(2) max_default_ge by (fastforce simp: le_max_iff_disj)
  then have "1 < (?m + 10) / 10" using assms(1) by simp
  then have k: "0 < ?k" "(?m + 10) / 10 \<le> real ?k" by linarith+
  have b: "?b = map (\<lambda>i. real i * 10) [0 ..< ?k]" by (simp add: bins_of_def arange0_def Let_def)
  show "hd ?b = 0" using k(1) unfolding b by (simp add: hd_map)
  have "last (map (\<lambda>i. real i * 10) [0 ..< n]) = (real n - 1) * 10" if "0 < n" for n
    using that by (simp add: last_map of_nat_diff)
  from this [OF k(1)] have "last ?b = (real ?k - 1) * 10" unfolding b .
  moreover have "?m \<le> (real ?k - 1) * 10" using k(2) by (simp add: field_simps)
  ultimately show "t < last ?b" using t by linarith
qed

lemma proof_colors: "map bar_color (proof_bars st) = map bar_color (safety_panel st)"
  by (simp add: proof_bars_def proof_items_def safety_panel_def safety_vals_def)

section \<open>Properties\<close>

text \<open>
  The timeline counts tasks.  Every point of the timeline belongs to one observation that changes the
  status of its task, in order, and shows the numbers of tasks that were then last seen pending, assigned
  and finished; so no count is ever negative and no task is counted twice.
\<close>

theorem timeline_counts_tasks:
  "case task_state_timeline events of
     Inl e \<Rightarrow> (\<exists>e'. run_start_ns events = Inl e') \<or> (\<exists>e'. map_res obs_of events = Inl e')
   | Inr s \<Rightarrow> \<exists>n obss. run_start_ns events = Inr n \<and> map_res obs_of events = Inr obss \<and>
       (let obs = sort (concat obss)
        in tl_points s = map (point_at n obs) (filter (status_change obs) [0 ..< length obs]) \<and>
           tl_pending s = tasks_in (last_status obs) (\<lambda>st. st = ''PENDING'') \<and>
           tl_pending s + tl_assigned s + tl_completed s \<le> int (card (dom (last_status obs))))"
proof (cases "run_start_ns events")
  case (Inl e)
  then show ?thesis by (simp add: task_state_timeline_def)
next
  case n: (Inr n)
  show ?thesis
  proof (cases "map_res obs_of events")
    case (Inl e)
    with n show ?thesis by (simp add: task_state_timeline_def)
  next
    case (Inr obss)
    let ?obs = "sort (concat obss)" and ?m = "last_status (sort (concat obss))"
    let ?P = "{t. ?m t = Some ''PENDING''}" and ?A = "{t. ?m t = Some ''ASSIGNED''}" and ?C = "{t. \<exists>st. ?m t = Some st \<and> is_done st}"
    have sub: "?P \<union> ?A \<union> ?C \<subseteq> dom ?m" by auto
    then have fin: "finite ?P" "finite ?A" "finite ?C" using finite_last_status finite_subset by fastforce+
    have "card (?P \<union> ?A \<union> ?C) = card ?P + card ?A + card ?C"
      using fin by (subst card_Un_disjoint; (subst card_Un_disjoint)?) (auto simp: is_done_def)
    then have "int (card ?P) + int (card ?A) + int (card ?C) \<le> int (card (dom ?m))"
      using card_mono [OF finite_last_status sub] by simp
    with n Inr timeline_ok [of ?obs n] timeline_points [of n ?obs] show ?thesis
      by (simp add: task_state_timeline_def counters_ok_def tasks_in_def Let_def)
  qed
qed

text \<open>
  C20: what an all-green figure means.  Let tasks be polled concurrently by the traced poll and their events interleave in
  any way with those of the other threads, and let the tasks table answer consistently during the analysis.
  The analysis returns, and all bars of the safety panel (equivalently, of the last figure) are green exactly when no
  task's observed status went backward, no submitted task was received twice, and none is stuck in
  \<open>PENDING\<close> or \<open>ASSIGNED\<close>.  Tasks without a row, which the divergence scan counts, do not appear.
\<close>

theorem green_figure_iff:
  assumes "porcupine_correct check_ops" "0 < rp_poll_interval_s params"
    and "distinct (map start_tid starts)" "[] \<notin> set (map start_tid starts)"
    and "interleaved (map (traced_trace cfg params) starts @ others) (events_of h)"
    and "list_all (list_all (\<lambda>ev. \<not> is_op ''poll_observe'' ev)) others"
    and "honest_batch table get" "progressing get" "keyed table"
  shows "\<exists>st w'. exp3_analyze get (Some (run_lincheck check_ops h)) h w = Some (Inr st, w') \<and>
     map bar_color (proof_bars st) = map bar_color (safety_panel st) \<and>
     (set (map bar_color (safety_panel st)) = {PASS_GREEN} \<longleftrightarrow>
        list_all (\<lambda>t. sorted (observed_codes (traced_trace cfg params t))) starts \<and>
        list_all (\<lambda>t. case table t of None \<Rightarrow> True | Some row \<Rightarrow>
           \<not> is_dup row \<and> \<not> has_status ''PENDING'' row \<and> \<not> has_status ''ASSIGNED'' row) (submit_ids (events_of h)))"
proof -
  from dup_scan_result [OF assms(7-9), of h w] obtain dup w1 where dup: "dup_scan get h w = Some (Inr dup, w1)"
    "dr_duplicate_count dup = card {t \<in> set (submit_ids (events_of h)). \<exists>row. table t = Some row \<and> is_dup row}" by auto
  from divergence_scan_result [OF assms(7-9), of h w1] obtain dv w2 where dv: "divergence_scan get h w1 = Some (Inr dv, w2)"
    "dv_stuck_pending dv = card {t \<in> set (submit_ids (events_of h)). \<exists>row. table t = Some row \<and> has_status ''PENDING'' row}"
    "dv_stuck_assigned dv = card {t \<in> set (submit_ids (events_of h)). \<exists>row. table t = Some row \<and> has_status ''ASSIGNED'' row}"
    by (auto simp: Let_def)
  let ?st = "exp3_stats_of h dup dv (Some (run_lincheck check_ops h))"
  have fin: "finite {t \<in> set (submit_ids (events_of h)). Q t}" for Q by simp
  have "t_linearizability_violations ?st = (if lr_violations (lincheck check_ops h) = 0 then 0 else -1)"
    by (simp add: exp3_stats_of_def lin_violations_def run_lincheck_def lincheck_exit_def lincheck_def Let_def get_or_def)
  then have lin: "t_linearizability_violations ?st = 0 \<longleftrightarrow> list_all (\<lambda>t. sorted (observed_codes (traced_trace cfg params t))) starts"
    unfolding lincheck_run_result [OF assms(1-6)] by (auto simp: list_all_iff filter_empty_conv)
  have "FAIL_RED \<noteq> PASS_GREEN" by (simp add: FAIL_RED_def PASS_GREEN_def)
  then have "set (map bar_color (safety_panel ?st)) = {PASS_GREEN} \<longleftrightarrow>
      dr_duplicate_count dup = 0 \<and> t_linearizability_violations ?st = 0 \<and> dv_stuck_pending dv = 0 \<and> dv_stuck_assigned dv = 0"
    by (auto simp: safety_panel_def safety_vals_def exp3_stats_of_def Let_def)
  moreover have "dr_duplicate_count dup = 0 \<and> dv_stuck_pending dv = 0 \<and> dv_stuck_assigned dv = 0 \<longleftrightarrow>
      list_all (\<lambda>t. case table t of None \<Rightarrow> True | Some row \<Rightarrow>
           \<not> is_dup row \<and> \<not> has_status ''PENDING'' row \<and> \<not> has_status ''ASSIGNED'' row) (submit_ids (events_of h))"
    unfolding dup(2) dv(2,3) card_eq_0_iff list_all_iff using fin by (auto split: option.splits)
  ultimately show ?thesis using dup(1) dv(1) lin proof_colors by (auto simp: exp3_analyze_def)
qed

theorem green_figure_iff_witness:
  "\<exists>st w'. exp3_analyze demo_get (Some (run_lincheck linearizable
        (map EventLine (traced_trace demo_bench_config demo_params demo_backward_start))))
      (map EventLine (traced_trace demo_bench_config demo_params demo_backward_start))
      \<lparr>w_ns = 0, w_k = 0, w_delay = (\<lambda>_. 1)\<rparr> = Some (Inr st, w') \<and>
     set (map bar_color (safety_panel st)) \<noteq> {PASS_GREEN}"
proof -
  let ?tr = "traced_trace demo_bench_config demo_params demo_backward_start"
  have ev: "events_of (map EventLine xs) = xs" for xs by (induction xs) auto
  have "porcupine_correct linearizable" "0 < rp_poll_interval_s demo_params" "distinct (map start_tid [demo_backward_start])"
    "[] \<notin> set (map start_tid [demo_backward_start])"
    "interleaved (map (traced_trace demo_bench_config demo_params) [demo_backward_start] @ []) (events_of (map EventLine ?tr))"
    "list_all (list_all (\<lambda>ev. \<not> is_op ''poll_observe'' ev)) []"
    using interleaved_one [of ?tr]
    by (simp_all add: ev porcupine_correct_def demo_params_def start_tid_def demo_backward_start_def thread_tid_def demo_submit_services_def)
  from green_figure_iff [OF this demo_batch, of "\<lparr>w_ns = 0, w_k = 0, w_delay = (\<lambda>_. 1)\<rparr>"] show ?thesis
    by (auto simp: demo_backward_codes simp del: list.map)
qed

text \<open>
  The latency figure: its percentiles are latencies of the history, in order, below the maximum.
\<close>

theorem cdf_percentiles_ordered:
  assumes "latency_cdf events = Inr (Some c)"
  shows "cdf_p50 c \<le> cdf_p90 c \<and> cdf_p90 c \<le> cdf_p99 c \<and> cdf_p99 c \<le> cdf_max c \<and>
     {cdf_p50 c, cdf_p90 c, cdf_p99 c, cdf_max c} \<subseteq> set (cdf_xs c)"
proof -
  from assms obtain xs where xs: "xs \<noteq> []" "sorted xs" "cdf_xs c = xs" "cdf_p50 c = cdf_pct xs (50 / 100)" "cdf_p90 c = cdf_pct xs (90 / 100)"
    "cdf_p99 c = cdf_pct xs (99 / 100)" "cdf_max c = last xs"
    by (auto simp: latency_cdf_def Let_def split: if_splits)
  have idx: "py_trunc (real (length xs) * (p / 100)) = trunc_index p (length xs)" if "0 \<le> p" "p < 100" for p
  proof -
    have "real (length xs) * p / 100 < real (length xs)" using that xs(1) by simp
    then have "\<lfloor>real (length xs) * p / 100\<rfloor> \<le> int (length xs) - 1" by linarith
    with that show ?thesis by (simp add: trunc_index_def py_trunc_nonneg)
  qed
  have pct: "cdf_pct xs (p / 100) = sort xs ! nat (trunc_index p (length xs))" if "0 \<le> p" "p < 100" for p
    using idx [OF that] xs(2) by (simp add: cdf_pct_def sorted_sort_id)
  have last: "x \<le> last xs" if "x \<in> set xs" for x
  proof -
    from that obtain i where "i < length xs" "x = xs ! i" by (auto simp: in_set_conv_nth)
    then show ?thesis using xs(1,2) by (auto simp: last_conv_nth intro!: sorted_nth_mono)
  qed
  show ?thesis
    using pct [of 50] pct [of 90] pct [of 99] truncation.percentile_mono [OF xs(1), of 50 90] truncation.percentile_mono [OF xs(1), of 90 99]
      truncation.percentile_mem [OF xs(1)] last xs by simp
qed

end
