(* ===== verification/Typed.thy ===== *)
theory Typed
  imports Exp3_Threads Plot Plot_Exp3
begin

text \<open>
  The lines of a history are typed: every line carries the fields that its readers look up.  This
  theory proves that each thread of chaos-bench writes only such lines, and that none of the readers
  (\<open>analyze\<close> of \<open>exp1.py\<close> and \<open>plot.py\<close>, the figures of \<open>plot_exp3.py\<close>) raises an exception on them.
\<close>

section \<open>Typed lines\<close>

definition typed_event :: "hist_event \<Rightarrow> bool" where
  "typed_event ev \<longleftrightarrow>
     e_op ev \<noteq> None \<and> e_wall_ns ev \<noteq> None \<and>
     (is_op ''submit'' ev \<longrightarrow> e_task_id ev \<noteq> None \<and> e_submitted_ns ev \<noteq> None) \<and>
     (is_op ''poll_observe'' ev \<longrightarrow> e_task_id ev \<noteq> None \<and> e_call_ns ev \<noteq> None \<and> e_return_ns ev \<noteq> None \<and> e_status ev \<noteq> None) \<and>
     (is_op ''complete'' ev \<or> is_op ''timeout'' ev \<longrightarrow>
        e_task_id ev \<noteq> None \<and> e_submitted_ns ev \<noteq> None \<and> e_completed_ns ev \<noteq> None \<and> e_status ev \<noteq> None) \<and>
     (is_op ''chaos.kill_leader'' ev \<or> is_op ''chaos.kill_follower'' ev \<longrightarrow> e_killed_ns ev \<noteq> None) \<and>
     (is_op ''chaos.sqs_redeliver'' ev \<longrightarrow> e_redelivered ev \<noteq> None) \<and>
     (is_op ''leader_observed'' ev \<longrightarrow> e_node_id ev \<noteq> None)"

abbreviation typed_hist :: "history \<Rightarrow> bool" where
  "typed_hist h \<equiv> list_all typed_event (events_of h)"

lemma stamp_wall: "e_wall_ns (stamp t ev) \<noteq> None"
  by (simp add: stamp_def split: option.split)

lemma stamp_redelivered [simp]: "e_redelivered (stamp t ev) = e_redelivered ev"
  by (simp add: stamp_def split: option.split)

lemma typed_stamped [simp]:
  "typed_event (stamp t (submit_event sr))" "typed_event (stamp t (submit_error_event e))"
  "st \<noteq> None \<Longrightarrow> typed_event (stamp t (complete_event tid s c st))" "typed_event (stamp t (timeout_event tid s c))"
  "st \<noteq> None \<Longrightarrow> typed_event (stamp t (observe_event tid c r st))" "typed_event (stamp t (change_event ldr))"
  "typed_event (stamp t (skip_event info))" "typed_event (stamp t (kill_leader_event res li))"
  "typed_event (stamp t (kill_follower_event res))" "typed_event (stamp t (chaos_error_event f e))"
  "typed_event (stamp t (event_of ''run_start''))" "typed_event (stamp t (event_of ''run_end''))"
  "typed_event (stamp t ((event_of ''chaos.sqs_redeliver'')\<lparr>e_redelivered := Some n, e_info := info\<rparr>))"
  using stamp_wall
  by (auto simp: typed_event_def submit_event_def submit_error_event_def complete_event_def timeout_event_def observe_event_def
      change_event_def skip_event_def kill_leader_event_def kill_follower_event_def chaos_error_event_def is_op_def split: option.split)

lemma terminal_status: "is_terminal st \<Longrightarrow> st \<noteq> None"
  by (auto simp: is_terminal_def)

section \<open>The polls\<close>

text \<open>Both polls are a loop followed by a timeout line; typed rounds give a typed history.\<close>

lemma poll_loop_typed:
  fixes body :: "history \<Rightarrow> world \<Rightarrow> ((unit result \<times> history) + history) \<times> world"
  assumes ret: "map_option (\<lambda>(out, w2). case out of
        Inl res \<Rightarrow> (res, w2)
      | Inr h' \<Rightarrow> ((Inr (), h' @ [EventLine (stamp (int (w_ns (tick (tick w2)))) (timeout_event tid s (int (w_ns (tick w2)))))]), tick (tick w2)))
      (deadline_loop dl body h w) = Some ((r, h'), w')"
    and "typed_hist h"
    and body: "\<And>g v out v'. typed_hist g \<Longrightarrow> body g v = (out, v') \<Longrightarrow> typed_hist (case_sum snd id out)"
  shows "typed_hist h'"
proof -
  from ret obtain out w2 where loop: "deadline_loop dl body h w = Some (out, w2)" by auto
  from loop assms(2) have "typed_hist (case_sum snd id out)"
    by (rule deadline_loop_rule [where I = "\<lambda>g _. typed_hist g" and Q = "\<lambda>out _. typed_hist (case_sum snd id out)"])
      (use body in fastforce)+
  with ret loop show ?thesis by (cases out) auto
qed

lemma poll_body_typed: "typed_hist g \<Longrightarrow> poll_body db tid s interval g v = (out, v') \<Longrightarrow> typed_hist (case_sum snd id out)"
  by (auto simp: poll_body_eq terminal_status split: sum.splits if_splits)

lemma traced_body_typed: "typed_hist g \<Longrightarrow> traced_body db tid s interval g v = (out, v') \<Longrightarrow> typed_hist (case_sum snd id out)"
  by (auto simp: traced_body_eq terminal_status Let_def split: sum.splits if_splits)

lemma poll_to_completion_typed:
  "poll_to_completion db tid s timeout_s interval h w = Some ((r, h'), w') \<Longrightarrow> typed_hist h \<Longrightarrow> typed_hist h'"
  unfolding poll_to_completion_def now_def now_ns_def record_event_eq Let_def prod.case fst_conv snd_conv
  by (erule poll_loop_typed) (auto dest: poll_body_typed)

lemma traced_typed:
  "poll_to_completion_traced db tid s timeout_s interval h w = Some ((r, h'), w') \<Longrightarrow> typed_hist h \<Longrightarrow> typed_hist h'"
  unfolding poll_to_completion_traced_def now_def now_ns_def record_event_eq Let_def prod.case fst_conv snd_conv
  by (erule poll_loop_typed) (auto dest: traced_body_typed)

lemma do_submit_typed: "do_submit sv cfg params w = (sr, h, w') \<Longrightarrow> typed_hist h"
  by (auto simp: do_submit_def record_event_eq Let_def split: prod.splits sum.splits)

lemma task_traces_typed:
  "list_all typed_event (task_trace cfg params st)" "list_all typed_event (traced_trace cfg params st)"
  "list_all typed_event (bench_trace cfg params st)"
proof -
  obtain sv db w where st: "st = (sv, db, w)" by (cases st)
  obtain sr h w1 where sub: "do_submit sv cfg params w = (sr, h, w1)" by (metis prod.exhaust)
  show "list_all typed_event (task_trace cfg params st)"
    using do_submit_typed [OF sub] sub
    by (auto simp: task_trace_def task_thread_def st split: option.split dest: poll_to_completion_typed)
  show "list_all typed_event (traced_trace cfg params st)"
    using do_submit_typed [OF sub] sub
    by (auto simp: traced_trace_def traced_thread_def st split: option.split dest: traced_typed)
  show "list_all typed_event (bench_trace cfg params st)"
    by (auto simp: bench_trace_def bench_thread_def st record_event_eq Let_def split: option.split prod.split sum.split
        dest!: poll_to_completion_typed)
qed

section \<open>Tracker and injections\<close>

lemma tracker_typed: "list_all typed_event (tracker_trace sv poll_s n w)"
proof -
  have "typed_hist (fst (snd (tracker_run sv poll_s n w)))"
  proof (induction n)
    case (Suc n)
    obtain latest h v where "tracker_run sv poll_s n w = (latest, h, v)" by (metis prod.exhaust)
    with Suc show ?case by (simp add: tracker_run_def tracker_turn_eq Let_def)
  qed (simp add: tracker_run_def)
  then show ?thesis by (simp add: tracker_trace_def)
qed

lemma kill_env_typed: "typed_hist (ch_hist (kill_env cfg th))"
proof -
  have "typed_hist (ch_hist s)" if "exp1_kill_loop (et_chaos th) cfg (et_period th) (et_stop th) (et_kill_world th) = Some s" for s
    by (rule exp1_kill_loop_rule [OF that, where I = "\<lambda>s _. typed_hist (ch_hist s)"]) (auto elim!: exp1_kill_turn_cases)
  then show ?thesis by (simp add: kill_env_def split: option.split)
qed

text \<open>Any injection loop whose turns write typed lines writes a typed history.\<close>

locale typed_turn =
  fixes turn :: "chaos_env \<Rightarrow> chaos_env"
  assumes turn_typed: "typed_hist (ch_hist s) \<Longrightarrow> typed_hist (ch_hist (turn s))"
begin

lemma loop_typed: "typed_hist (ch_hist s) \<Longrightarrow> typed_hist (ch_hist (chaos_loop turn offset period n s))"
proof -
  assume s: "typed_hist (ch_hist s)"
  have "typed_hist (ch_hist (((\<lambda>s. let s' = turn s in s'\<lparr>ch_world := sleep period (ch_world s')\<rparr>) ^^ n) s'))"
    if "typed_hist (ch_hist s')" for s'
    using that by (induction n) (simp_all add: Let_def turn_typed)
  with s show ?thesis by (simp add: chaos_loop_def)
qed

end

interpretation leader_turn: typed_turn "exp3_kill_leader_turn sv cfg" for sv :: chaos_services and cfg :: bench_config
  by unfold_locales
    (auto simp: exp3_kill_leader_turn_def kill_leader_def Let_def split: sum.split option.split prod.split dest!: stop_random_task_cases)

interpretation follower_turn: typed_turn "exp3_kill_follower_turn sv cfg" for sv :: chaos_services and cfg :: bench_config
  by unfold_locales
    (auto simp: exp3_kill_follower_turn_def Let_def split: sum.split option.split prod.split dest!: kill_follower_cases)

interpretation redeliver_turn: typed_turn "exp3_redeliver_turn sv cfg" for sv :: chaos_services and cfg :: bench_config
  by unfold_locales
    (auto simp: exp3_redeliver_turn_def inject_sqs_redelivery_def call_def Let_def split: sum.split prod.split)

section \<open>Threads and readers\<close>

text \<open>The sequences of lines that the threads of the experiments and of the bench append.\<close>

inductive thread_trace :: "bench_config \<Rightarrow> hist_event list \<Rightarrow> bool" for cfg where
  task: "thread_trace cfg (task_trace cfg params st)"
| traced: "thread_trace cfg (traced_trace cfg params st)"
| bench: "thread_trace cfg (bench_trace cfg params st)"
| tracker: "thread_trace cfg (tracker_trace sv poll_s n w)"
| exp1_kill: "thread_trace cfg (events_of (ch_hist (kill_env cfg th)))"
| leader_kill: "thread_trace cfg (events_of (ch_hist (injection_loop exp3_kill_leader_turn offset cfg a)))"
| follower_kill: "thread_trace cfg (events_of (ch_hist (injection_loop exp3_kill_follower_turn offset cfg a)))"
| redelivery: "thread_trace cfg (events_of (ch_hist (injection_loop exp3_redeliver_turn offset cfg a)))"
| run_start: "thread_trace cfg [stamp t (event_of ''run_start'')]"
| run_end: "thread_trace cfg [stamp t (event_of ''run_end'')]"

lemma thread_trace_typed: "thread_trace cfg tr \<Longrightarrow> list_all typed_event tr"
proof (induction rule: thread_trace.induct)
  case (leader_kill offset a)
  show ?case using leader_turn.loop_typed by (simp add: injection_loop_def split: prod.split)
next
  case (follower_kill offset a)
  show ?case using follower_turn.loop_typed by (simp add: injection_loop_def split: prod.split)
next
  case (redelivery offset a)
  show ?case using redeliver_turn.loop_typed by (simp add: injection_loop_def split: prod.split)
qed (simp_all add: task_traces_typed tracker_typed kill_env_typed)

lemma interleaved_typed: "interleaved ts zs \<Longrightarrow> list_all (list_all typed_event) ts \<Longrightarrow> list_all typed_event zs"
  using interleaved_set [of ts zs] by (auto simp: list_all_iff)

lemma typed_eventD:
  assumes "typed_event ev"
  shows "\<exists>op. e_op ev = Some op" "\<exists>t. e_wall_ns ev = Some t"
    "is_op ''submit'' ev \<Longrightarrow> \<exists>i s. e_task_id ev = Some i \<and> e_submitted_ns ev = Some s"
    "is_op ''poll_observe'' ev \<Longrightarrow> \<exists>i t st. e_task_id ev = Some i \<and> e_return_ns ev = Some t \<and> e_status ev = Some st"
    "is_op ''complete'' ev \<or> is_op ''timeout'' ev \<Longrightarrow>
      \<exists>i s c st. e_task_id ev = Some i \<and> e_submitted_ns ev = Some s \<and> e_completed_ns ev = Some c \<and> e_status ev = Some st"
    "is_op ''leader_observed'' ev \<Longrightarrow> \<exists>n. e_node_id ev = Some n"
  using assms unfolding typed_event_def by blast+

lemma typed_wf: "typed_event ev \<Longrightarrow> wf_event ev"
  unfolding wf_event_def using typed_eventD by (metis option.distinct(1))

lemma plot_line_typed: "typed_event ev \<Longrightarrow> \<exists>acc'. plot_line ev acc = Inr acc'"
  using typed_eventD(5) [of ev] by (cases "is_op ''complete'' ev") (auto simp: plot_line_def need_def Let_def)

lemma obs_of_typed:
  assumes "typed_event ev"
  shows "\<exists>obs. obs_of ev = Inr obs"
proof -
  obtain op where op: "e_op ev = Some op" using typed_eventD(1) [OF assms] by blast
  then have is_op: "is_op x ev \<longleftrightarrow> op = x" for x by (auto simp: is_op_def)
  consider "op = ''submit''" | "op = ''poll_observe''" | "op = ''complete''"
    | "op \<noteq> ''submit''" "op \<noteq> ''poll_observe''" "op \<noteq> ''complete''" by blast
  then show ?thesis
    by cases (use typed_eventD [OF assms] op in \<open>auto simp: obs_of_def field_def is_op\<close>)
qed

lemma run_start_found:
  "list_all typed_event evs \<Longrightarrow> (\<exists>t. run_start_ns evs = Inr t) \<longleftrightarrow> list_ex (is_op ''run_start'') evs"
proof (induction evs)
  case (Cons ev evs)
  then obtain op t where "e_op ev = Some op" "e_wall_ns ev = Some t" using typed_eventD(1,2) [of ev] by auto
  with Cons show ?case by (cases "op = ''run_start''") (simp_all add: field_def is_op_def)
qed simp

lemma latency_cdf_total:
  assumes "list_all typed_event evs"
  shows "\<exists>c. latency_cdf evs = Inr c"
proof -
  have typed: "typed_event ev" if "ev \<in> set evs" for ev using assms that by (simp add: list_all_iff)
  have op: "\<exists>op. e_op ev = Some op \<and> (\<forall>x. is_op x ev \<longleftrightarrow> op = x)" if "ev \<in> set evs" for ev
    using typed_eventD(1) [OF typed [OF that]] by (auto simp: is_op_def)
  have "\<exists>d. submits_of evs = Inr d"
    unfolding submits_of_def
  proof (rule fold_res_total)
    fix ev and d :: "(py_str, int) pydict" assume ev: "ev \<in> set evs"
    with op obtain x where "e_op ev = Some x" "\<forall>y. is_op y ev \<longleftrightarrow> x = y" by blast
    with typed_eventD(3) [OF typed [OF ev]] show "\<exists>d'. bind_res (field ''op'' (e_op ev)) (\<lambda>op.
       if op = ''submit'' then
         bind_res (field ''task_id'' (e_task_id ev)) (\<lambda>i. bind_res (field ''submitted_ns'' (e_submitted_ns ev)) (\<lambda>t. Inr (dset i t d)))
       else Inr d) = Inr d'"
      by (cases "x = ''submit''") (auto simp: field_def)
  qed
  moreover have "\<exists>xs. cdf_latencies d evs = Inr xs" for d
    unfolding cdf_latencies_def
  proof (rule fold_res_total)
    fix ev and xs :: "real list" assume ev: "ev \<in> set evs"
    with op obtain x where x: "e_op ev = Some x" "\<forall>y. is_op y ev \<longleftrightarrow> x = y" by blast
    have fields: "x = ''complete'' \<Longrightarrow> \<exists>i c. e_task_id ev = Some i \<and> e_completed_ns ev = Some c"
      using typed_eventD(5) [OF typed [OF ev]] x(2) by blast
    show "\<exists>xs'. bind_res (field ''op'' (e_op ev)) (\<lambda>op.
       if op = ''complete'' then
         bind_res (field ''task_id'' (e_task_id ev)) (\<lambda>i.
           case dget d i of
             None \<Rightarrow> Inr xs
           | Some t0 \<Rightarrow> bind_res (field ''completed_ns'' (e_completed_ns ev)) (\<lambda>t. Inr (xs @ [real_of_int (t - t0) / 1000000])))
       else Inr xs) = Inr xs'"
      using fields x(1) by (cases "x = ''complete''") (auto simp: field_def split: option.split)
  qed
  ultimately obtain d xs where "submits_of evs = Inr d" "cdf_latencies d evs = Inr xs" by blast
  then show ?thesis by (simp add: latency_cdf_def Let_def del: bind_res_eq_Inr)
qed

section \<open>Bench runs\<close>

definition task_outcome :: "hist_event \<Rightarrow> bool" where
  "task_outcome ev \<longleftrightarrow>
     is_op ''complete'' ev \<and> e_status ev \<in> {Some ''COMPLETED'', Some ''FAILED''} \<or> is_op ''timeout'' ev \<and> e_status ev = Some ''TIMEOUT''"

lemma bench_trace_lines:
  assumes "0 < rp_poll_interval_s params"
  shows "\<exists>pre fin. bench_trace cfg params st = pre @ fin \<and> only_ops {''submit''} pre \<and>
     (fin = [] \<or> (\<exists>ev. fin = [ev] \<and> task_outcome ev))"
proof -
  obtain sv db w where st: "st = (sv, db, w)" by (cases st)
  let ?payload = "replicate (nat (payload_bytes params)) CHR ''x''"
  obtain r s where sub: "submit sv cfg ?payload (rp_priority params) \<lparr>aws_log = [], aws_world = w\<rparr> = (r, s)" by fastforce
  show ?thesis
  proof (cases r)
    case (Inl e)
    then have "bench_trace cfg params st = [] @ []" using sub by (simp add: bench_trace_def st bench_thread_def)
    then show ?thesis by (intro exI [of _ "[]"]) (simp add: only_ops_def)
  next
    case (Inr sr)
    let ?ev = "stamp (int (w_ns (tick (aws_world s)))) (submit_event sr)" and ?w = "tick (aws_world s)"
    obtain res h' w' where p: "poll_to_completion db (sr_task_id sr) (sr_submitted_ns sr) (completion_timeout_s params)
        (rp_poll_interval_s params) [EventLine ?ev] ?w = Some ((res, h'), w')"
      "case res of Inl e \<Rightarrow> h' = [EventLine ?ev]
       | Inr _ \<Rightarrow> \<exists>ev. h' = [EventLine ?ev] @ [EventLine ev] \<and>
           outcome_ok db (sr_task_id sr) (sr_submitted_ns sr) (secs (tick ?w) + completion_timeout_s params) ev"
      using poll_to_completion_outcome_lemma [OF assms] by blast
    have tr: "bench_trace cfg params st = events_of h'"
      using sub Inr p(1) by (simp add: bench_trace_def st bench_thread_def record_event_eq Let_def)
    have "events_of h' = [?ev] \<or> (\<exists>ev. events_of h' = [?ev] @ [ev] \<and> task_outcome ev)"
      using p(2) by (auto simp: outcome_ok_def task_outcome_def is_terminal_def split: sum.splits)
    moreover have "only_ops {''submit''} [?ev]" by (simp add: only_ops_def submit_event_def)
    ultimately show ?thesis unfolding tr by (metis append_Nil2)
  qed
qed

lemma bench_trace_outcomes:
  assumes "0 < rp_poll_interval_s params"
  shows "length (filter (has_outcome x) (bench_trace cfg params st)) = of_bool (list_ex (has_outcome x) (bench_trace cfg params st))"
    and "length (filter (is_op ''complete'') (bench_trace cfg params st)) =
      length (filter (has_outcome ''COMPLETED'') (bench_trace cfg params st)) + length (filter (has_outcome ''FAILED'') (bench_trace cfg params st))"
    and "filter (is_op ''run_start'') (bench_trace cfg params st) = []"
proof -
  obtain pre fin where tr: "bench_trace cfg params st = pre @ fin" "only_ops {''submit''} pre"
    "fin = [] \<or> (\<exists>ev. fin = [ev] \<and> task_outcome ev)" using bench_trace_lines [OF assms] by blast
  have pre: "filter (is_op op) pre = []" if "op \<noteq> ''submit''" for op using only_ops_filter [OF tr(2)] that by simp
  have out: "\<not> has_outcome y ev" if "ev \<in> set pre" for y ev
    using pre [of "''complete''"] pre [of "''timeout''"] that by (auto simp: has_outcome_def filter_empty_conv)
  then have pre': "filter (has_outcome y) pre = []" "\<not> list_ex (has_outcome y) pre" for y by (auto simp: filter_empty_conv list_ex_iff)
  show "length (filter (has_outcome x) (bench_trace cfg params st)) = of_bool (list_ex (has_outcome x) (bench_trace cfg params st))"
    using tr(3) pre' by (auto simp: tr(1))
  have last: "length (filter (is_op ''complete'') fin) = length (filter (has_outcome ''COMPLETED'') fin) + length (filter (has_outcome ''FAILED'') fin)"
    "filter (is_op ''run_start'') fin = []"
    using tr(3) by (auto simp: task_outcome_def has_outcome_def get_or_def is_op_def)
  then show "length (filter (is_op ''complete'') (bench_trace cfg params st)) =
      length (filter (has_outcome ''COMPLETED'') (bench_trace cfg params st)) + length (filter (has_outcome ''FAILED'') (bench_trace cfg params st))"
    "filter (is_op ''run_start'') (bench_trace cfg params st) = []"
    using pre [of "''complete''"] pre [of "''run_start''"] pre' by (simp_all add: tr(1))
qed

definition with_outcome :: "py_str \<Rightarrow> bench_config \<Rightarrow> run_params \<Rightarrow> task_start list \<Rightarrow> task_start list" where
  "with_outcome x cfg params starts = filter (\<lambda>s. list_ex (has_outcome x) (bench_trace cfg params s)) starts"

lemma bench_counts:
  assumes "0 < rp_poll_interval_s params"
    and "interleaved (map (bench_trace cfg params) starts @ [[stamp end_ns (event_of ''run_end'')]]) evs"
  shows "length (filter (has_outcome x) evs) = length (with_outcome x cfg params starts)"
    and "length (filter (is_op ''complete'') evs) =
      length (with_outcome ''COMPLETED'' cfg params starts) + length (with_outcome ''FAILED'' cfg params starts)"
    and "list_all (\<lambda>ev. \<not> is_op ''run_start'' ev) evs" "list_all outcome_typed evs"
proof -
  note count = interleaved_filter_count [OF assms(2)]
  have fin: "\<not> has_outcome y (stamp end_ns (event_of ''run_end''))" for y by (simp add: has_outcome_def)
  show x: "length (filter (has_outcome x) evs) = length (with_outcome x cfg params starts)" for x
    using bench_trace_outcomes(1) [OF assms(1)] fin by (simp add: count comp_def sum_of_bool with_outcome_def)
  have "length (filter (is_op ''complete'') evs) = length (filter (has_outcome ''COMPLETED'') evs) + length (filter (has_outcome ''FAILED'') evs)"
    using bench_trace_outcomes(2) [OF assms(1)] fin by (simp add: count comp_def sum_list_addf)
  then show "length (filter (is_op ''complete'') evs) =
      length (with_outcome ''COMPLETED'' cfg params starts) + length (with_outcome ''FAILED'' cfg params starts)" by (simp add: x)
  have "length (filter (is_op ''run_start'') evs) = 0"
    using bench_trace_outcomes(3) [OF assms(1)] by (simp add: count comp_def)
  then show "list_all (\<lambda>ev. \<not> is_op ''run_start'' ev) evs" by (simp add: list_all_iff filter_empty_conv)
  have "list_all typed_event evs"
    by (rule interleaved_typed [OF assms(2)]) (auto simp: list_all_iff dest: thread_trace_typed [OF thread_trace.bench, unfolded list_all_iff, rule_format])
  then show "list_all outcome_typed evs" using typed_eventD(5) by (force simp: list_all_iff outcome_typed_def)
qed

section \<open>Properties\<close>

lemma demo_exp3_traced:
  "list_all (thread_trace demo_kill_config) ([stamp 0 (event_of ''run_start'')] # exp3_run_traces demo_kill_config demo_exp3_threads)"
  "interleaved ([stamp 0 (event_of ''run_start'')] # exp3_run_traces demo_kill_config demo_exp3_threads) (events_of demo_exp3_history)"
  "list_ex (is_op ''run_start'') (events_of demo_exp3_history)"
proof -
  let ?ts = "[stamp 0 (event_of ''run_start'')] # exp3_run_traces demo_kill_config demo_exp3_threads"
  show "list_all (thread_trace demo_kill_config) ?ts"
    by (auto simp: list_all_iff exp3_run_traces_def exp3_others_def leader_kills_def follower_kills_def redeliveries_def
        intro: thread_trace.intros split: prod.split)
  show "interleaved ?ts (events_of demo_exp3_history)"
    using interleaved_concat [of ?ts] by (simp add: demo_exp3_history_def del: map_map)
  show "list_ex (is_op ''run_start'') (events_of demo_exp3_history)"
    unfolding demo_exp3_history_def events_of_map by simp
qed

text \<open>
  C18: the history is well typed.  However the threads of the bench and of the experiments interleave, every line of
  the history has the fields its readers look up without a default.  So neither \<open>analyze\<close> of
  \<open>exp1.py\<close> nor that of \<open>plot.py\<close> nor the latency figure of \<open>plot_exp3.py\<close> raises, and the timeline
  figure raises only on a history without a start line.
\<close>

theorem readers_never_raise:
  assumes "list_all (thread_trace cfg) ts" "interleaved ts (events_of h)"
  shows "typed_hist h \<and> (\<exists>st. exp1_analyze h = Inr st) \<and> (\<exists>st. plot_analyze np_percentile np_mean (events_of h) = Inr st) \<and>
     (\<exists>c. latency_cdf (events_of h) = Inr c) \<and>
     ((\<exists>t. task_state_timeline (events_of h) = Inr t) \<longleftrightarrow> list_ex (is_op ''run_start'') (events_of h))"
proof -
  have "list_all (list_all typed_event) ts"
    using assms(1) thread_trace_typed by (auto simp: list_all_iff)
  with assms(2) have typed: "typed_hist h" by (rule interleaved_typed)
  then have "list_all wf_event (events_of h)" using typed_wf by (auto simp: list_all_iff)
  from exp1_counts [OF this] have "\<exists>st. exp1_analyze h = Inr st" by blast
  moreover have "\<exists>acc. fold_res plot_line (events_of h) plot_acc_init = Inr acc"
    using typed by (intro fold_res_total plot_line_typed) (auto simp: list_all_iff)
  then obtain acc where "fold_res plot_line (events_of h) plot_acc_init = Inr acc" ..
  then have "\<exists>st. plot_analyze np_percentile np_mean (events_of h) = Inr st" by (simp add: plot_analyze_def Let_def del: bind_res_eq_Inr)
  moreover have "\<exists>obss. map_res obs_of (events_of h) = Inr obss"
    using typed by (intro map_res_total obs_of_typed) (auto simp: list_all_iff)
  then obtain obss where "map_res obs_of (events_of h) = Inr obss" ..
  then have "(\<exists>t. task_state_timeline (events_of h) = Inr t) \<longleftrightarrow> (\<exists>t. run_start_ns (events_of h) = Inr t)"
    by (simp add: task_state_timeline_def)
  ultimately show ?thesis using typed latency_cdf_total [OF typed] run_start_found [OF typed] by blast
qed

theorem readers_never_raise_witness:
  "typed_hist demo_exp3_history \<and> (\<exists>st. exp1_analyze demo_exp3_history = Inr st) \<and>
   (\<exists>t. task_state_timeline (events_of demo_exp3_history) = Inr t)"
  using readers_never_raise [OF demo_exp3_traced(1,2)] demo_exp3_traced(3) by blast

text \<open>
  The figures of a bench run.  Let the task threads of \<open>run_bench\<close> write in any interleaving between
  the start and the end line.  \<open>analyze\<close> of \<open>plot.py\<close> succeeds and counts exactly the tasks that ended in
  each outcome; the distribution has one latency per completed or failed task, and the bars of the
  throughput figure add up to the same number.
\<close>

theorem bench_run_figures:
  assumes "0 < rp_poll_interval_s params" "events_of h = stamp start_ns (event_of ''run_start'') # evs"
    and "interleaved (map (bench_trace cfg params) starts @ [[stamp end_ns (event_of ''run_end'')]]) evs"
  shows "\<exists>st. plot_analyze np_percentile np_mean (events_of h) = Inr st \<and>
     pl_completed_count st = length (with_outcome ''COMPLETED'' cfg params starts) \<and>
     pl_failed_count st = length (with_outcome ''FAILED'' cfg params starts) \<and>
     pl_timeout_count st = length (with_outcome ''TIMEOUT'' cfg params starts) \<and>
     length (pl_latencies_ms st) = pl_completed_count st + pl_failed_count st \<and>
     (case throughput_bars st of None \<Rightarrow> pl_latencies_ms st = []
      | Some bars \<Rightarrow> sum_list (map snd bars) = pl_completed_count st + pl_failed_count st)"
proof -
  note counts = bench_counts [OF assms(1,3)]
  have "e_wall_ns (stamp start_ns (event_of ''run_start'')) = Some start_ns" by (simp add: stamp_def)
  from plot_analyze_run [OF counts(4,3) _ this, of np_percentile np_mean] obtain st where
    st: "plot_analyze np_percentile np_mean (events_of h) = Inr st"
      "pl_completed_count st = length (filter (has_outcome ''COMPLETED'') evs)"
      "pl_failed_count st = length (filter (has_outcome ''FAILED'') evs)"
      "pl_timeout_count st = length (filter (has_outcome ''TIMEOUT'') evs)"
      "pl_latencies_ms st = map latency_ms (filter (is_op ''complete'') evs)"
    and bars: "distinct (map fst (pl_completions_by_sec st))"
      "fst ` set (pl_completions_by_sec st) = (\<lambda>ev. second_of start_ns (the (e_completed_ns ev))) ` {ev \<in> set evs. is_op ''complete'' ev}"
      "\<And>k. dget_default (pl_completions_by_sec st) k 0 =
        length (filter (\<lambda>ev. is_op ''complete'' ev \<and> second_of start_ns (the (e_completed_ns ev)) = k) evs)"
    by (auto simp: assms(2))
  have "case throughput_bars st of None \<Rightarrow> pl_latencies_ms st = []
      | Some bars \<Rightarrow> sum_list (map snd bars) = length (filter (is_op ''complete'') evs)"
  proof (cases "throughput_bars st")
    case None
    then have "{ev \<in> set evs. is_op ''complete'' ev} = {}" using bars(2) by (auto simp: throughput_bars_def Let_def split: if_splits)
    with None st(5) show ?thesis by (simp add: filter_empty_conv)
  next
    case (Some b)
    with bars_total [OF bars Some] show ?thesis by simp
  qed
  with st counts(1,2) show ?thesis by (intro exI [of _ st]) (auto split: option.splits)
qed

lemma demo_bench_outcome: "list_ex (has_outcome ''COMPLETED'') (bench_trace demo_bench_config demo_params demo_start)"
  by (simp add: bench_trace_def demo_start_def bench_thread_def submit_def issue_eq call_def Let_def
      now_ns_def record_event_eq demo_submit_services_def demo_params_def poll_to_completion_def now_def
      deadline_loop_unfold poll_body_eq poll_status_def demo_done_db_def row_status_def dget_default_def is_terminal_def
      secs_def tick_def has_outcome_def complete_event_def submit_event_def get_or_def)

theorem bench_run_figures_witness:
  "\<exists>st. plot_analyze (\<lambda>xs _. hd xs) hd (stamp 0 (event_of ''run_start'') # bench_trace demo_bench_config demo_params demo_start @
       [stamp 9 (event_of ''run_end'')]) = Inr st \<and> pl_completed_count st = 1"
proof -
  let ?evs = "concat (map (bench_trace demo_bench_config demo_params) [demo_start] @ [[stamp 9 (event_of ''run_end'')]])"
  let ?h = "map EventLine (stamp 0 (event_of ''run_start'') # ?evs)"
  have "0 < rp_poll_interval_s demo_params" "events_of ?h = stamp 0 (event_of ''run_start'') # ?evs"
    unfolding events_of_map by (simp_all add: demo_params_def)
  from bench_run_figures [OF this interleaved_concat, of "\<lambda>xs _. hd xs" hd] show ?thesis
    unfolding events_of_map by (auto simp: with_outcome_def demo_bench_outcome)
qed

end
