(* ===== verification/Py_Datetime.thy ===== *)
theory Py_Datetime
  imports Py_Strings
begin

text \<open>
  \<open>datetime\<close> of the Python library, as far as the sources use it: \<open>datetime.fromisoformat\<close> with the
  format its documentation gives,
  \<open>YYYY-MM-DD[*HH[:MM[:SS[.fff[fff]]]][+HH:MM[:SS[.ffffff]]]]\<close> (\<open>*\<close> is any one character), comparison
  and subtraction.  A \<open>datetime\<close> is the number of microseconds of its local time since the first of
  January of year 1, and its offset from UTC in microseconds, \<open>None\<close> when it is naive.
\<close>

section \<open>Calendar\<close>

definition is_leap :: "nat \<Rightarrow> bool" where
  "is_leap y \<longleftrightarrow> 4 dvd y \<and> (\<not> 100 dvd y \<or> 400 dvd y)"

definition month_lengths :: "nat \<Rightarrow> nat list" where
  "month_lengths y = [31, if is_leap y then 29 else 28, 31, 30, 31, 30, 31, 31, 30, 31, 30, 31]"

definition days_before_year :: "nat \<Rightarrow> nat" where
  "days_before_year y = (let k = y - 1 in k * 365 + k div 4 - k div 100 + k div 400)"

definition date_ok :: "nat \<Rightarrow> nat \<Rightarrow> nat \<Rightarrow> bool" where
  "date_ok y mo d \<longleftrightarrow> 1 \<le> y \<and> 1 \<le> mo \<and> mo \<le> 12 \<and> 1 \<le> d \<and> d \<le> month_lengths y ! (mo - 1)"

definition day_number :: "nat \<Rightarrow> nat \<Rightarrow> nat \<Rightarrow> nat" where
  "day_number y mo d = days_before_year y + sum_list (take (mo - 1) (month_lengths y)) + (d - 1)"

section \<open>Values\<close>

record py_datetime =
  dt_local :: int
  dt_offset :: "int option"

definition us_of :: "nat \<Rightarrow> nat \<Rightarrow> nat \<Rightarrow> nat \<Rightarrow> int" where
  "us_of h mi sec us = ((int h * 60 + int mi) * 60 + int sec) * 1000000 + int us"

definition dt_less :: "py_datetime \<Rightarrow> py_datetime \<Rightarrow> bool result" where
  "dt_less a b =
     (case (dt_offset a, dt_offset b) of
        (None, None) \<Rightarrow> Inr (dt_local a < dt_local b)
      | (Some x, Some y) \<Rightarrow> Inr (dt_local a - x < dt_local b - y)
      | _ \<Rightarrow> Inl TypeError)"

text \<open>\<open>a - b\<close>, as the microseconds of the \<open>timedelta\<close>.\<close>

definition dt_sub :: "py_datetime \<Rightarrow> py_datetime \<Rightarrow> int result" where
  "dt_sub a b =
     (case (dt_offset a, dt_offset b) of
        (None, None) \<Rightarrow> Inr (dt_local a - dt_local b)
      | (Some x, Some y) \<Rightarrow> Inr ((dt_local a - x) - (dt_local b - y))
      | _ \<Rightarrow> Inl TypeError)"

section \<open>fromisoformat\<close>

definition digits_of :: "py_str \<Rightarrow> nat option" where
  "digits_of s = (if list_all is_digit s then Some (nat_of_digits s) else None)"

text \<open>\<open>HH[:MM[:SS[.fff[fff]]]]\<close>, as hours, minutes, seconds and microseconds.\<close>

definition frac_of :: "py_str \<Rightarrow> nat option" where
  "frac_of s =
     (if length s = 3 then map_option (\<lambda>n. n * 1000) (digits_of s)
      else if length s = 6 then digits_of s else None)"

definition time_of :: "py_str \<Rightarrow> (nat \<times> nat \<times> nat \<times> nat) option" where
  "time_of s =
     (let sep = (\<lambda>i c. i < length s \<and> s ! i = c); part = (\<lambda>i. digits_of (take 2 (drop i s)));
          mk = (\<lambda>h mi sec us. case (h, mi, sec, us) of
             (Some h, Some mi, Some sec, Some us) \<Rightarrow> Some (h, mi, sec, us) | _ \<Rightarrow> None)
      in if length s = 2 then mk (part 0) (Some 0) (Some 0) (Some 0)
         else if length s = 5 \<and> sep 2 CHR '':'' then mk (part 0) (part 3) (Some 0) (Some 0)
         else if length s = 8 \<and> sep 2 CHR '':'' \<and> sep 5 CHR '':'' then mk (part 0) (part 3) (part 6) (Some 0)
         else if sep 2 CHR '':'' \<and> sep 5 CHR '':'' \<and> sep 8 CHR ''.'' then mk (part 0) (part 3) (part 6) (frac_of (drop 9 s))
         else None)"

definition offset_of :: "py_str \<Rightarrow> int option" where
  "offset_of s =
     (case s of
        [] \<Rightarrow> None
      | c # t \<Rightarrow>
          if length t < 5 then None
          else (case time_of t of
                  None \<Rightarrow> None
                | Some (h, mi, sec, us) \<Rightarrow>
                    if h < 24 \<and> mi < 60 \<and> sec < 60 then Some (if c = CHR ''-'' then - us_of h mi sec us else us_of h mi sec us)
                    else None))"

definition datetime_of ::
  "nat option \<times> nat option \<times> nat option \<Rightarrow> (nat \<times> nat \<times> nat \<times> nat) option \<Rightarrow> int option option \<Rightarrow> py_datetime result" where
  "datetime_of date time off =
     (case (date, time, off) of
        ((Some y, Some mo, Some d), Some (h, mi, sec, us), Some z) \<Rightarrow>
          if date_ok y mo d \<and> h < 24 \<and> mi < 60 \<and> sec < 60
          then Inr \<lparr>dt_local = int (day_number y mo d) * 86400000000 + us_of h mi sec us, dt_offset = z\<rparr>
          else Inl ValueError
      | _ \<Rightarrow> Inl ValueError)"

text \<open>The offset starts at the first sign of the time part.\<close>

definition fromisoformat :: "py_str \<Rightarrow> py_datetime result" where
  "fromisoformat s =
     (let tstr = drop 11 s;
          tz = dropWhile (\<lambda>c. c \<noteq> CHR ''+'' \<and> c \<noteq> CHR ''-'') tstr
      in if length s < 10 \<or> s ! 4 \<noteq> CHR ''-'' \<or> s ! 7 \<noteq> CHR ''-'' then Inl ValueError
         else datetime_of (digits_of (take 4 s), digits_of (take 2 (drop 5 s)), digits_of (take 2 (drop 8 s)))
           (if length s = 10 then Some (0, 0, 0, 0)
            else time_of (takeWhile (\<lambda>c. c \<noteq> CHR ''+'' \<and> c \<noteq> CHR ''-'') tstr))
           (if tz = [] then Some None else map_option Some (offset_of tz)))"

section \<open>Printing\<close>

text \<open>A number in decimal with at least \<open>k\<close> digits, and the format \<open>%Y-%m-%dT%H:%M:%S\<close>.\<close>

definition pad :: "nat \<Rightarrow> nat \<Rightarrow> py_str" where
  "pad k n = replicate (k - length (dec_nat n)) CHR ''0'' @ dec_nat n"

record civil =
  c_year :: nat
  c_month :: nat
  c_day :: nat
  c_hour :: nat
  c_min :: nat
  c_sec :: nat

definition civil_ok :: "civil \<Rightarrow> bool" where
  "civil_ok c \<longleftrightarrow> date_ok (c_year c) (c_month c) (c_day c) \<and> c_year c < 10000 \<and> c_hour c < 24 \<and> c_min c < 60 \<and> c_sec c < 60"

definition isoformat :: "civil \<Rightarrow> py_str" where
  "isoformat c =
     pad 4 (c_year c) @ ''-'' @ pad 2 (c_month c) @ ''-'' @ pad 2 (c_day c) @ ''T'' @
     pad 2 (c_hour c) @ '':'' @ pad 2 (c_min c) @ '':'' @ pad 2 (c_sec c)"

text \<open>The seconds since the start of the calendar.\<close>

definition civil_secs :: "civil \<Rightarrow> int" where
  "civil_secs c = int (day_number (c_year c) (c_month c) (c_day c)) * 86400 + (int (c_hour c) * 60 + int (c_min c)) * 60 + int (c_sec c)"

section \<open>Reading back what was printed\<close>

lemma nat_of_digits_append:
  "nat_of_digits (s @ t) = nat_of_digits s * 10 ^ length t + nat_of_digits t"
proof (induction t rule: rev_induct)
  case (snoc c t)
  then show ?case by (simp add: append_assoc [symmetric] algebra_simps del: append_assoc)
qed (simp add: nat_of_digits_def)

lemma nat_of_digits_zeros [simp]: "nat_of_digits (replicate k CHR ''0'') = 0"
  by (induction k) (simp_all add: nat_of_digits_def digit_val_def)

lemma nat_of_digits_pad [simp]: "nat_of_digits (pad k n) = n"
  by (simp add: pad_def nat_of_digits_append)

lemma dec_nat_length: "0 < k \<Longrightarrow> n < 10 ^ k \<Longrightarrow> length (dec_nat n) \<le> k"
proof (induction k arbitrary: n)
  case (Suc k)
  show ?case
  proof (cases "n < 10")
    case True
    then show ?thesis by (simp add: dec_nat.simps [of n])
  next
    case False
    then have "0 < k" using Suc.prems by (cases k) auto
    moreover have "n div 10 < 10 ^ k" using Suc.prems by (simp add: less_mult_imp_div_less)
    ultimately have "length (dec_nat (n div 10)) \<le> k" by (rule Suc.IH)
    with False show ?thesis by (simp add: dec_nat.simps [of n])
  qed
qed simp

lemma length_pad: "0 < k \<Longrightarrow> n < 10 ^ k \<Longrightarrow> length (pad k n) = k"
  using dec_nat_length [of k n] by (simp add: pad_def)

lemma pad_digits: "c \<in> set (pad k n) \<Longrightarrow> is_digit c"
  using dec_nat_digits by (auto simp: pad_def is_digit_def)

lemma digits_of_pad [simp]: "digits_of (pad k n) = Some n"
  using pad_digits by (auto simp: digits_of_def list_all_iff)

lemma time_of_hms:
  assumes "h < 100" "mi < 100" "sec < 100"
  shows "time_of (pad 2 h @ CHR '':'' # pad 2 mi @ CHR '':'' # pad 2 sec) = Some (h, mi, sec, 0)"
    and "length f = 6 \<Longrightarrow> time_of (pad 2 h @ CHR '':'' # pad 2 mi @ CHR '':'' # pad 2 sec @ CHR ''.'' # f) =
      map_option (\<lambda>us. (h, mi, sec, us)) (digits_of f)"
  using assms length_pad [of 2]
  by (auto simp: time_of_def Let_def nth_append frac_of_def split: option.split)

lemma time_chars:
  "c \<in> set (pad 2 h @ CHR '':'' # pad 2 mi @ CHR '':'' # pad 2 sec) \<Longrightarrow> c \<noteq> CHR ''+'' \<and> c \<noteq> CHR ''-''"
  using pad_digits [of c] by (auto simp: is_digit_def)

text \<open>
  The time part after the printed seconds: nothing, or a fraction of six digits; then an optional offset.
\<close>

lemma fromisoformat_isoformat:
  assumes c: "civil_ok c" and fr: "fr = [] \<or> (\<exists>f. fr = CHR ''.'' # f \<and> length f = 6 \<and> list_all is_digit f)"
    and tz: "tz = [] \<or> hd tz = CHR ''+'' \<or> hd tz = CHR ''-''"
  shows "fromisoformat (isoformat c @ fr @ tz) =
     (case if tz = [] then Some None else map_option Some (offset_of tz) of
        None \<Rightarrow> Inl ValueError
      | Some z \<Rightarrow> Inr \<lparr>dt_local = civil_secs c * 1000000 + int (nat_of_digits (drop 1 fr)), dt_offset = z\<rparr>)"
proof -
  have lens: "length (pad 4 (c_year c)) = 4" "length (pad 2 (c_month c)) = 2" "length (pad 2 (c_day c)) = 2"
    using c length_pad [of 4 "c_year c"] length_pad [of 2 "c_month c"] length_pad [of 2 "c_day c"]
    by (auto simp: civil_ok_def date_ok_def month_lengths_def less_Suc_eq nth_Cons' split: if_splits)
  have small: "c_hour c < 100" "c_min c < 100" "c_sec c < 100" using c by (auto simp: civil_ok_def)
  let ?hms = "pad 2 (c_hour c) @ CHR '':'' # pad 2 (c_min c) @ CHR '':'' # pad 2 (c_sec c)"
  let ?date = "pad 4 (c_year c) @ CHR ''-'' # pad 2 (c_month c) @ CHR ''-'' # pad 2 (c_day c)"
  have s: "isoformat c @ fr @ tz = ?date @ CHR ''T'' # (?hms @ fr) @ tz" by (simp add: isoformat_def)
  have plain: "\<forall>x \<in> set (?hms @ fr). x \<noteq> CHR ''+'' \<and> x \<noteq> CHR ''-''"
    using time_chars fr by (fastforce simp: list_all_iff is_digit_def)
  have tw: "takeWhile (\<lambda>c. c \<noteq> CHR ''+'' \<and> c \<noteq> CHR ''-'') ((?hms @ fr) @ tz) = ?hms @ fr"
    "dropWhile (\<lambda>c. c \<noteq> CHR ''+'' \<and> c \<noteq> CHR ''-'') ((?hms @ fr) @ tz) = tz"
    using plain tz by (cases tz; simp only: takeWhile_append2 dropWhile_append2; auto)+
  have time: "time_of (?hms @ fr) = Some (c_hour c, c_min c, c_sec c, nat_of_digits (drop 1 fr))"
    using fr time_of_hms [OF small] by (auto simp: digits_of_def nat_of_digits_def)
  have date: "take 4 (?date @ x) = pad 4 (c_year c)" "take 2 (drop 5 (?date @ x)) = pad 2 (c_month c)"
    "take 2 (drop 8 (?date @ x)) = pad 2 (c_day c)" "(?date @ x) ! 4 = CHR ''-''" "(?date @ x) ! 7 = CHR ''-''"
    "drop 11 (?date @ CHR ''T'' # x) = x" "length (?date @ CHR ''T'' # x) = 11 + length x" for x
    by (simp_all add: lens nth_append)
  show ?thesis
    unfolding fromisoformat_def s date Let_def tw time
    using c by (simp add: datetime_of_def civil_ok_def civil_secs_def us_of_def algebra_simps split: option.split)
qed

lemma offset_of_utc [simp]: "offset_of ''+00:00'' = Some 0"
  by (simp add: offset_of_def time_of_def digits_of_def is_digit_def nat_of_digits_def digit_val_def us_of_def)

end
