(* ===== verification/Collect.thy ===== *)
theory Collect
  imports Py_Datetime Stats Raft_Client World
begin

text \<open>
  \<open>experiments/metrics-collector/collect.py\<close>: timestamps, assignment latencies and their percentiles,
  replication lag, and the CSV row of a run.  The pages of the table scan, the answers of the
  coordinators and the time of collection are parameters.  A CSV file is modelled by the fields of its
  lines, the first line being the header; a field holds a string or a number.
\<close>

section \<open>Timestamps\<close>

definition replace_Z :: "py_str \<Rightarrow> py_str" where
  "replace_Z s = concat (map (\<lambda>c. if c = CHR ''Z'' then ''+00:00'' else [c]) s)"

definition ljust0 :: "nat \<Rightarrow> py_str \<Rightarrow> py_str" where
  "ljust0 k s = s @ replicate (k - length s) CHR ''0''"

text \<open>\<open>rest[-6]\<close> raises \<open>IndexError\<close> when fewer than six characters follow the point.\<close>

definition parse_ts :: "py_str \<Rightarrow> py_datetime result" where
  "parse_ts s0 =
     (let s = replace_Z s0
      in if CHR ''.'' \<notin> set s then fromisoformat s
         else
           let base = takeWhile (\<lambda>c. c \<noteq> CHR ''.'') s;
               rest = drop 1 (dropWhile (\<lambda>c. c \<noteq> CHR ''.'') s);
               n = length rest - 6
           in if length rest < 6 then Inl IndexError
              else
                let signed = (rest ! n = CHR ''+'' \<or> rest ! n = CHR ''-'');
                    tz = (if signed then drop n rest else ''+00:00'');
                    fr = ljust0 6 (take 6 (if signed then take n rest else rest))
                in fromisoformat (base @ ''.'' @ fr @ tz))"

section \<open>Latencies\<close>

text \<open>The attributes the scan reads; \<open>None\<close> stands for an attribute without a string value.\<close>

record lat_item =
  it_created_at :: "py_str option"
  it_dispatched_at :: "py_str option"

definition key_or :: "py_str \<Rightarrow> 'a option \<Rightarrow> 'a result" where
  "key_or k v = (case v of None \<Rightarrow> Inl (KeyError k) | Some x \<Rightarrow> Inr x)"

text \<open>The body of the \<open>try\<close> statement: the latency in milliseconds, if the row counts.\<close>

definition latency_of :: "py_datetime option \<Rightarrow> py_datetime option \<Rightarrow> lat_item \<Rightarrow> real option result" where
  "latency_of since_dt until_dt item =
     bind_res (bind_res (key_or ''created_at'' (it_created_at item)) parse_ts) (\<lambda>t0.
     bind_res (bind_res (key_or ''dispatched_at'' (it_dispatched_at item)) parse_ts) (\<lambda>t1.
     bind_res (case since_dt of None \<Rightarrow> Inr False | Some d \<Rightarrow> dt_less t0 d) (\<lambda>early.
     if early then Inr None
     else bind_res (case until_dt of None \<Rightarrow> Inr False | Some d \<Rightarrow> dt_less d t0) (\<lambda>late.
     if late then Inr None
     else bind_res (dt_sub t1 t0) (\<lambda>us.
       let ms = real_of_int us / 1000 in Inr (if 0 \<le> ms then Some ms else None))))))"

definition caught :: "py_error \<Rightarrow> bool" where
  "caught e \<longleftrightarrow> e = ValueError \<or> (\<exists>k. e = KeyError k)"

definition add_latency :: "py_datetime option \<Rightarrow> py_datetime option \<Rightarrow> lat_item \<Rightarrow> real list \<Rightarrow> real list result" where
  "add_latency since_dt until_dt item latencies =
     (case latency_of since_dt until_dt item of
        Inl e \<Rightarrow> if caught e then Inr latencies else Inl e
      | Inr None \<Rightarrow> Inr latencies
      | Inr (Some ms) \<Rightarrow> Inr (latencies @ [ms]))"

definition collect_latencies ::
  "lat_item list result list \<Rightarrow> py_datetime option \<Rightarrow> py_datetime option \<Rightarrow> real list result" where
  "collect_latencies pages since_dt until_dt =
     bind_res (fold_res (\<lambda>page acc. bind_res page (\<lambda>items. fold_res (add_latency since_dt until_dt) items acc)) pages [])
       (\<lambda>latencies. Inr (sort latencies))"

definition collect_pct :: "real list \<Rightarrow> real \<Rightarrow> real" where
  "collect_pct data p = (if data = [] then 0 else data ! nat (trunc_index p (length data)))"

section \<open>Replication lag\<close>

text \<open>
  What a request gives: an exception (no connection, timeout, no JSON), or a document together with
  whether the status code is below 400.
\<close>

datatype lag_answer = LagError | LagDoc bool state_doc

definition rstrip_slash :: "py_str \<Rightarrow> py_str" where
  "rstrip_slash s = rev (dropWhile (\<lambda>c. c = CHR ''/'') (rev s))"

definition doc_lags :: "state_doc \<Rightarrow> (py_str, int) pydict" where
  "doc_lags doc = map (\<lambda>(peer, mi). (peer, get_or (d_commit_index doc) 0 - mi)) (get_or (d_match_index doc) [])"

definition collect_replication_lag ::
  "(nat \<Rightarrow> py_str \<Rightarrow> lag_answer) \<Rightarrow> py_str \<Rightarrow> world \<Rightarrow> (py_str, int) pydict \<times> world" where
  "collect_replication_lag http coordinator_url w =
     (if coordinator_url = [] then ([], w)
      else
        let (ans, w1) = call (\<lambda>k. http k (rstrip_slash coordinator_url @ ''/state'')) w
        in (case ans of
              LagError \<Rightarrow> []
            | LagDoc ok doc \<Rightarrow> if \<not> ok then [] else if d_state doc \<noteq> Some ''leader'' then [] else doc_lags doc, w1))"

fun find_leader_lag :: "(nat \<Rightarrow> py_str \<Rightarrow> lag_answer) \<Rightarrow> py_str list \<Rightarrow> world \<Rightarrow> (py_str, int) pydict \<times> world" where
  "find_leader_lag http [] w = ([], w)"
| "find_leader_lag http (addr # addrs) w =
     (let (lag, w1) = collect_replication_lag http addr w
      in if lag \<noteq> [] then (lag, w1)
         else
           let (ans, w2) = call (\<lambda>k. http k (rstrip_slash addr @ ''/state'')) w1
           in case ans of
                LagError \<Rightarrow> find_leader_lag http addrs w2
              | LagDoc ok doc \<Rightarrow> if d_state doc = Some ''leader'' then ([], w2) else find_leader_lag http addrs w2)"

section \<open>The row of a run and the CSV file\<close>

datatype cell = CStr py_str | CNum real

type_synonym csv_file = "cell list list"

text \<open>\<open>round(x, 2)\<close>\<close>

definition round2 :: "real \<Rightarrow> real" where
  "round2 x = real_of_int (py_round (x * 100)) / 100"

record collect_args =
  ca_label :: py_str
  ca_coordinator :: py_str
  ca_submitted :: int
  ca_failed :: int
  ca_actual_rate :: real
  ca_since :: "py_str option"
  ca_until :: "py_str option"

definition fixed_columns :: "py_str list" where
  "fixed_columns = [''label'', ''n'', ''p50_ms'', ''p95_ms'', ''p99_ms'', ''max_ms'', ''min_ms'', ''submitted'', ''failed'',
     ''actual_rate_tpm'', ''collected_at'']"

definition fixed_cells :: "collect_args \<Rightarrow> real list \<Rightarrow> py_str \<Rightarrow> cell list" where
  "fixed_cells args latencies collected_at =
     [CStr (ca_label args), CNum (real (length latencies)), CNum (round2 (collect_pct latencies 50)),
      CNum (round2 (collect_pct latencies 95)), CNum (round2 (collect_pct latencies 99)),
      CNum (round2 (fold max latencies (hd latencies))), CNum (round2 (fold min latencies (hd latencies))),
      CNum (real_of_int (ca_submitted args)), CNum (real_of_int (ca_failed args)), CNum (round2 (ca_actual_rate args)),
      CStr collected_at]"

definition lag_columns :: "(py_str, int) pydict \<Rightarrow> (py_str, cell) pydict" where
  "lag_columns lag_map = map (\<lambda>(peer, lag). (''rep_lag_'' @ peer, CNum (real_of_int lag))) (sort_key fst lag_map)"

definition result_row :: "collect_args \<Rightarrow> real list \<Rightarrow> py_str \<Rightarrow> (py_str, int) pydict \<Rightarrow> (py_str, cell) pydict" where
  "result_row args latencies collected_at lag_map =
     zip fixed_columns (fixed_cells args latencies collected_at) @ lag_columns lag_map"

text \<open>The header is written when the file is missing or empty.\<close>

definition write_row :: "csv_file \<Rightarrow> (py_str, cell) pydict \<Rightarrow> csv_file" where
  "write_row file row = file @ (if file = [] then [map (CStr \<circ> fst) row] else []) @ [map snd row]"

definition nonempty_parts :: "py_str \<Rightarrow> py_str list" where
  "nonempty_parts s = filter (\<lambda>a. a \<noteq> []) (map strip (split_on CHR '','' s))"

text \<open>
  \<open>main\<close> with an output file: the new contents, unchanged when no row counts, or the exception that
  ends the program.
\<close>

definition opt_ts :: "py_str option \<Rightarrow> py_datetime option result" where
  "opt_ts s = (case s of None \<Rightarrow> Inr None | Some t \<Rightarrow> if t = [] then Inr None else bind_res (parse_ts t) (\<lambda>d. Inr (Some d)))"

definition collect_main ::
  "lat_item list result list \<Rightarrow> (nat \<Rightarrow> py_str \<Rightarrow> lag_answer) \<Rightarrow> py_str \<Rightarrow> collect_args \<Rightarrow> csv_file \<Rightarrow> world \<Rightarrow> csv_file result" where
  "collect_main pages http collected_at args file w =
     bind_res (opt_ts (ca_since args)) (\<lambda>since_dt.
     bind_res (opt_ts (ca_until args)) (\<lambda>until_dt.
     bind_res (collect_latencies pages since_dt until_dt) (\<lambda>latencies.
       if latencies = [] then Inr file
       else
         let addrs = nonempty_parts (ca_coordinator args);
             lag_map = (if addrs = [] then [] else fst (find_leader_lag http addrs w))
         in Inr (write_row file (result_row args latencies collected_at lag_map)))))"

text \<open>\<open>csv.DictReader\<close>: every line with the names of the header; names without a field are \<open>None\<close> there.\<close>

definition dict_reader :: "csv_file \<Rightarrow> (py_str, cell) pydict list" where
  "dict_reader file =
     (case file of
        [] \<Rightarrow> []
      | header # lines \<Rightarrow> map (zip (map (\<lambda>c. case c of CStr s \<Rightarrow> s | CNum x \<Rightarrow> []) header)) lines)"

section \<open>Lemmas on timestamps\<close>

lemma replace_Z_id: "CHR ''Z'' \<notin> set s \<Longrightarrow> replace_Z s = s"
  by (induction s) (auto simp: replace_Z_def)

lemma replace_Z_Cons: "replace_Z (c # s) = (if c = CHR ''Z'' then ''+00:00'' else [c]) @ replace_Z s"
  by (simp add: replace_Z_def)

lemma replace_Z_append: "replace_Z (s @ t) = replace_Z s @ replace_Z t"
  by (simp add: replace_Z_def)

lemma isoformat_chars: "c \<in> set (isoformat x) \<Longrightarrow> is_digit c \<or> c \<in> {CHR ''-'', CHR ''T'', CHR '':''}"
  by (auto simp: isoformat_def dest: pad_digits)

lemma isoformat_plain: "CHR ''Z'' \<notin> set (isoformat x)" "CHR ''.'' \<notin> set (isoformat x)"
  by (auto simp: is_digit_def dest!: isoformat_chars)

lemma digits_plain:
  "list_all is_digit f \<Longrightarrow> CHR ''Z'' \<notin> set f" "list_all is_digit f \<Longrightarrow> CHR ''+'' \<notin> set f" "list_all is_digit f \<Longrightarrow> CHR ''-'' \<notin> set f"
  by (auto simp: list_all_iff is_digit_def)

definition utc :: "civil \<Rightarrow> nat \<Rightarrow> py_datetime" where
  "utc c us = \<lparr>dt_local = civil_secs c * 1000000 + int us, dt_offset = Some 0\<rparr>"

lemma parse_ts_seconds: "civil_ok c \<Longrightarrow> parse_ts (isoformat c @ ''Z'') = Inr (utc c 0)"
  using fromisoformat_isoformat [of c "[]" "''+00:00''"]
  by (simp add: parse_ts_def Let_def replace_Z_append replace_Z_id isoformat_plain utc_def nat_of_digits_def)
    (simp add: replace_Z_def isoformat_plain)

lemma list_all_ljust0: "list_all is_digit f \<Longrightarrow> list_all is_digit (ljust0 6 (take 6 f))" "length (ljust0 6 (take 6 f)) = 6"
  by (auto simp: ljust0_def list_all_iff is_digit_def dest: in_set_takeD)

text \<open>A point in the timestamp: the text after it decides.\<close>

lemma parse_ts_point:
  assumes "list_all is_digit f" "tail \<in> {[], ''Z''}"
  shows "parse_ts (isoformat c @ ''.'' @ f @ tail) =
     (if length f + length (replace_Z tail) < 6 then Inl IndexError
      else fromisoformat (isoformat c @ (CHR ''.'' # ljust0 6 (take 6 f)) @ ''+00:00''))"
proof -
  let ?s = "isoformat c @ CHR ''.'' # f @ replace_Z tail"
  have s: "replace_Z (isoformat c @ ''.'' @ f @ tail) = ?s"
    using assms(1) by (simp add: replace_Z_append replace_Z_Cons replace_Z_id isoformat_plain digits_plain)
  have base: "takeWhile (\<lambda>c. c \<noteq> CHR ''.'') ?s = isoformat c" "dropWhile (\<lambda>c. c \<noteq> CHR ''.'') ?s = CHR ''.'' # f @ replace_Z tail"
    using isoformat_plain(2) [of c] by (subst takeWhile_append2 dropWhile_append2; auto)+
  have "f ! k \<noteq> CHR ''+'' \<and> f ! k \<noteq> CHR ''-''" if "k < length f" for k
    using assms(1) that digits_plain nth_mem by metis
  moreover have "take (min 6 (length f)) f = take 6 f" by (simp add: min_def)
  ultimately show ?thesis
    using assms(2) unfolding parse_ts_def s Let_def base by (auto simp: replace_Z_def nth_append)
qed

text \<open>The first six digits of a fraction are its microseconds, rounded down.\<close>

lemma nat_of_digits_less: "list_all is_digit s \<Longrightarrow> nat_of_digits s < 10 ^ length s"
proof (induction s rule: rev_induct)
  case (snoc c s)
  then have "digit_val c < 10" "nat_of_digits s < 10 ^ length s" by (auto simp: is_digit_def digit_val_def)
  then show ?case by simp
qed (simp add: nat_of_digits_def)

lemma micros_of_fraction:
  assumes "list_all is_digit f"
  shows "nat_of_digits (ljust0 6 (take 6 f)) = nat_of_digits f * 10 ^ 6 div 10 ^ length f"
proof (cases "length f \<le> 6")
  case True
  then have "(10 :: nat) ^ 6 = 10 ^ (6 - length f) * 10 ^ length f" by (simp flip: power_add)
  then have "nat_of_digits f * 10 ^ 6 div 10 ^ length f = nat_of_digits f * 10 ^ (6 - length f)"
    unfolding \<open>10 ^ 6 = _\<close> by (simp flip: mult.assoc)
  with True show ?thesis by (simp add: ljust0_def nat_of_digits_append)
next
  case False
  let ?a = "take 6 f" and ?b = "drop 6 f"
  have len: "length f = 6 + length ?b" using False by simp
  have "nat_of_digits f = nat_of_digits ?a * 10 ^ length ?b + nat_of_digits ?b"
    using nat_of_digits_append [of ?a ?b] by simp
  moreover have "nat_of_digits ?b < 10 ^ length ?b"
    using assms by (intro nat_of_digits_less) (auto simp: list_all_iff dest: in_set_dropD)
  ultimately have "nat_of_digits f div 10 ^ length ?b = nat_of_digits ?a" by simp
  moreover have "nat_of_digits f * 10 ^ 6 div 10 ^ length f = nat_of_digits f div 10 ^ length ?b"
    unfolding len power_add by (simp add: mult.commute [of "nat_of_digits f"])
  moreover have "ljust0 6 ?a = ?a" using False by (simp add: ljust0_def)
  ultimately show ?thesis by simp
qed

lemma parse_ts_fraction:
  assumes "civil_ok c" "list_all is_digit f" "f \<noteq> []"
  shows "parse_ts (isoformat c @ ''.'' @ f @ ''Z'') = Inr (utc c (nat_of_digits f * 10 ^ 6 div 10 ^ length f))"
proof -
  have "parse_ts (isoformat c @ ''.'' @ f @ ''Z'') = fromisoformat (isoformat c @ (CHR ''.'' # ljust0 6 (take 6 f)) @ ''+00:00'')"
    using parse_ts_point [OF assms(2), of "''Z''"] assms(3) by (cases f) (simp_all add: replace_Z_def)
  also have "\<dots> = Inr (utc c (nat_of_digits (ljust0 6 (take 6 f))))"
    using fromisoformat_isoformat [OF assms(1), of "CHR ''.'' # ljust0 6 (take 6 f)" "''+00:00''"] list_all_ljust0(1) [OF assms(2)]
    by (simp add: list_all_ljust0(2) utc_def)
  finally show ?thesis by (simp only: micros_of_fraction [OF assms(2)])
qed

section \<open>Lemmas on latencies and rows\<close>

text \<open>The rows the programs store: both times in RFC 3339 with seconds.\<close>

definition stored_row :: "civil \<times> civil \<Rightarrow> lat_item" where
  "stored_row p = \<lparr>it_created_at = Some (isoformat (fst p) @ ''Z''), it_dispatched_at = Some (isoformat (snd p) @ ''Z'')\<rparr>"

definition in_window :: "civil option \<Rightarrow> civil option \<Rightarrow> civil \<times> civil \<Rightarrow> bool" where
  "in_window since_c until_c p \<longleftrightarrow>
     (case since_c of None \<Rightarrow> True | Some c \<Rightarrow> civil_secs c \<le> civil_secs (fst p)) \<and>
     (case until_c of None \<Rightarrow> True | Some c \<Rightarrow> civil_secs (fst p) \<le> civil_secs c) \<and>
     civil_secs (fst p) \<le> civil_secs (snd p)"

definition whole_ms :: "civil \<times> civil \<Rightarrow> real" where
  "whole_ms p = 1000 * real_of_int (civil_secs (snd p) - civil_secs (fst p))"

lemma latency_of_stored:
  assumes "civil_ok (fst p)" "civil_ok (snd p)"
  shows "latency_of (map_option (\<lambda>c. utc c 0) since_c) (map_option (\<lambda>c. utc c 0) until_c) (stored_row p) =
     Inr (if in_window since_c until_c p then Some (whole_ms p) else None)"
proof -
  have less: "dt_less (utc c 0) (utc d 0) = Inr (civil_secs c < civil_secs d)"
    and sub: "dt_sub (utc c 0) (utc d 0) = Inr (1000000 * (civil_secs c - civil_secs d))" for c d
    by (simp_all add: dt_less_def dt_sub_def utc_def algebra_simps)
  show ?thesis
    unfolding latency_of_def stored_row_def
    by (cases since_c; cases until_c)
      (simp_all add: key_or_def parse_ts_seconds [OF assms(1)] parse_ts_seconds [OF assms(2)] less sub in_window_def whole_ms_def Let_def)
qed

lemma fold_latencies:
  assumes "list_all (\<lambda>p. civil_ok (fst p) \<and> civil_ok (snd p)) ps"
  shows "fold_res (add_latency (map_option (\<lambda>c. utc c 0) since_c) (map_option (\<lambda>c. utc c 0) until_c)) (map stored_row ps) acc =
     Inr (acc @ map whole_ms (filter (in_window since_c until_c) ps))"
  using assms by (induction ps arbitrary: acc) (auto simp: add_latency_def latency_of_stored)

lemma round2_mono: "x \<le> y \<Longrightarrow> round2 x \<le> round2 y"
  by (simp add: round2_def py_round_mono divide_right_mono)

lemma collect_pct_order:
  assumes "xs \<noteq> []" "sorted xs" "p \<le> q"
  shows "collect_pct xs p \<le> collect_pct xs q"
  using assms truncation.percentile_mono [OF assms(1,3)] by (simp add: collect_pct_def sorted_sort_id)

lemma collect_pct_mem: "xs \<noteq> [] \<Longrightarrow> sorted xs \<Longrightarrow> collect_pct xs p \<in> set xs"
  using truncation.percentile_mem [of xs p] by (simp add: collect_pct_def sorted_sort_id)

lemma distinct_fixed_columns: "distinct fixed_columns" "''rep_lag_'' @ peer \<notin> set fixed_columns"
  by (simp_all add: fixed_columns_def)

lemma map_of_zip_at: "distinct xs \<Longrightarrow> i < length xs \<Longrightarrow> i < length ys \<Longrightarrow> map_of (zip xs ys) (xs ! i) = Some (ys ! i)"
proof (induction xs arbitrary: ys i)
  case (Cons x xs)
  then show ?case by (cases ys; cases i) auto
qed simp

text \<open>What reading the file gives: every row under the names of the first.\<close>

lemma foldl_write_row: "lines \<noteq> [] \<Longrightarrow> foldl write_row lines rows = lines @ map (map snd) rows"
  by (induction rows arbitrary: lines) (auto simp: write_row_def)

lemma read_rows: "rows \<noteq> [] \<Longrightarrow> dict_reader (foldl write_row [] rows) = map (\<lambda>r. zip (map fst (hd rows)) (map snd r)) rows"
proof (cases rows)
  case (Cons row rows')
  have "dict_reader ([map (CStr \<circ> fst) row, map snd row] @ map (map snd) rows') = map (\<lambda>r. zip (map fst row) (map snd r)) (row # rows')"
    by (simp add: dict_reader_def comp_def)
  then show ?thesis by (simp add: Cons foldl_write_row write_row_def)
qed simp

lemma length_fixed: "length fixed_columns = 11" "length (fixed_cells args lat tm) = 11"
  by (simp_all add: fixed_columns_def fixed_cells_def)

lemma row_names:
  "map fst (result_row args lat tm lags) = fixed_columns @ map (\<lambda>p. ''rep_lag_'' @ fst p) (sort_key fst lags)"
  "map snd (result_row args lat tm lags) = fixed_cells args lat tm @ map (\<lambda>p. CNum (real_of_int (snd p))) (sort_key fst lags)"
  by (simp_all add: result_row_def lag_columns_def length_fixed case_prod_beta comp_def)

lemma distinct_row_names:
  "distinct (map fst lags) \<Longrightarrow> distinct (fixed_columns @ map (\<lambda>p. ''rep_lag_'' @ fst p) (sort_key fst lags))"
  using distinct_fixed_columns
  by (auto simp: distinct_map inj_on_def dest: sym)

text \<open>Reading the rows of several runs back: row \<open>i\<close> under the names of the first.\<close>

lemma rows_read_back:
  assumes "i < length runs"
  shows "dict_reader (foldl write_row [] (map (\<lambda>(args, lat, tm, lags). result_row args lat tm lags) runs)) ! i =
    (case (runs ! 0, runs ! i) of ((a0, l0, t0, g0), (a, l, t, g)) \<Rightarrow> zip (map fst (result_row a0 l0 t0 g0)) (map snd (result_row a l t g)))"
proof -
  have "runs \<noteq> []" using assms by auto
  with assms show ?thesis by (simp add: read_rows hd_map hd_conv_nth split: prod.split)
qed

lemma row_column:
  assumes "distinct (map fst g0)" "j < 11 + length g0" "j < 11 + length g"
  shows "dget (zip (map fst (result_row a0 l0 t0 g0)) (map snd (result_row a l t g))) (map fst (result_row a0 l0 t0 g0) ! j) =
    Some (map snd (result_row a l t g) ! j)"
  using distinct_row_names [OF assms(1)] assms(2,3) by (intro map_of_zip_at) (simp_all add: row_names length_fixed)

lemma csv_columns_read_back:
  assumes "i < length runs" "list_all (\<lambda>(args, lat, tm, lags). distinct (map fst lags)) runs" "c \<in> set fixed_columns"
  shows "dget (dict_reader (foldl write_row [] (map (\<lambda>(args, lat, tm, lags). result_row args lat tm lags) runs)) ! i) c =
    dget ((\<lambda>(args, lat, tm, lags). result_row args lat tm lags) (runs ! i)) c"
proof -
  obtain a0 l0 t0 g0 where r0: "runs ! 0 = (a0, l0, t0, g0)" by (metis prod.exhaust)
  obtain a l t g where ri: "runs ! i = (a, l, t, g)" by (metis prod.exhaust)
  have "0 < length runs" using assms(1) by linarith
  then have "runs ! 0 \<in> set runs" by simp
  with assms(2) r0 have g0: "distinct (map fst g0)" by (auto simp: list_all_iff)
  from assms(3) obtain j where j: "j < 11" "c = fixed_columns ! j" by (metis in_set_conv_nth length_fixed(1))
  have "dget (zip (map fst (result_row a0 l0 t0 g0)) (map snd (result_row a l t g))) c = Some (fixed_cells a l t ! j)"
    using row_column [OF g0, of j g] j by (simp add: row_names nth_append length_fixed)
  moreover have "dget (result_row a l t g) c = Some (fixed_cells a l t ! j)"
    using map_of_zip_at [OF distinct_fixed_columns(1), of j "fixed_cells a l t"] j
    by (simp add: result_row_def length_fixed map_add_def)
  ultimately show ?thesis by (simp add: rows_read_back [OF assms(1)] r0 ri)
qed

section \<open>Properties\<close>

text \<open>
  Reading timestamps.  A UTC timestamp in RFC 3339 with seconds is read exactly; one with a fraction of any
  number of digits is read to the microsecond, rounded down.
\<close>

theorem parse_ts_reads_rfc3339:
  assumes "civil_ok c"
  shows "parse_ts (isoformat c @ ''Z'') = Inr (utc c 0) \<and>
     (list_all is_digit f \<and> f \<noteq> [] \<longrightarrow>
        parse_ts (isoformat c @ ''.'' @ f @ ''Z'') = Inr (utc c (nat_of_digits f * 10 ^ 6 div 10 ^ length f)))"
  using parse_ts_seconds [OF assms] parse_ts_fraction [OF assms] by blast

text \<open>
  A short fraction without a zone ends the collector.  Such a timestamp makes \<open>parse_ts\<close> raise
  \<open>IndexError\<close>, which the handler for unreadable rows does not catch, so no row is reported at all.
\<close>

theorem short_fraction_crashes:
  assumes "list_all is_digit f" "length f < 6"
  shows "collect_latencies (Inr (\<lparr>it_created_at = Some (isoformat c @ ''.'' @ f), it_dispatched_at = d\<rparr> # items) # pages) since_dt until_dt =
    Inl IndexError"
  using parse_ts_point [OF assms(1), of "[]" c] assms(2)
  by (simp add: collect_latencies_def add_latency_def latency_of_def key_or_def caught_def replace_Z_def)

text \<open>
  Assignment latencies are whole seconds.  The submitter and the dispatcher store their times in RFC 3339
  with seconds, so from such rows the collector reports, sorted, exactly the differences of the truncated times
  of the tasks created in the window, those that are not negative: every reported figure is a multiple
  of 1000 ms, and a task dispatched in the second of its creation has latency 0.
\<close>

theorem latencies_whole_seconds:
  assumes "list_all (list_all (\<lambda>p. civil_ok (fst p) \<and> civil_ok (snd p))) tasks"
  shows "collect_latencies (map (\<lambda>ps. Inr (map stored_row ps)) tasks) (map_option (\<lambda>c. utc c 0) since_c) (map_option (\<lambda>c. utc c 0) until_c) =
     Inr (sort (map whole_ms (filter (in_window since_c until_c) (concat tasks))))"
proof -
  have "fold_res (\<lambda>page acc. bind_res page (\<lambda>items. fold_res (add_latency (map_option (\<lambda>c. utc c 0) since_c)
      (map_option (\<lambda>c. utc c 0) until_c)) items acc)) (map (\<lambda>ps. Inr (map stored_row ps)) tasks) acc =
      Inr (acc @ map whole_ms (filter (in_window since_c until_c) (concat tasks)))" for acc
    using assms by (induction tasks arbitrary: acc) (simp_all add: fold_latencies)
  then show ?thesis by (simp add: collect_latencies_def)
qed

text \<open>
  The figures of a row.  For collected latencies the minimum, median, 95th and 99th percentile and maximum
  of the row are latencies rounded to two decimals, in this order.
\<close>

theorem row_figures_ordered:
  assumes "collect_latencies pages since_dt until_dt = Inr lat" "lat \<noteq> []"
  shows "\<exists>mn p50 p95 p99 mx. dget (result_row args lat tm lags) ''min_ms'' = Some (CNum mn) \<and>
     dget (result_row args lat tm lags) ''p50_ms'' = Some (CNum p50) \<and> dget (result_row args lat tm lags) ''p95_ms'' = Some (CNum p95) \<and>
     dget (result_row args lat tm lags) ''p99_ms'' = Some (CNum p99) \<and> dget (result_row args lat tm lags) ''max_ms'' = Some (CNum mx) \<and>
     mn \<le> p50 \<and> p50 \<le> p95 \<and> p95 \<le> p99 \<and> p99 \<le> mx \<and> {mn, p50, p95, p99, mx} \<subseteq> round2 ` set lat"
proof -
  have srt: "sorted lat" using assms(1) by (auto simp: collect_latencies_def)
  have ext: "Min (set lat) \<le> x" "x \<le> Max (set lat)" if "x \<in> set lat" for x using that by simp_all
  note pct = collect_pct_order [OF assms(2) srt] and mem = collect_pct_mem [OF assms(2) srt]
  show ?thesis
    using pct [of 50 95] pct [of 95 99] mem [of 50] mem [of 95] mem [of 99] ext [OF mem [of 50]] ext [OF mem [of 99]] assms(2)
    by (simp add: result_row_def fixed_columns_def fixed_cells_def round2_mono fold_max_Max fold_min_Min)
qed


section \<open>Examples\<close>

definition demo_civil :: "nat \<Rightarrow> civil" where
  "demo_civil sec = \<lparr>c_year = 2026, c_month = 4, c_day = 20, c_hour = 8, c_min = 20, c_sec = sec\<rparr>"

lemma demo_civil_ok: "sec < 60 \<Longrightarrow> civil_ok (demo_civil sec)"
  by (simp add: demo_civil_def civil_ok_def date_ok_def month_lengths_def)

lemma demo_iso: "isoformat (demo_civil 47) = ''2026-04-20T08:20:47''"
  by code_simp

theorem parse_ts_reads_rfc3339_witness:
  "parse_ts ''2026-04-20T08:20:47Z'' = Inr (utc (demo_civil 47) 0) \<and>
   parse_ts ''2026-04-20T08:20:47.5Z'' = Inr (utc (demo_civil 47) 500000)"
  using parse_ts_reads_rfc3339 [OF demo_civil_ok, of 47 "''5''"]
  by (simp add: demo_iso is_digit_def nat_of_digits_def digit_val_def)

theorem short_fraction_crashes_witness:
  "collect_latencies [Inr [\<lparr>it_created_at = Some ''2026-04-20T08:20:47.5'', it_dispatched_at = None\<rparr>]] None None = Inl IndexError"
  using short_fraction_crashes [of "''5''" "demo_civil 47" None "[]" "[]" None None] by (simp add: demo_iso is_digit_def)

theorem latencies_whole_seconds_witness:
  "collect_latencies [Inr (map stored_row [(demo_civil 1, demo_civil 3), (demo_civil 4, demo_civil 4)])] None None = Inr [0, 2000]"
proof -
  have "list_all (list_all (\<lambda>p. civil_ok (fst p) \<and> civil_ok (snd p))) [[(demo_civil 1, demo_civil 3), (demo_civil 4, demo_civil 4)]]"
    by (simp add: demo_civil_ok)
  from latencies_whole_seconds [OF this, of None None] show ?thesis
    by (simp add: in_window_def whole_ms_def civil_secs_def demo_civil_def)
qed

definition demo_args :: collect_args where
  "demo_args = \<lparr>ca_label = ''3node_100tpm'', ca_coordinator = [], ca_submitted = 199, ca_failed = 0, ca_actual_rate = 199 / 2,
     ca_since = None, ca_until = None\<rparr>"

theorem row_figures_ordered_witness:
  "\<exists>mn mx. dget (result_row demo_args [0, 2000] ''t'' []) ''min_ms'' = Some (CNum mn) \<and>
     dget (result_row demo_args [0, 2000] ''t'' []) ''max_ms'' = Some (CNum mx) \<and> mn \<le> mx"
proof -
  let ?ps = "[(demo_civil 1, demo_civil 3), (demo_civil 4, demo_civil 4)]"
  have "collect_latencies [Inr (map stored_row ?ps)] None None = Inr (sort (map whole_ms (filter (in_window None None) ?ps)))"
    using fold_latencies [of ?ps None None "[]"] by (simp add: collect_latencies_def demo_civil_ok del: list.map filter.simps)
  also have "\<dots> = Inr [0, 2000]" by (simp add: in_window_def whole_ms_def civil_secs_def demo_civil_def)
  finally show ?thesis using row_figures_ordered [of _ None None "[0, 2000]" demo_args "''t''" "[]"] by fastforce
qed


end
