(* ===== verification/Plot_Exp2.thy ===== *)
theory Plot_Exp2
  imports Collect
begin

text \<open>
  \<open>experiments/exp2/plot_exp2.py\<close>: what the figures of experiment 2 show of the CSV files that the
  collector wrote.  Modelled are the choice of the input files, the look-up of a figure, the series and
  texts of every figure and the score card; drawing them with matplotlib is not.
\<close>

section \<open>Input\<close>

text \<open>
  \<open>latest\<close>: \<open>RESULTS.glob\<close> gives the names in some order, each with its modification time; \<open>None\<close> is the
  \<open>FileNotFoundError\<close>.
\<close>

definition latest :: "py_str \<Rightarrow> (py_str \<times> real) list \<Rightarrow> py_str option" where
  "latest prefix files =
     (let candidates = sort_key snd (filter (\<lambda>(name, _). startswith name (prefix @ ''_'') \<and>
            endswith (drop (length prefix + 1) name) ''.csv'') files)
      in if candidates = [] then None else Some (fst (last candidates)))"

text \<open>The two input files: those of the command line, or the latest ones.\<close>

definition input_paths :: "py_str list \<Rightarrow> (py_str \<times> real) list \<Rightarrow> (py_str \<times> py_str) option" where
  "input_paths argv files =
     (if 3 \<le> length argv then Some (argv ! 1, argv ! 2)
      else case (latest ''3node'' files, latest ''5node'' files) of
             (Some three, Some five) \<Rightarrow> Some (three, five)
           | _ \<Rightarrow> None)"

type_synonym csv_rows = "(py_str, cell) pydict list"

definition RATES :: "nat list" where
  "RATES = [100, 500, 1000]"

definition float_cell :: "cell \<Rightarrow> real result" where
  "float_cell c = (case c of CNum x \<Rightarrow> Inr x | CStr s \<Rightarrow> Inl ValueError)"

definition label_text :: "cell \<Rightarrow> py_str" where
  "label_text c = (case c of CStr s \<Rightarrow> s | CNum x \<Rightarrow> [])"

fun get :: "csv_rows \<Rightarrow> nat \<Rightarrow> py_str \<Rightarrow> real result" where
  "get [] rate field = Inr 0"
| "get (r # rows) rate field =
     bind_res (key_or ''label'' (dget r ''label'')) (\<lambda>l.
       if endswith (label_text l) (''_'' @ dec_nat rate @ ''tpm'')
       then bind_res (key_or field (dget r field)) float_cell
       else get rows rate field)"

definition five_p50_max :: "csv_rows \<Rightarrow> real result" where
  "five_p50_max five_node = bind_res (map_res (\<lambda>r. get five_node r ''p50_ms'') RATES) (\<lambda>vs. Inr (fold max vs (hd vs)))"

definition FIVE_VALID :: "csv_rows \<Rightarrow> bool result" where
  "FIVE_VALID five_node = bind_res (five_p50_max five_node) (\<lambda>m. Inr (m < 60000))"

section \<open>Series of the figures\<close>

definition series :: "csv_rows \<Rightarrow> py_str \<Rightarrow> real list result" where
  "series rows field = map_res (\<lambda>r. get rows r field) RATES"

record throughput_data =
  td_t3 :: "real list"
  td_t5 :: "real list"
  td_s3 :: "real list"
  td_s5 :: "real list"
  td_fail :: "(py_str \<times> py_str) list"

definition fig_throughput :: "csv_rows \<Rightarrow> csv_rows \<Rightarrow> throughput_data result" where
  "fig_throughput three_node five_node =
     bind_res (series three_node ''actual_rate_tpm'') (\<lambda>t3. bind_res (series five_node ''actual_rate_tpm'') (\<lambda>t5.
     bind_res (series three_node ''submitted'') (\<lambda>s3. bind_res (series five_node ''submitted'') (\<lambda>s5.
     bind_res (series three_node ''failed'') (\<lambda>f3. bind_res (series five_node ''failed'') (\<lambda>f5.
       Inr \<lparr>td_t3 = t3, td_t5 = t5, td_s3 = s3, td_s5 = s5,
            td_fail = map (\<lambda>(a, b). (''fail='' @ dec_int (py_trunc a), ''fail='' @ dec_int (py_trunc b))) (zip f3 f5)\<rparr>))))))"

text \<open>One panel of the latency figure: the bars, and the upper limit of its axis.\<close>

record latency_panel =
  lp_v3 :: "real list"
  lp_v5 :: "real list option"
  lp_ylim :: real

definition list_max :: "real list \<Rightarrow> real" where
  "list_max vs = fold max vs (hd vs)"

definition latency_panel :: "csv_rows \<Rightarrow> csv_rows \<Rightarrow> bool \<Rightarrow> py_str \<Rightarrow> latency_panel result" where
  "latency_panel three_node five_node valid field =
     bind_res (series three_node field) (\<lambda>v3.
     if valid then
       bind_res (series five_node field) (\<lambda>v5.
         Inr \<lparr>lp_v3 = v3, lp_v5 = Some v5, lp_ylim = max (max (list_max v3) (list_max v5) * (145 / 100)) 50\<rparr>)
     else Inr \<lparr>lp_v3 = v3, lp_v5 = None, lp_ylim = max (list_max v3 * (145 / 100)) 50\<rparr>)"

definition fig_latency :: "csv_rows \<Rightarrow> csv_rows \<Rightarrow> latency_panel list result" where
  "fig_latency three_node five_node =
     bind_res (FIVE_VALID five_node) (\<lambda>valid.
       map_res (latency_panel three_node five_node valid) [''p50_ms'', ''p95_ms'', ''p99_ms''])"

text \<open>The text over a bar of the breakdown; bars of height 0 have none.\<close>

definition bar_text :: "real \<Rightarrow> py_str option" where
  "bar_text v = (if 0 < v then Some (if 1000 \<le> v then fmt_fixed 0 (v / 1000) @ ''s'' else fmt_fixed 0 v @ ''ms'') else None)"

definition breakdown_fields :: "py_str list" where
  "breakdown_fields = [''p50_ms'', ''p95_ms'', ''p99_ms'', ''max_ms'']"

record breakdown_panel =
  bp_bars :: "real list"
  bp_texts :: "py_str option list"
  bp_ylim :: real
  bp_batch_note :: bool
  bp_stall_note :: bool

definition breakdown_panel :: "csv_rows \<Rightarrow> csv_rows \<Rightarrow> bool \<Rightarrow> nat \<Rightarrow> breakdown_panel result" where
  "breakdown_panel three_node five_node valid rate =
     bind_res (map_res (get three_node rate) breakdown_fields) (\<lambda>v3.
     bind_res (if valid then map_res (get five_node rate) breakdown_fields else Inr []) (\<lambda>v5.
     bind_res (if rate = 1000 then bind_res (get three_node 1000 ''max_ms'') (\<lambda>m. Inr (10000 < m)) else Inr False) (\<lambda>stall.
       let y_top = max (list_max v3) (if valid then list_max v5 else 0) * (135 / 100) + 200
       in Inr \<lparr>bp_bars = v3 @ v5, bp_texts = map bar_text (v3 @ v5), bp_ylim = max y_top 1500,
               bp_batch_note = (500 \<le> rate), bp_stall_note = stall\<rparr>)))"

definition fig_latency_breakdown :: "csv_rows \<Rightarrow> csv_rows \<Rightarrow> breakdown_panel list result" where
  "fig_latency_breakdown three_node five_node =
     bind_res (FIVE_VALID five_node) (\<lambda>valid. map_res (breakdown_panel three_node five_node valid) RATES)"

section \<open>Score card\<close>

text \<open>The dagger of the source is a character outside ASCII; it is written as its UTF-8 bytes.\<close>

definition dagger :: py_str where
  "dagger = [CHR 0xE2, CHR 0x80, CHR 0xA0]"

definition fmt_ms :: "real \<Rightarrow> py_str" where
  "fmt_ms val_ms =
     (if val_ms = 0 then ''0 ms''
      else if 60000 \<le> val_ms then ''N/A '' @ dagger
      else if 1000 \<le> val_ms then
        (if val_ms < 10000 then fmt_fixed 0 (val_ms / 1000) @ '',000 ms'' else fmt_fixed 0 (val_ms / 1000) @ '' s'')
      else fmt_fixed 0 val_ms @ '' ms'')"

definition card_row :: "csv_rows \<Rightarrow> csv_rows \<Rightarrow> py_str \<Rightarrow> py_str \<Rightarrow> (real \<Rightarrow> py_str) option \<Rightarrow> py_str list result" where
  "card_row three_node five_node metric field fmt_fn =
     (let text_of = (case fmt_fn of Some f \<Rightarrow> f | None \<Rightarrow> (\<lambda>v. dec_int (py_trunc v)))
      in bind_res (series three_node field) (\<lambda>v3. bind_res (series five_node field) (\<lambda>v5.
           Inr (metric # map text_of (v3 @ v5)))))"

definition rows_data :: "csv_rows \<Rightarrow> csv_rows \<Rightarrow> py_str list list result" where
  "rows_data three_node five_node =
     (let row = card_row three_node five_node
      in map_res (\<lambda>x. x)
        [row ''Submitted'' ''submitted'' None, row ''Failed'' ''failed'' None,
         row ''Actual rate tpm'' ''actual_rate_tpm'' (Some (fmt_fixed 1)),
         Inr (''Failure rate'' # replicate 6 ''0%''),
         row ''p50 latency'' ''p50_ms'' (Some fmt_ms), row ''p95 latency'' ''p95_ms'' (Some fmt_ms),
         row ''p99 latency'' ''p99_ms'' (Some fmt_ms), row ''max latency'' ''max_ms'' (Some fmt_ms)])"

definition cell_color :: "py_str \<Rightarrow> py_str" where
  "cell_color val =
     (if val \<in> {''0'', ''0%'', ''0 ms''} then ''#d5f5e3'' else if contains val ''N/A'' then ''#fef9e7'' else ''#fdfefe'')"

definition cell_colors :: "py_str list list \<Rightarrow> py_str list list" where
  "cell_colors rows = map (\<lambda>row. ''#ecf0f1'' # map cell_color (drop 1 row)) rows"

section \<open>Comparison figure\<close>

text \<open>The annotation is drawn when the 95th percentiles at 100 tasks per minute differ.\<close>

definition comparison_note :: "csv_rows \<Rightarrow> csv_rows \<Rightarrow> (real \<times> real) option result" where
  "comparison_note three_node five_node =
     bind_res (get three_node 100 ''p95_ms'') (\<lambda>v3. bind_res (get five_node 100 ''p95_ms'') (\<lambda>v5.
       Inr (if v5 \<noteq> v3 then Some (v3, v5) else None)))"

definition value_text :: "real \<Rightarrow> py_str option" where
  "value_text v = (if 0 < v then Some (fmt_fixed 0 v) else None)"

record rate_bars =
  rb_v3 :: "real list"
  rb_v5 :: "real list"
  rb_texts :: "py_str option list"

definition rate_bars :: "csv_rows \<Rightarrow> csv_rows \<Rightarrow> bool \<Rightarrow> nat \<Rightarrow> rate_bars result" where
  "rate_bars three_node five_node valid rate =
     bind_res (map_res (get three_node rate) [''p50_ms'', ''p95_ms'', ''p99_ms'']) (\<lambda>v3.
     bind_res (if valid then map_res (get five_node rate) [''p50_ms'', ''p95_ms'', ''p99_ms''] else Inr []) (\<lambda>v5.
       Inr \<lparr>rb_v3 = v3, rb_v5 = v5, rb_texts = map value_text (v3 @ v5)\<rparr>))"

definition fig_cluster_comparison :: "csv_rows \<Rightarrow> csv_rows \<Rightarrow> (rate_bars list \<times> (real \<times> real) option) result" where
  "fig_cluster_comparison three_node five_node =
     bind_res (FIVE_VALID five_node) (\<lambda>valid.
     bind_res (map_res (rate_bars three_node five_node valid) RATES) (\<lambda>bars.
     bind_res (if valid then comparison_note three_node five_node else Inr None) (\<lambda>note. Inr (bars, note))))"

section \<open>Lemmas\<close>

text \<open>The labels the experiment script gives: cluster size and rate.\<close>

definition run_label :: "nat \<Rightarrow> nat \<Rightarrow> py_str" where
  "run_label sz rate = dec_nat sz @ ''node_'' @ dec_nat rate @ ''tpm''"

lemma dec_nat_no_underscore [simp]: "CHR ''_'' \<notin> set (dec_nat n)"
proof -
  have "\<not> is_digit CHR ''_''" by (simp add: is_digit_def)
  then show ?thesis using dec_nat_digits by blast
qed

lemma last_underscore:
  assumes "xs @ CHR ''_'' # dec_nat m = ys @ CHR ''_'' # dec_nat n"
  shows "m = n"
proof -
  have "takeWhile (\<lambda>c. c \<noteq> CHR ''_'') (rev (zs @ CHR ''_'' # dec_nat k)) = rev (dec_nat k)" for zs k
  proof -
    have "\<forall>c \<in> set (rev (dec_nat k)). c \<noteq> CHR ''_''" using dec_nat_no_underscore [of k] by auto
    then have "takeWhile (\<lambda>c. c \<noteq> CHR ''_'') (rev (dec_nat k) @ CHR ''_'' # rev zs) = rev (dec_nat k)"
      by (subst takeWhile_append2) auto
    then show ?thesis by simp
  qed
  from this [of xs m] this [of ys n] assms have "rev (dec_nat m) = rev (dec_nat n)" by simp
  then show ?thesis by simp
qed

lemma label_selects: "endswith (run_label sz r) (CHR ''_'' # dec_nat rate @ ''tpm'') \<longleftrightarrow> r = rate"
proof
  assume "endswith (run_label sz r) (CHR ''_'' # dec_nat rate @ ''tpm'')"
  then obtain pre where "((dec_nat sz @ ''node'') @ CHR ''_'' # dec_nat r) @ ''tpm'' = (pre @ CHR ''_'' # dec_nat rate) @ ''tpm''"
    by (auto simp: endswith_iff run_label_def)
  then have "(dec_nat sz @ ''node'') @ CHR ''_'' # dec_nat r = pre @ CHR ''_'' # dec_nat rate" by (simp only: append_same_eq)
  then show "r = rate" by (rule last_underscore)
next
  assume "r = rate"
  then show "endswith (run_label sz r) (CHR ''_'' # dec_nat rate @ ''tpm'')"
    unfolding endswith_iff run_label_def by (intro exI [of _ "dec_nat sz @ ''node''"]) simp
qed

lemma fmt_fixed_int: "0 \<le> x \<Longrightarrow> fmt_fixed 0 x = dec_nat (nat (py_round x))"
  by (simp add: fmt_fixed_def Let_def)

text \<open>Reading from rows labelled with distinct rates.\<close>

definition labelled :: "nat \<Rightarrow> nat \<Rightarrow> (py_str, cell) pydict \<Rightarrow> bool" where
  "labelled sz rate r \<longleftrightarrow> dget r ''label'' = Some (CStr (run_label sz rate))"

lemma get_Cons:
  "labelled sz k r \<Longrightarrow> get (r # rows) rate field = (if k = rate then bind_res (key_or field (dget r field)) float_cell else get rows rate field)"
  by (simp add: labelled_def key_or_def label_text_def label_selects)

lemma get_other: "list_all2 (labelled sz) rates rows \<Longrightarrow> rate \<notin> set rates \<Longrightarrow> get rows rate field = Inr 0"
  by (induction rates rows rule: list_all2_induct) (auto simp: get_Cons simp del: get.simps(2))

lemma get_own:
  "list_all2 (labelled sz) rates rows \<Longrightarrow> distinct rates \<Longrightarrow> i < length rows \<Longrightarrow> dget (rows ! i) field = Some (CNum x) \<Longrightarrow>
     get rows (rates ! i) field = Inr x"
proof (induction rates rows arbitrary: i rule: list_all2_induct)
  case (Cons k ks r rows)
  show ?case
  proof (cases i)
    case 0
    with Cons show ?thesis by (simp add: get_Cons key_or_def float_cell_def del: get.simps(2))
  next
    case (Suc j)
    have "length ks = length rows" using Cons.hyps by (simp add: list_all2_lengthD)
    with Suc Cons.prems have "ks ! j \<in> set ks" by simp
    with Cons.prems have "k \<noteq> ks ! j" by auto
    with Suc Cons show ?thesis by (simp add: get_Cons del: get.simps(2))
  qed
qed simp

lemma label_cell: "dget (result_row args lat tm lags) ''label'' = Some (CStr (ca_label args))"
  by (simp add: result_row_def fixed_columns_def fixed_cells_def)

section \<open>Properties\<close>

text \<open>
  The figures show the collected rows.  Let the collector have appended one row per rate to a file that was
  missing, labelled as the experiment script does, in any order.  Looking up a rate and a
  numeric column gives the figure of the run with that rate, and of no other (100 is not confused
  with 1000), and 0 for a rate that was not run.
\<close>

theorem get_reads_collected:
  assumes "\<And>i. i < length runs \<Longrightarrow> (case runs ! i of (args, lat, tm, lags) \<Rightarrow> ca_label args = run_label sz (rates ! i) \<and> distinct (map fst lags))"
    and "length rates = length runs" "distinct rates" "field \<in> set fixed_columns"
  shows "let row = (\<lambda>(args, lat, tm, lags). result_row args lat tm lags);
       rows = dict_reader (foldl write_row [] (map row runs))
     in (\<forall>i x. i < length runs \<and> dget (row (runs ! i)) field = Some (CNum x) \<longrightarrow> get rows (rates ! i) field = Inr x) \<and>
        (\<forall>rate. rate \<notin> set rates \<longrightarrow> get rows rate field = Inr 0)"
proof -
  let ?row = "\<lambda>(args, lat, tm, lags). result_row args lat tm lags"
  let ?rows = "dict_reader (foldl write_row [] (map ?row runs))"
  have len: "length ?rows = length runs"
    by (cases "runs = []") (simp_all add: read_rows, simp add: dict_reader_def)
  have fixed: "dget (?rows ! i) c = dget (?row (runs ! i)) c" if "i < length runs" "c \<in> set fixed_columns" for i c
    using csv_columns_read_back [OF that(1) _ that(2)] assms(1) by (fastforce simp: list_all_length)
  have lab: "dget (?rows ! i) ''label'' = Some (CStr (run_label sz (rates ! i)))" if "i < length runs" for i
    using fixed [OF that, of "''label''"] assms(1) [OF that]
    by (auto simp: label_cell fixed_columns_def split: prod.splits)
  have all: "list_all2 (labelled sz) rates ?rows"
    using lab assms(2) len by (simp add: list_all2_conv_all_nth labelled_def)
  have "get ?rows (rates ! i) field = Inr x" if "i < length runs" "dget (?row (runs ! i)) field = Some (CNum x)" for i x
    using get_own [OF all assms(3), of i field x] that fixed [OF that(1) assms(4)] len by simp
  moreover have "get ?rows rate field = Inr 0" if "rate \<notin> set rates" for rate
    using get_other [OF all that] .
  ultimately show ?thesis unfolding Let_def by blast
qed

theorem get_reads_collected_witness:
  "get (dict_reader (foldl write_row []
      [result_row (demo_args\<lparr>ca_label := run_label 3 1000\<rparr>) [0] ''t'' [], result_row (demo_args\<lparr>ca_label := run_label 3 100\<rparr>) [2000] ''t'' []]))
     100 ''n'' = Inr 1 \<and>
   get (dict_reader (foldl write_row [] [result_row (demo_args\<lparr>ca_label := run_label 3 1000\<rparr>) [0] ''t'' []])) 500 ''n'' = Inr 0"
proof -
  let ?run = "\<lambda>r lat. (demo_args\<lparr>ca_label := run_label 3 r\<rparr>, lat, ''t'', [])"
  have n: "dget (result_row args [x] ''t'' []) ''n'' = Some (CNum 1)" for args x
    by (simp add: result_row_def fixed_columns_def fixed_cells_def)
  have field: "''n'' \<in> set fixed_columns" by (simp add: fixed_columns_def)
  have "case [?run 1000 [0], ?run 100 [2000]] ! i of (args, lat, tm, lags) \<Rightarrow> ca_label args = run_label 3 ([1000, 100] ! i) \<and> distinct (map fst lags)"
    if "i < length [?run 1000 [0], ?run 100 [2000]]" for i
    using that by (auto simp: less_Suc_eq)
  from get_reads_collected [OF this _ _ field] have "get (dict_reader (foldl write_row []
      [result_row (demo_args\<lparr>ca_label := run_label 3 1000\<rparr>) [0] ''t'' [], result_row (demo_args\<lparr>ca_label := run_label 3 100\<rparr>) [2000] ''t'' []]))
     100 ''n'' = Inr 1"
    by (auto simp: Let_def n dest!: spec [where x = "1 :: nat"])
  moreover have "case [?run 1000 [0]] ! i of (args, lat, tm, lags) \<Rightarrow> ca_label args = run_label 3 ([1000] ! i) \<and> distinct (map fst lags)"
    if "i < length [?run 1000 [0]]" for i
    using that by (auto simp: less_Suc_eq)
  from get_reads_collected [OF this _ _ field]
  have "get (dict_reader (foldl write_row [] [result_row (demo_args\<lparr>ca_label := run_label 3 1000\<rparr>) [0] ''t'' []])) 500 ''n'' = Inr 0"
    by (auto simp: Let_def)
  ultimately show ?thesis by blast
qed

text \<open>
  Latencies on the score card.  A latency of whole seconds, which is all that the collector reports, is shown
  exactly below one minute and as not available from one minute on.  Other values from one to ten seconds are
  rounded to whole seconds although the text has the precision of a millisecond.
\<close>

theorem card_latency_text:
  "fmt_ms (1000 * real k) =
     (if k = 0 then ''0 ms'' else if 60 \<le> k then ''N/A '' @ dagger
      else if k < 10 then dec_nat k @ '',000 ms'' else dec_nat k @ '' s'') \<and>
   fmt_ms 1499 = dec_nat 1 @ '',000 ms'' \<and> fmt_ms 9600 = dec_nat 10 @ '',000 ms''"
proof -
  have "py_round (real k) = int k" using py_round_of_int [of "int k"] by simp
  moreover have "py_round (1499 / 1000) = 1" "py_round (9600 / 1000) = 10" by (simp_all add: py_round_def Let_def)
  ultimately show ?thesis by (auto simp: fmt_ms_def fmt_fixed_int)
qed

end
