(* ===== verification/Py_Json.thy ===== *)
theory Py_Json
  imports Py_Strings
begin

text \<open>
  What the sources use of Python's \<open>json\<close> module: \<open>json.dumps\<close> with its default separators and
  \<open>ensure_ascii\<close>, and \<open>json.loads\<close>.  Texts and strings are lists of code points here, since escaping works on
  code points.  The constants \<open>NaN\<close> and \<open>Infinity\<close>, which no source writes, are left out.  The main lemma is that \<open>loads\<close> reads back what \<open>dumps\<close> writes.
\<close>

section \<open>Values and writing\<close>

type_synonym cps = "nat list"

definition lit :: "py_str \<Rightarrow> cps" where
  "lit s = map of_char s"

lemma lit_inject [simp]: "lit s = lit t \<longleftrightarrow> s = t"
proof
  assume "lit s = lit t"
  then have "map char_of (lit s) = map (char_of :: nat \<Rightarrow> char) (lit t)" by simp
  then show "s = t" by (simp add: lit_def comp_def)
qed simp

lemma char_of_lit [simp]: "map char_of (lit s) = s"
  by (simp add: lit_def comp_def)

text \<open>A float is represented by the text that \<open>float.__repr__\<close> gives.\<close>

datatype json = JNull | JBool bool | JInt int | JFloat cps | JStr cps | JArr "json list" | JObj "(cps \<times> json) list"

definition hex_cp :: "nat \<Rightarrow> nat" where
  "hex_cp d = (if d < 10 then 48 + d else 87 + d)"

definition u_escape :: "nat \<Rightarrow> cps" where
  "u_escape c = [92, 117, hex_cp (c div 4096 mod 16), hex_cp (c div 256 mod 16), hex_cp (c div 16 mod 16), hex_cp (c mod 16)]"

definition escape_cp :: "nat \<Rightarrow> cps" where
  "escape_cp c =
     (if c = 34 then [92, 34] else if c = 92 then [92, 92] else if c = 10 then [92, 110] else if c = 13 then [92, 114]
      else if c = 9 then [92, 116] else if c = 12 then [92, 102] else if c = 8 then [92, 98]
      else if 32 \<le> c \<and> c \<le> 126 then [c]
      else if c < 65536 then u_escape c
      else u_escape (55296 + (c - 65536) div 1024) @ u_escape (56320 + (c - 65536) mod 1024))"

definition quote_cps :: "cps \<Rightarrow> cps" where
  "quote_cps s = 34 # concat (map escape_cp s) @ [34]"

text \<open>\<open>dumps_items\<close> and \<open>dumps_fields\<close> write what follows the opening bracket.\<close>

fun dumps :: "json \<Rightarrow> cps" and dumps_items :: "json list \<Rightarrow> cps" and dumps_fields :: "(cps \<times> json) list \<Rightarrow> cps" where
  "dumps JNull = lit ''null''"
| "dumps (JBool b) = (if b then lit ''true'' else lit ''false'')"
| "dumps (JInt i) = lit (dec_int i)"
| "dumps (JFloat t) = t"
| "dumps (JStr s) = quote_cps s"
| "dumps (JArr vs) = 91 # dumps_items vs"
| "dumps (JObj kvs) = 123 # dumps_fields kvs"
| "dumps_items [] = [93]"
| "dumps_items (v # vs) = dumps v @ (if vs = [] then [93] else lit '', '' @ dumps_items vs)"
| "dumps_fields [] = [125]"
| "dumps_fields (kv # kvs) =
     quote_cps (fst kv) @ lit '': '' @ dumps (snd kv) @ (if kvs = [] then [125] else lit '', '' @ dumps_fields kvs)"

section \<open>Reading\<close>

definition is_ws :: "nat \<Rightarrow> bool" where
  "is_ws c \<longleftrightarrow> c \<in> {32, 9, 10, 13}"

definition skip_ws :: "cps \<Rightarrow> cps" where
  "skip_ws s = dropWhile is_ws s"

definition hex_val :: "nat \<Rightarrow> nat option" where
  "hex_val c =
     (if 48 \<le> c \<and> c \<le> 57 then Some (c - 48) else if 97 \<le> c \<and> c \<le> 102 then Some (c - 87)
      else if 65 \<le> c \<and> c \<le> 70 then Some (c - 55) else None)"

text \<open>The four digits after \<open>\u\<close>, and what follows them.\<close>

definition scan_hex4 :: "cps \<Rightarrow> (nat \<times> cps) option" where
  "scan_hex4 s =
     (case s of
        a # b # c # d # rest \<Rightarrow>
          (case (hex_val a, hex_val b, hex_val c, hex_val d) of
             (Some x, Some y, Some z, Some u) \<Rightarrow> Some (x * 4096 + y * 256 + z * 16 + u, rest)
           | _ \<Rightarrow> None)
      | _ \<Rightarrow> None)"

text \<open>A code point written by one escape, or by two that form a surrogate pair.\<close>

definition scan_u :: "cps \<Rightarrow> (nat \<times> cps) option" where
  "scan_u s =
     (case scan_hex4 s of
        None \<Rightarrow> None
      | Some (hi, rest) \<Rightarrow>
          if 55296 \<le> hi \<and> hi \<le> 56319 \<and> take 2 rest = [92, 117] then
            (case scan_hex4 (drop 2 rest) of
               None \<Rightarrow> None
             | Some (lo, rest') \<Rightarrow>
                 if 56320 \<le> lo \<and> lo \<le> 57343 then Some (65536 + (hi - 55296) * 1024 + (lo - 56320), rest')
                 else Some (hi, rest))
          else Some (hi, rest))"

definition simple_escape :: "nat \<Rightarrow> nat option" where
  "simple_escape e = map_of [(34, 34), (92, 92), (47, 47), (98, 8), (102, 12), (110, 10), (114, 13), (116, 9)] e"

lemma scan_hex4_length: "scan_hex4 s = Some (n, r) \<Longrightarrow> length r < length s"
  by (auto simp: scan_hex4_def split: list.splits option.splits)

lemma scan_u_length: "scan_u s = Some (n, r) \<Longrightarrow> length r < length s"
  by (auto simp: scan_u_def dest!: scan_hex4_length split: option.splits if_splits prod.splits)

text \<open>\<open>scan_string\<close> reads after the opening quote; a raw control character is an error.\<close>

function scan_string :: "cps \<Rightarrow> (cps \<times> cps) result" where
  "scan_string s =
     (case s of
        [] \<Rightarrow> Inl ValueError
      | c # r \<Rightarrow>
          if c = 34 then Inr ([], r)
          else if c = 92 then
            (case r of
               [] \<Rightarrow> Inl ValueError
             | e # r' \<Rightarrow>
                 if e = 117 then
                   (case scan_u r' of
                      None \<Rightarrow> Inl ValueError
                    | Some (n, r'') \<Rightarrow> bind_res (scan_string r'') (\<lambda>(t, rest). Inr (n # t, rest)))
                 else
                   (case simple_escape e of
                      None \<Rightarrow> Inl ValueError
                    | Some n \<Rightarrow> bind_res (scan_string r') (\<lambda>(t, rest). Inr (n # t, rest))))
          else if c < 32 then Inl ValueError
          else bind_res (scan_string r) (\<lambda>(t, rest). Inr (c # t, rest)))"
  by pat_completeness auto
termination
  by (relation "measure length") (auto dest: scan_u_length)

declare scan_string.simps [simp del]

definition is_digit_cp :: "nat \<Rightarrow> bool" where
  "is_digit_cp c \<longleftrightarrow> 48 \<le> c \<and> c \<le> 57"

text \<open>
  \<open>NUMBER_RE\<close>: an optional sign, an integer part without leading zeros, and then a fraction and an
  exponent if they are complete.
\<close>

definition opt_sign :: "nat set \<Rightarrow> cps \<Rightarrow> cps \<times> cps" where
  "opt_sign signs s = (case s of c # r \<Rightarrow> if c \<in> signs then ([c], r) else ([], s) | [] \<Rightarrow> ([], s))"

definition int_part :: "cps \<Rightarrow> (cps \<times> cps) option" where
  "int_part s =
     (let (sign, r) = opt_sign {45} s
      in case r of
           [] \<Rightarrow> None
         | c # r' \<Rightarrow>
             if c = 48 then Some (sign @ [48], r')
             else if is_digit_cp c then Some (sign @ takeWhile is_digit_cp r, dropWhile is_digit_cp r)
             else None)"

definition frac_part :: "cps \<Rightarrow> cps \<times> cps" where
  "frac_part s =
     (case s of
        c # r \<Rightarrow> if c = 46 \<and> takeWhile is_digit_cp r \<noteq> [] then (46 # takeWhile is_digit_cp r, dropWhile is_digit_cp r) else ([], s)
      | [] \<Rightarrow> ([], s))"

definition exp_part :: "cps \<Rightarrow> cps \<times> cps" where
  "exp_part s =
     (case s of
        c # r \<Rightarrow>
          (let (sign, d) = opt_sign {43, 45} r
           in if (c = 101 \<or> c = 69) \<and> takeWhile is_digit_cp d \<noteq> []
              then (c # sign @ takeWhile is_digit_cp d, dropWhile is_digit_cp d) else ([], s))
      | [] \<Rightarrow> ([], s))"

definition int_of_cps :: "cps \<Rightarrow> int" where
  "int_of_cps t =
     (case t of c # r \<Rightarrow> if c = 45 then - int (nat_of_digits (map char_of r)) else int (nat_of_digits (map char_of t)) | [] \<Rightarrow> 0)"

definition scan_number :: "cps \<Rightarrow> (json \<times> cps) result" where
  "scan_number s =
     (case int_part s of
        None \<Rightarrow> Inl ValueError
      | Some (i, r1) \<Rightarrow>
          let (f, r2) = frac_part r1; (e, r3) = exp_part r2
          in if f = [] \<and> e = [] then Inr (JInt (int_of_cps i), r3) else Inr (JFloat (i @ f @ e), r3))"

text \<open>Later pairs of an object win, in the position of the first.\<close>

definition dict_of :: "(cps \<times> json) list \<Rightarrow> (cps \<times> json) list" where
  "dict_of kvs = foldl (\<lambda>d (k, v). dset k v d) [] kvs"

text \<open>
  The fuel bounds the depth of the calls; every call consumes a character, so the length of the text is
  enough.
\<close>

fun scan_value :: "nat \<Rightarrow> cps \<Rightarrow> (json \<times> cps) result" and scan_items :: "nat \<Rightarrow> cps \<Rightarrow> (json list \<times> cps) result"
  and scan_fields :: "nat \<Rightarrow> cps \<Rightarrow> ((cps \<times> json) list \<times> cps) result" where
  "scan_value 0 s = Inl ValueError"
| "scan_value (Suc n) s =
     (case s of
        [] \<Rightarrow> Inl ValueError
      | c # r \<Rightarrow>
          if c = 34 then bind_res (scan_string r) (\<lambda>(t, rest). Inr (JStr t, rest))
          else if c = 123 then
            (let r' = skip_ws r
             in if take 1 r' = [125] then Inr (JObj [], drop 1 r')
                else bind_res (scan_fields n r') (\<lambda>(kvs, rest). Inr (JObj (dict_of kvs), rest)))
          else if c = 91 then
            (let r' = skip_ws r
             in if take 1 r' = [93] then Inr (JArr [], drop 1 r')
                else bind_res (scan_items n r') (\<lambda>(vs, rest). Inr (JArr vs, rest)))
          else if take 4 s = lit ''null'' then Inr (JNull, drop 4 s)
          else if take 4 s = lit ''true'' then Inr (JBool True, drop 4 s)
          else if take 5 s = lit ''false'' then Inr (JBool False, drop 5 s)
          else scan_number s)"
| "scan_items 0 s = Inl ValueError"
| "scan_items (Suc n) s =
     bind_res (scan_value n s) (\<lambda>(v, r).
       let r' = skip_ws r
       in if take 1 r' = [93] then Inr ([v], drop 1 r')
          else if take 1 r' = [44] then bind_res (scan_items n (skip_ws (drop 1 r'))) (\<lambda>(vs, rest). Inr (v # vs, rest))
          else Inl ValueError)"
| "scan_fields 0 s = Inl ValueError"
| "scan_fields (Suc n) s =
     (if take 1 s \<noteq> [34] then Inl ValueError
      else bind_res (scan_string (drop 1 s)) (\<lambda>(k, r).
        let r1 = skip_ws r
        in if take 1 r1 \<noteq> [58] then Inl ValueError
           else bind_res (scan_value n (skip_ws (drop 1 r1))) (\<lambda>(v, r2).
             let r3 = skip_ws r2
             in if take 1 r3 = [125] then Inr ([(k, v)], drop 1 r3)
                else if take 1 r3 = [44] then bind_res (scan_fields n (skip_ws (drop 1 r3))) (\<lambda>(kvs, rest). Inr ((k, v) # kvs, rest))
                else Inl ValueError)))"

definition loads :: "cps \<Rightarrow> json result" where
  "loads s =
     bind_res (scan_value (length s + 1) (skip_ws s)) (\<lambda>(v, rest). if skip_ws rest = [] then Inr v else Inl ValueError)"

section \<open>Strings are read back\<close>

definition scalar_cp :: "nat \<Rightarrow> bool" where
  "scalar_cp c \<longleftrightarrow> c < 1114112 \<and> \<not> (55296 \<le> c \<and> c \<le> 57343)"

lemma hex_val_cp: "d < 16 \<Longrightarrow> hex_val (hex_cp d) = Some d"
  by (auto simp: hex_val_def hex_cp_def)

lemma scan_hex4_u:
  assumes "c < 65536"
  shows "scan_hex4 (drop 2 (u_escape c) @ s) = Some (c, s)"
proof -
  have "c div 4096 mod 16 * 4096 + c div 256 mod 16 * 256 + c div 16 mod 16 * 16 + c mod 16 = c"
  proof -
    let ?a = "c div 16" and ?b = "c div 16 div 16" and ?d = "c div 16 div 16 div 16"
    have eq: "c div 256 = ?b" "c div 4096 = ?d" by (simp_all add: div_mult2_eq [symmetric])
    have "?d < 16" using assms by (simp add: div_mult2_eq [symmetric] less_mult_imp_div_less)
    moreover have "c = 16 * ?a + c mod 16" "?a = 16 * ?b + ?a mod 16" "?b = 16 * ?d + ?b mod 16" by simp_all
    moreover from calculation(1) have "?d mod 16 = ?d" by simp
    ultimately show ?thesis unfolding eq by linarith
  qed
  moreover have "scan_hex4 (drop 2 (u_escape c) @ s) =
      Some (c div 4096 mod 16 * 4096 + c div 256 mod 16 * 256 + c div 16 mod 16 * 16 + c mod 16, s)"
    by (simp add: u_escape_def scan_hex4_def hex_val_cp)
  ultimately show ?thesis by (simp only:)
qed

lemma scan_u_plain:
  assumes "c < 65536" "\<not> (55296 \<le> c \<and> c \<le> 56319)"
  shows "scan_u (drop 2 (u_escape c) @ s) = Some (c, s)"
  using assms by (simp only: scan_u_def scan_hex4_u option.case prod.case) auto

lemma scan_u_pair:
  assumes "hi < 1024" "lo < 1024"
  shows "scan_u (drop 2 (u_escape (55296 + hi)) @ u_escape (56320 + lo) @ s) = Some (65536 + hi * 1024 + lo, s)"
proof -
  have "take 2 (u_escape (56320 + lo) @ s) = [92, 117]" "drop 2 (u_escape (56320 + lo) @ s) = drop 2 (u_escape (56320 + lo)) @ s"
    by (simp_all add: u_escape_def)
  moreover have "scan_hex4 (drop 2 (u_escape (55296 + hi)) @ t) = Some (55296 + hi, t)" for t using assms by (intro scan_hex4_u) simp
  moreover have "scan_hex4 (drop 2 (u_escape (56320 + lo)) @ s) = Some (56320 + lo, s)" using assms by (intro scan_hex4_u) simp
  ultimately show ?thesis using assms by (simp add: scan_u_def)
qed

lemma scan_string_u: "scan_string (u_escape c @ s) =
   (case scan_u (drop 2 (u_escape c) @ s) of
      None \<Rightarrow> Inl ValueError | Some (n, r) \<Rightarrow> bind_res (scan_string r) (\<lambda>(t, rest). Inr (n # t, rest)))"
  by (subst scan_string.simps) (simp add: u_escape_def)

lemma scan_string_escape:
  assumes "scalar_cp c"
  shows "scan_string (escape_cp c @ s) = bind_res (scan_string s) (\<lambda>(t, rest). Inr (c # t, rest))"
proof -
  consider "c \<in> {34, 92, 10, 13, 9, 12, 8}" | "c \<notin> {34, 92, 10, 13, 9, 12, 8}" "32 \<le> c \<and> c \<le> 126"
    | "c \<notin> {34, 92, 10, 13, 9, 12, 8}" "\<not> (32 \<le> c \<and> c \<le> 126)" "c < 65536"
    | "c \<notin> {34, 92, 10, 13, 9, 12, 8}" "\<not> (32 \<le> c \<and> c \<le> 126)" "65536 \<le> c" by linarith
  then show ?thesis
  proof cases
    case 1
    then show ?thesis by (subst scan_string.simps) (auto simp: escape_cp_def simple_escape_def)
  next
    case 2
    then show ?thesis by (subst scan_string.simps) (auto simp: escape_cp_def)
  next
    case 3
    then have "escape_cp c = u_escape c" by (auto simp: escape_cp_def)
    moreover have "scan_u (drop 2 (u_escape c) @ s) = Some (c, s)" using 3(3) assms by (intro scan_u_plain) (auto simp: scalar_cp_def)
    ultimately show ?thesis by (simp add: scan_string_u)
  next
    case 4
    let ?hi = "(c - 65536) div 1024" and ?lo = "(c - 65536) mod 1024"
    have "escape_cp c = u_escape (55296 + ?hi) @ u_escape (56320 + ?lo)" using 4 by (auto simp: escape_cp_def)
    moreover have "c - 65536 < 1024 * 1024" using assms by (auto simp: scalar_cp_def)
    then have "?hi < 1024" by (rule less_mult_imp_div_less)
    moreover have "65536 + ?hi * 1024 + ?lo = c" using 4(3) by presburger
    ultimately show ?thesis by (simp add: scan_string_u scan_u_pair)
  qed
qed

lemma scan_string_quoted:
  "list_all scalar_cp t \<Longrightarrow> scan_string (concat (map escape_cp t) @ 34 # rest) = Inr (t, rest)"
proof (induction t)
  case Nil
  show ?case by (subst scan_string.simps) simp
next
  case (Cons c t)
  then show ?case by (simp add: scan_string_escape)
qed

section \<open>Numbers are read back\<close>

text \<open>What may follow a value in the output of \<open>dumps\<close>.\<close>

definition value_end :: "cps \<Rightarrow> bool" where
  "value_end rest \<longleftrightarrow> rest = [] \<or> hd rest \<in> {44, 93, 125}"

lemma value_end_simps [simp]: "value_end []" "value_end (c # s) \<longleftrightarrow> c \<in> {44, 93, 125}"
  by (auto simp: value_end_def)

lemma digits_append:
  assumes "value_end rest"
  shows "takeWhile is_digit_cp (s @ rest) = takeWhile is_digit_cp s" "dropWhile is_digit_cp (s @ rest) = dropWhile is_digit_cp s @ rest"
proof -
  have "rest = [] \<or> \<not> is_digit_cp (hd rest)" using assms by (auto simp: value_end_def is_digit_cp_def)
  then show "takeWhile is_digit_cp (s @ rest) = takeWhile is_digit_cp s" "dropWhile is_digit_cp (s @ rest) = dropWhile is_digit_cp s @ rest"
    by (induction s; cases rest; auto)+
qed

lemma opt_sign_append:
  "value_end rest \<Longrightarrow> signs \<inter> {44, 93, 125} = {} \<Longrightarrow> opt_sign signs (s @ rest) = (fst (opt_sign signs s), snd (opt_sign signs s) @ rest)"
  by (cases s; cases rest) (auto simp: opt_sign_def)

lemma int_part_append:
  assumes "value_end rest" "int_part s = Some (i, r)"
  shows "int_part (s @ rest) = Some (i, r @ rest)"
proof -
  obtain sg t where sg: "opt_sign {45} s = (sg, t)" by fastforce
  with opt_sign_append [OF assms(1), of "{45}" s] have app: "opt_sign {45} (s @ rest) = (sg, t @ rest)" by simp
  from sg assms(2) obtain c t' where t: "t = c # t'" by (cases t) (auto simp: int_part_def)
  have "takeWhile is_digit_cp (c # t' @ rest) = takeWhile is_digit_cp (c # t')"
    "dropWhile is_digit_cp (c # t' @ rest) = dropWhile is_digit_cp (c # t') @ rest"
    using digits_append [OF assms(1), of "c # t'"] by simp_all
  with assms(2) show ?thesis by (simp add: int_part_def sg app t split: if_splits)
qed

lemma frac_part_append: "value_end rest \<Longrightarrow> frac_part (s @ rest) = (fst (frac_part s), snd (frac_part s) @ rest)"
  using digits_append [of rest]
  by (cases s; cases rest) (auto simp: frac_part_def)

lemma exp_part_append:
  assumes "value_end rest"
  shows "exp_part (s @ rest) = (fst (exp_part s), snd (exp_part s) @ rest)"
proof (cases s)
  case Nil
  then show ?thesis using assms by (cases rest) (auto simp: exp_part_def split: prod.split)
next
  case (Cons c r)
  obtain sg d where sg: "opt_sign {43, 45} r = (sg, d)" by fastforce
  with opt_sign_append [OF assms, of "{43, 45}" r] have "opt_sign {43, 45} (r @ rest) = (sg, d @ rest)" by simp
  with Cons sg digits_append [OF assms] show ?thesis by (simp add: exp_part_def)
qed

lemma scan_number_append:
  assumes "scan_number s = Inr (v, [])" "value_end rest"
  shows "scan_number (s @ rest) = Inr (v, rest)"
proof -
  from assms(1) obtain i r where i: "int_part s = Some (i, r)" by (auto simp: scan_number_def split: option.splits)
  obtain f r2 where f: "frac_part r = (f, r2)" by fastforce
  obtain e r3 where e: "exp_part r2 = (e, r3)" by fastforce
  show ?thesis
    using assms(1) int_part_append [OF assms(2) i] frac_part_append [OF assms(2), of r] exp_part_append [OF assms(2), of r2]
    by (auto simp: scan_number_def i f e split: if_splits)
qed

lemma is_digit_cp_of_char [simp]: "is_digit_cp (of_char c) = is_digit c"
  by (simp add: is_digit_cp_def is_digit_def)

lemma dec_nat_hd: "0 < n \<Longrightarrow> \<exists>d ds. dec_nat n = digit d # ds \<and> 0 < d \<and> d < 10"
proof (induction n rule: dec_nat.induct)
  case (1 n)
  show ?case
  proof (cases "n < 10")
    case True
    with 1(2) show ?thesis by (intro exI [of _ n]) (simp add: dec_nat.simps)
  next
    case False
    then have "0 < n div 10" by simp
    with 1(1) [OF False] show ?thesis using False by (subst (1) dec_nat.simps) auto
  qed
qed

lemma int_part_dec_nat:
  assumes "opt_sign {45} s = (sg, lit (dec_nat n))"
  shows "int_part s = Some (sg @ lit (dec_nat n), [])"
proof (cases "n = 0")
  case True
  then show ?thesis using assms by (simp add: int_part_def dec_nat.simps lit_def digit_def)
next
  case False
  then obtain d ds where d: "dec_nat n = digit d # ds" "0 < d" "d < 10" using dec_nat_hd [of n] by auto
  have all: "list_all is_digit_cp (lit (dec_nat n))" using dec_nat_digits [of n] by (auto simp: list_all_iff lit_def)
  then have "takeWhile is_digit_cp (lit (dec_nat n)) = lit (dec_nat n)" "dropWhile is_digit_cp (lit (dec_nat n)) = []"
    by (auto simp: list_all_iff takeWhile_eq_all_conv dropWhile_eq_Nil_conv)
  moreover have "of_char (digit d) = 48 + d" using d(3) by (simp add: digit_def)
  ultimately show ?thesis using assms all d by (simp add: int_part_def lit_def)
qed

lemma scan_int: "scan_number (lit (dec_int i)) = Inr (JInt i, [])"
proof -
  define n where "n = nat (if i < 0 then - i else i)"
  have dec: "dec_int i = (if i < 0 then CHR ''-'' # dec_nat n else dec_nat n)" by (simp add: dec_int_def n_def)
  have nd: "hd (lit (dec_nat n)) \<noteq> 45" "lit (dec_nat n) \<noteq> []"
    using dec_nat_digits [of n] dec_nat_not_Nil [of n] by (cases "dec_nat n"; auto simp: lit_def is_digit_def)+
  then have "opt_sign {45} (lit (dec_int i)) = (if i < 0 then [45] else [], lit (dec_nat n))"
    by (cases "lit (dec_nat n)") (auto simp: dec opt_sign_def lit_def)
  from int_part_dec_nat [OF this] have "int_part (lit (dec_int i)) = Some ((if i < 0 then [45] else []) @ lit (dec_nat n), [])" .
  moreover have "int_of_cps ((if i < 0 then [45] else []) @ lit (dec_nat n)) = i"
  proof -
    obtain z zs where z: "dec_nat n = z # zs" using dec_nat_not_Nil [of n] by (cases "dec_nat n") auto
    then have "nat_of_digits (z # zs) = n" by (metis nat_of_digits_dec_nat)
    moreover have "of_char z \<noteq> (45 :: nat)" using nd(1) by (simp add: lit_def z)
    moreover have "int n = (if i < 0 then - i else i)" by (simp add: n_def)
    ultimately show ?thesis by (auto simp: int_of_cps_def lit_def z comp_def)
  qed
  ultimately show ?thesis by (simp add: scan_number_def frac_part_def exp_part_def)
qed

section \<open>Values are read back\<close>

text \<open>
  The values Python can hold: strings of Unicode scalar values, floats with the text of their \<open>repr\<close>, dictionaries
  with distinct keys.
\<close>

fun wf_json :: "json \<Rightarrow> bool" and wf_items :: "json list \<Rightarrow> bool" and wf_fields :: "(cps \<times> json) list \<Rightarrow> bool" where
  "wf_json JNull = True"
| "wf_json (JBool b) = True"
| "wf_json (JInt i) = True"
| "wf_json (JFloat t) = (scan_number t = Inr (JFloat t, []))"
| "wf_json (JStr s) = list_all scalar_cp s"
| "wf_json (JArr vs) = wf_items vs"
| "wf_json (JObj kvs) = (distinct (map fst kvs) \<and> wf_fields kvs)"
| "wf_items [] = True"
| "wf_items (v # vs) = (wf_json v \<and> wf_items vs)"
| "wf_fields [] = True"
| "wf_fields (kv # kvs) = (list_all scalar_cp (fst kv) \<and> wf_json (snd kv) \<and> wf_fields kvs)"

lemma dset_new: "k \<notin> fst ` set d \<Longrightarrow> dset k v d = d @ [(k, v)]"
  by (induction d) auto

lemma dict_of_distinct: "distinct (map fst kvs) \<Longrightarrow> dict_of kvs = kvs"
proof -
  have "foldl (\<lambda>d (k, v). dset k v d) d kvs = d @ kvs" if "distinct (map fst (d @ kvs))" for d
    using that
  proof (induction kvs arbitrary: d)
    case (Cons kv kvs)
    obtain k v where kv: "kv = (k, v)" by fastforce
    have "k \<notin> fst ` set d" using Cons.prems kv by auto
    then have "dset k v d = d @ [(k, v)]" by (rule dset_new)
    with Cons.IH [of "d @ [(k, v)]"] Cons.prems show ?case by (simp add: kv)
  qed simp
  then show "distinct (map fst kvs) \<Longrightarrow> dict_of kvs = kvs" by (simp add: dict_of_def)
qed

lemma skip_ws_at [simp]: "\<not> is_ws c \<Longrightarrow> skip_ws (c # s) = c # s" "is_ws c \<Longrightarrow> skip_ws (c # s) = skip_ws s" "skip_ws [] = []"
  by (simp_all add: skip_ws_def)

lemma is_ws_simps [simp]: "is_ws 32" "\<not> is_ws 44" "\<not> is_ws 58" "\<not> is_ws 93" "\<not> is_ws 125" "\<not> is_ws 34" "\<not> is_ws 91" "\<not> is_ws 123"
  by (simp_all add: is_ws_def)

lemma value_end_skip: "value_end s \<Longrightarrow> skip_ws s = s"
  by (cases s) auto

text \<open>The first character of a value tells its kind; it is not white space and no closing bracket.\<close>

definition starts_value :: "nat \<Rightarrow> bool" where
  "starts_value c \<longleftrightarrow> c \<in> {34, 91, 123, 110, 116, 102, 45} \<or> is_digit_cp c"

lemma starts_value_simps: "starts_value c \<Longrightarrow> \<not> is_ws c" "starts_value c \<Longrightarrow> c \<noteq> 93"
  by (auto simp: starts_value_def is_ws_def is_digit_cp_def)

lemma scan_number_starts:
  assumes "scan_number s = Inr (v, r)"
  shows "\<exists>c s'. s = c # s' \<and> (c = 45 \<or> is_digit_cp c)"
  using assms by (cases s) (auto simp: scan_number_def int_part_def opt_sign_def is_digit_cp_def split: option.splits if_splits list.splits)

lemma dumps_starts: "wf_json v \<Longrightarrow> \<exists>c s. dumps v = c # s \<and> starts_value c"
proof (cases v)
  case (JInt i)
  with scan_number_starts [OF scan_int [of i]] show ?thesis by (auto simp: starts_value_def)
next
  case (JFloat t)
  assume "wf_json v"
  with JFloat scan_number_starts [of t] show ?thesis by (auto simp: starts_value_def)
qed (auto simp: starts_value_def lit_def quote_cps_def)

lemma dumps_skip: "wf_json v \<Longrightarrow> skip_ws (dumps v @ rest) = dumps v @ rest"
  using dumps_starts [of v] starts_value_simps(1) by auto

lemma scan_value_number:
  assumes "scan_number s = Inr (v, [])" "value_end rest"
  shows "scan_value (Suc n) (s @ rest) = Inr (v, rest)"
proof -
  obtain c s' where s: "s = c # s'" "c = 45 \<or> is_digit_cp c" using scan_number_starts [OF assms(1)] by blast
  then have "c \<notin> {34, 123, 91, 110, 116, 102}" by (auto simp: is_digit_cp_def)
  with s(1) scan_number_append [OF assms] show ?thesis by (auto simp: lit_def)
qed

lemma scan_value_string: "list_all scalar_cp t \<Longrightarrow> scan_value (Suc n) (quote_cps t @ rest) = Inr (JStr t, rest)"
  by (simp add: quote_cps_def scan_string_quoted)

lemma items_start: "wf_items vs \<Longrightarrow> vs \<noteq> [] \<Longrightarrow> \<exists>c s. dumps_items vs = c # s \<and> starts_value c"
  using dumps_starts by (cases vs) force+

lemma items_step:
  assumes "scan_value n (dumps v @ t) = Inr (v, t)" "t = (if vs = [] then 93 # rest else 44 # 32 # dumps_items vs @ rest)"
    and "vs = [] \<or> scan_items n (dumps_items vs @ rest) = Inr (vs, rest)" "wf_items vs"
  shows "scan_items (Suc n) (dumps v @ t) = Inr (v # vs, rest)"
proof (cases "vs = []")
  case True
  with assms(1,2) show ?thesis by simp
next
  case False
  then obtain c s where "dumps_items vs = c # s" "starts_value c" using items_start [OF assms(4)] by blast
  then have "skip_ws (dumps_items vs @ rest) = dumps_items vs @ rest" using starts_value_simps(1) by simp
  with assms False show ?thesis by simp
qed

lemma fields_step:
  assumes "list_all scalar_cp k" "wf_json v"
    and "scan_value n (dumps v @ t) = Inr (v, t)" "t = (if kvs = [] then 125 # rest else 44 # 32 # dumps_fields kvs @ rest)"
    and "kvs = [] \<or> scan_fields n (dumps_fields kvs @ rest) = Inr (kvs, rest)"
  shows "scan_fields (Suc n) (quote_cps k @ 58 # 32 # dumps v @ t) = Inr ((k, v) # kvs, rest)"
proof -
  have skip: "skip_ws (32 # dumps v @ t) = dumps v @ t" using dumps_skip [OF assms(2)] by simp
  have str: "scan_string (concat (map escape_cp k) @ 34 # 58 # 32 # dumps v @ t) = Inr (k, 58 # 32 # dumps v @ t)"
    using assms(1) by (rule scan_string_quoted)
  show ?thesis
  proof (cases kvs)
    case Nil
    with assms(3,4) str skip show ?thesis by (simp add: quote_cps_def)
  next
    case (Cons kv kvs')
    then have "skip_ws (32 # dumps_fields kvs @ rest) = dumps_fields kvs @ rest" by (simp add: quote_cps_def)
    with assms(3-5) str skip Cons show ?thesis by (simp add: quote_cps_def del: dumps_fields.simps)
  qed
qed

lemma scan_dumps:
  "wf_json v \<Longrightarrow> value_end rest \<Longrightarrow> length (dumps v) \<le> n \<Longrightarrow> scan_value n (dumps v @ rest) = Inr (v, rest)"
  "wf_items vs \<Longrightarrow> vs \<noteq> [] \<Longrightarrow> length (dumps_items vs) \<le> n \<Longrightarrow> scan_items n (dumps_items vs @ rest) = Inr (vs, rest)"
  "wf_fields kvs \<Longrightarrow> kvs \<noteq> [] \<Longrightarrow> length (dumps_fields kvs) \<le> n \<Longrightarrow> scan_fields n (dumps_fields kvs @ rest) = Inr (kvs, rest)"
proof (induction v and vs and kvs arbitrary: n rest and n rest and n rest rule: dumps_dumps_items_dumps_fields.induct)
  case 1
  then obtain m where "n = Suc m" by (cases n) (auto simp: lit_def)
  then show ?case by (simp add: lit_def)
next
  case (2 b)
  then obtain m where "n = Suc m" by (cases n) (auto simp: lit_def split: if_splits)
  then show ?case by (simp add: lit_def)
next
  case (3 i)
  then obtain m where "n = Suc m" using scan_number_starts [OF scan_int [of i]] by (cases n) auto
  with 3 scan_value_number [OF scan_int] show ?case by (simp del: scan_value.simps)
next
  case (4 t)
  then obtain m where "n = Suc m" using scan_number_starts [of t] by (cases n) auto
  with 4 scan_value_number [of t] show ?case by (simp del: scan_value.simps)
next
  case (5 s)
  then obtain m where "n = Suc m" by (cases n) (auto simp: quote_cps_def)
  with 5 scan_value_string [of s] show ?case by (simp del: scan_value.simps)
next
  case (6 vs)
  then obtain m where n: "n = Suc m" by (cases n) auto
  show ?case
  proof (cases "vs = []")
    case False
    then obtain c s where c: "dumps_items vs = c # s" "starts_value c" using items_start [of vs] 6(2) by fastforce
    with False 6 n starts_value_simps [OF c(2)] show ?thesis by simp
  qed (simp add: n)
next
  case (7 kvs)
  then obtain m where n: "n = Suc m" by (cases n) auto
  show ?case
  proof (cases "kvs = []")
    case False
    then obtain s where s: "dumps_fields kvs = 34 # s" by (cases kvs) (auto simp: quote_cps_def)
    with False 7 n show ?thesis by (simp add: dict_of_distinct)
  qed (simp add: n)
next
  case (9 v vs)
  then obtain m where n: "n = Suc m" by (cases n) (auto simp: lit_def split: if_splits)
  let ?t = "if vs = [] then 93 # rest else 44 # 32 # dumps_items vs @ rest"
  have "scan_value m (dumps v @ ?t) = Inr (v, ?t)" using 9 n by (intro "9.IH"(1)) (auto simp: lit_def split: if_splits)
  moreover have "vs = [] \<or> scan_items m (dumps_items vs @ rest) = Inr (vs, rest)"
    using 9 n by (intro disjCI "9.IH"(2)) (auto simp: lit_def split: if_splits)
  ultimately have "scan_items n (dumps v @ ?t) = Inr (v # vs, rest)" unfolding n using 9(3) by (intro items_step) auto
  then show ?case by (simp add: lit_def split: if_splits)
next
  case (11 kv kvs)
  then obtain m where n: "n = Suc m" by (cases n) (auto simp: quote_cps_def)
  let ?t = "if kvs = [] then 125 # rest else 44 # 32 # dumps_fields kvs @ rest"
  have "scan_value m (dumps (snd kv) @ ?t) = Inr (snd kv, ?t)"
    using 11 n by (intro "11.IH"(1)) (auto simp: lit_def split: if_splits)
  moreover have "kvs = [] \<or> scan_fields m (dumps_fields kvs @ rest) = Inr (kvs, rest)"
    using 11 n by (intro disjCI "11.IH"(2)) (auto simp: lit_def split: if_splits)
  ultimately have "scan_fields n (quote_cps (fst kv) @ 58 # 32 # dumps (snd kv) @ ?t) = Inr ((fst kv, snd kv) # kvs, rest)"
    unfolding n using 11(3) by (intro fields_step) auto
  then show ?case by (simp add: lit_def split: if_splits)
qed simp_all

lemma loads_dumps: "wf_json v \<Longrightarrow> loads (dumps v) = Inr v"
  using scan_dumps(1) [of v "[]" "length (dumps v) + 1"] dumps_skip [of v "[]"] by (simp add: loads_def)

text \<open>What \<open>dumps\<close> writes contains printable ASCII characters only, so it never breaks a line.\<close>

lemma escape_printable: "c \<in> set (escape_cp x) \<Longrightarrow> 32 \<le> c \<and> c \<le> 126"
proof -
  have "32 \<le> hex_cp d \<and> hex_cp d \<le> 126" if "d < 16" for d using that by (auto simp: hex_cp_def)
  then have hex: "32 \<le> hex_cp (n mod 16)" "hex_cp (n mod 16) \<le> 126" for n by simp_all
  have u: "c \<in> set (u_escape y) \<Longrightarrow> 32 \<le> c \<and> c \<le> 126" for y
    using hex [of "y div 4096"] hex [of "y div 256"] hex [of "y div 16"] hex [of y] unfolding u_escape_def by auto
  show "c \<in> set (escape_cp x) \<Longrightarrow> 32 \<le> c \<and> c \<le> 126"
    using u unfolding escape_cp_def by (auto split: if_splits)
qed

lemma quote_printable: "c \<in> set (quote_cps s) \<Longrightarrow> 32 \<le> c \<and> c \<le> 126"
  using escape_printable by (auto simp: quote_cps_def)

definition printable :: "cps \<Rightarrow> bool" where
  "printable s \<longleftrightarrow> list_all (\<lambda>c. 32 \<le> c \<and> c \<le> 126) s"

lemma printable_simps [simp]:
  "printable []" "printable (c # s) \<longleftrightarrow> 32 \<le> c \<and> c \<le> 126 \<and> printable s" "printable (s @ t) \<longleftrightarrow> printable s \<and> printable t"
  by (auto simp: printable_def)

lemma digits_printable: "printable (takeWhile is_digit_cp s)"
  unfolding printable_def list_all_iff by (auto dest!: set_takeWhileD simp: is_digit_cp_def)

lemma number_printable:
  "int_part s = Some (i, r) \<Longrightarrow> printable i" "frac_part s = (f, r) \<Longrightarrow> printable f" "exp_part s = (e, r) \<Longrightarrow> printable e"
proof -
  have sign: "opt_sign signs t = (sg, u) \<Longrightarrow> signs \<subseteq> {43, 45} \<Longrightarrow> printable sg" for signs t sg u
    by (cases t) (auto simp: opt_sign_def split: if_splits)
  obtain sg t where sg: "opt_sign {45} s = (sg, t)" by fastforce
  show "int_part s = Some (i, r) \<Longrightarrow> printable i"
    using sign [OF sg] digits_printable [of t] by (auto simp: int_part_def sg split: list.splits if_splits)
  show "frac_part s = (f, r) \<Longrightarrow> printable f"
    using digits_printable [of "tl s"] by (auto simp: frac_part_def split: list.splits if_splits)
  show "exp_part s = (e, r) \<Longrightarrow> printable e"
  proof (cases s)
    case (Cons c s')
    obtain sg d where sg: "opt_sign {43, 45} s' = (sg, d)" by fastforce
    assume "exp_part s = (e, r)"
    with Cons sign [OF sg] digits_printable [of d] show ?thesis by (auto simp: exp_part_def sg split: if_splits)
  qed (simp add: exp_part_def)
qed

lemma dec_int_printable: "printable (lit (dec_int i))"
proof -
  have "32 \<le> (of_char c :: nat) \<and> (of_char c :: nat) \<le> 126" if "c \<in> set (dec_int i)" for c
    using set_dec_int [OF that] by (auto simp: is_digit_def)
  then show ?thesis by (simp add: printable_def list_all_iff lit_def)
qed

lemma dumps_printable:
  "wf_json v \<Longrightarrow> printable (dumps v)" "wf_items vs \<Longrightarrow> printable (dumps_items vs)" "wf_fields kvs \<Longrightarrow> printable (dumps_fields kvs)"
proof (induction v and vs and kvs rule: dumps_dumps_items_dumps_fields.induct)
  case (4 t)
  then obtain i r f r2 e r3 where "int_part t = Some (i, r)" "frac_part r = (f, r2)" "exp_part r2 = (e, r3)" "t = i @ f @ e"
    by (auto simp: scan_number_def split: option.splits prod.splits if_splits)
  then show ?case using number_printable by simp
next
  case (11 kv kvs)
  then show ?case using quote_printable [of _ "fst kv"] by (auto simp: lit_def printable_def list_all_iff)
qed (use quote_printable in \<open>auto simp: lit_def dec_int_printable [unfolded lit_def] printable_def [of "quote_cps _"] list_all_iff\<close>)

end
