(* ===== verification/History_File.thy ===== *)
theory History_File
  imports Py_Json Exp1_Analysis
begin

text \<open>
  The history file as text: \<open>recorder.py\<close> writes one JSON line per call of \<open>record\<close>, and every analysis
  reads the file line by line.  Elsewhere a history is the sequence of its events; this theory shows that
  nothing is lost on the way through the file.  Each character of a string of the model is one code point.
\<close>

section \<open>Writing and reading lines\<close>

text \<open>\<open>HistoryRecorder.record\<close>; \<open>t\<close> is what \<open>time.time_ns()\<close> gives.\<close>

definition setdefault :: "'k \<Rightarrow> 'v \<Rightarrow> ('k, 'v) pydict \<Rightarrow> ('k, 'v) pydict" where
  "setdefault k v d = (if k \<in> fst ` set d then d else d @ [(k, v)])"

definition record_line :: "(cps, json) pydict \<Rightarrow> int \<Rightarrow> cps" where
  "record_line kws t = dumps (JObj (setdefault (lit ''wall_ns'') (JInt t) kws)) @ [10]"

text \<open>Iterating over a file opened in text mode: \<open>\r\n\<close> and \<open>\r\<close> count as line ends too.\<close>

fun universal_newlines :: "cps \<Rightarrow> cps" where
  "universal_newlines [] = []"
| "universal_newlines (c # s) =
     (if c = 13 then 10 # universal_newlines (if take 1 s = [10] then drop 1 s else s) else c # universal_newlines s)"

fun split_lines :: "cps \<Rightarrow> cps list" where
  "split_lines [] = [[]]"
| "split_lines (c # s) =
     (if c = 10 then [] # split_lines s else (case split_lines s of l # ls \<Rightarrow> (c # l) # ls | [] \<Rightarrow> [[c]]))"

definition is_space_cp :: "nat \<Rightarrow> bool" where
  "is_space_cp c \<longleftrightarrow>
     9 \<le> c \<and> c \<le> 13 \<or> 28 \<le> c \<and> c \<le> 32 \<or> c = 133 \<or> c = 160 \<or> c = 5760 \<or> 8192 \<le> c \<and> c \<le> 8202 \<or>
     c \<in> {8232, 8233, 8239, 8287, 12288}"

definition strip_cps :: "cps \<Rightarrow> cps" where
  "strip_cps s = rev (dropWhile is_space_cp (rev (dropWhile is_space_cp s)))"

text \<open>\<open>for line in f: line = line.strip(); if line: events.append(json.loads(line))\<close>\<close>

definition load :: "cps \<Rightarrow> json list result" where
  "load content = map_res loads (filter (\<lambda>l. l \<noteq> []) (map strip_cps (split_lines (universal_newlines content))))"

text \<open>
  The recorder as an object: the constructor opens the file for appending, so a history that is already there is
  kept, and \<open>record\<close> after \<open>close\<close> raises \<open>ValueError\<close> (I/O operation on closed file).
\<close>

record recorder =
  rc_path :: py_str
  rc_open :: bool

type_synonym text_files = "(py_str, cps) pydict"

definition recorder_init :: "py_str \<Rightarrow> text_files \<Rightarrow> recorder \<times> text_files" where
  "recorder_init path fs = (\<lparr>rc_path = path, rc_open = True\<rparr>, dset path (dget_default fs path []) fs)"

definition recorder_record :: "recorder \<Rightarrow> (cps, json) pydict \<Rightarrow> text_files \<times> world \<Rightarrow> unit result \<times> text_files \<times> world" where
  "recorder_record rc kws s =
     (let (t, w) = now_ns (snd s); line = record_line kws t
      in if rc_open rc then (Inr (), dset (rc_path rc) (dget_default (fst s) (rc_path rc) [] @ line) (fst s), w)
         else (Inl ValueError, fst s, w))"

definition recorder_close :: "recorder \<Rightarrow> recorder" where
  "recorder_close rc = rc\<lparr>rc_open := False\<rparr>"

section \<open>The file is read back\<close>

lemma setdefault_distinct: "distinct (map fst d) \<Longrightarrow> distinct (map fst (setdefault k v d))"
  by (auto simp: setdefault_def)

lemma wf_setdefault: "wf_fields d \<Longrightarrow> list_all scalar_cp k \<Longrightarrow> wf_json v \<Longrightarrow> wf_fields (setdefault k v d)"
  by (induction d) (auto simp: setdefault_def)

lemma lit_scalar: "list_all scalar_cp (lit s)"
proof -
  have "(of_char c :: nat) < 256" for c by (metis of_char_mod_256 mod_less_divisor zero_less_numeral)
  moreover have "scalar_cp n" if "n < 256" for n using that by (simp add: scalar_cp_def)
  ultimately have "scalar_cp (of_char c)" for c by blast
  then show ?thesis by (simp add: list_all_iff lit_def)
qed

lemma universal_printable: "list_all (\<lambda>c. c \<noteq> 13) s \<Longrightarrow> universal_newlines s = s"
  by (induction s rule: universal_newlines.induct) auto

lemma split_lines_line: "10 \<notin> set l \<Longrightarrow> split_lines (l @ 10 # s) = l # split_lines s"
  by (induction l) auto

lemma strip_object:
  assumes "printable l" "l = 123 # l'" "last l = 125"
  shows "strip_cps l = l"
proof -
  obtain k where "rev l = 125 # k" using assms(2,3) by (cases "rev l") (auto simp: last_conv_nth hd_rev simp flip: hd_rev)
  moreover have "\<not> is_space_cp 125" "\<not> is_space_cp 123" by (simp_all add: is_space_cp_def)
  ultimately have "dropWhile is_space_cp (rev l) = rev l" "dropWhile is_space_cp l = l" using assms(2) by simp_all
  then show ?thesis by (simp add: strip_cps_def)
qed

lemma object_line:
  assumes "wf_json (JObj kvs)"
  shows "printable (dumps (JObj kvs))" "strip_cps (dumps (JObj kvs)) = dumps (JObj kvs)" "10 \<notin> set (dumps (JObj kvs))"
    "13 \<notin> set (dumps (JObj kvs))"
proof -
  show pr: "printable (dumps (JObj kvs))" by (rule dumps_printable(1) [OF assms])
  then show "10 \<notin> set (dumps (JObj kvs))" "13 \<notin> set (dumps (JObj kvs))" by (auto simp: printable_def list_all_iff)
  have "last (dumps_fields kvs) = 125 \<and> dumps_fields kvs \<noteq> []" for kvs by (induction kvs) (auto simp: lit_def)
  then have "last (dumps (JObj kvs)) = 125" by simp
  with pr show "strip_cps (dumps (JObj kvs)) = dumps (JObj kvs)" by (intro strip_object) auto
qed

lemma load_line:
  assumes "wf_json (JObj kvs)" "list_all (\<lambda>c. c \<noteq> 13) content"
  shows "load (dumps (JObj kvs) @ 10 # content) = bind_res (load content) (\<lambda>js. Inr (JObj kvs # js))"
proof -
  note line = object_line [OF assms(1)]
  have "universal_newlines (dumps (JObj kvs) @ 10 # content) = dumps (JObj kvs) @ 10 # content" "universal_newlines content = content"
    using line(4) assms(2) by (auto intro!: universal_printable simp: list_all_iff)
  moreover have "dumps (JObj kvs) \<noteq> []" by simp
  ultimately show ?thesis using line(2,3) loads_dumps [OF assms(1)] by (simp add: load_def split_lines_line del: dumps.simps)
qed

lemma load_objects:
  assumes "list_all (\<lambda>kvs. wf_json (JObj kvs)) ds"
  shows "load (concat (map (\<lambda>kvs. dumps (JObj kvs) @ [10]) ds)) = Inr (map JObj ds)"
proof -
  have "list_all (\<lambda>c. c \<noteq> 13) (concat (map (\<lambda>kvs. dumps (JObj kvs) @ [10]) ds))"
    if "list_all (\<lambda>kvs. wf_json (JObj kvs)) ds" for ds
    using that object_line(4) by (induction ds) (force simp: list_all_iff simp del: dumps.simps)+
  with assms show ?thesis
  proof (induction ds)
    case Nil
    show ?case by (simp add: load_def strip_cps_def)
  next
    case (Cons d ds)
    then show ?case using load_line [of d "concat (map (\<lambda>kvs. dumps (JObj kvs) @ [10]) ds)"] by (simp del: dumps.simps)
  qed
qed

section \<open>Events as documents\<close>

text \<open>What \<open>ev.get(key)\<close> gives for the keys that the readers use.\<close>

definition get_str :: "(cps, json) pydict \<Rightarrow> py_str \<Rightarrow> py_str option" where
  "get_str d k = (case dget d (lit k) of Some (JStr s) \<Rightarrow> Some (map char_of s) | _ \<Rightarrow> None)"

definition get_int :: "(cps, json) pydict \<Rightarrow> py_str \<Rightarrow> int option" where
  "get_int d k = (case dget d (lit k) of Some (JInt i) \<Rightarrow> Some i | _ \<Rightarrow> None)"

definition event_of_json :: "json \<Rightarrow> hist_event" where
  "event_of_json j =
     (case j of
        JObj d \<Rightarrow>
          \<lparr>e_op = get_str d ''op'', e_task_id = get_str d ''task_id'', e_submitted_ns = get_int d ''submitted_ns'',
           e_completed_ns = get_int d ''completed_ns'', e_call_ns = get_int d ''call_ns'', e_return_ns = get_int d ''return_ns'',
           e_wall_ns = get_int d ''wall_ns'', e_killed_ns = get_int d ''killed_ns'', e_status = get_str d ''status'',
           e_node_id = get_str d ''node_id'', e_redelivered = get_int d ''redelivered'', e_commit_index = get_int d ''commit_index'',
           e_info = []\<rparr>
      | _ \<Rightarrow> (event_of [])\<lparr>e_op := None\<rparr>)"

text \<open>The keyword arguments by which a call of \<open>record\<close> passes the fields of an event; \<open>call_passes\<close> lets them
  stand in any order and among others that no reader looks at.\<close>

definition str_field :: "py_str \<Rightarrow> py_str option \<Rightarrow> (cps, json) pydict" where
  "str_field k v = (case v of None \<Rightarrow> [] | Some s \<Rightarrow> [(lit k, JStr (lit s))])"

definition int_field :: "py_str \<Rightarrow> int option \<Rightarrow> (cps, json) pydict" where
  "int_field k v = (case v of None \<Rightarrow> [] | Some i \<Rightarrow> [(lit k, JInt i)])"

definition event_kwargs :: "hist_event \<Rightarrow> (cps, json) pydict" where
  "event_kwargs ev =
     str_field ''op'' (e_op ev) @ str_field ''task_id'' (e_task_id ev) @ int_field ''submitted_ns'' (e_submitted_ns ev) @
     int_field ''completed_ns'' (e_completed_ns ev) @ int_field ''call_ns'' (e_call_ns ev) @ int_field ''return_ns'' (e_return_ns ev) @
     int_field ''wall_ns'' (e_wall_ns ev) @ int_field ''killed_ns'' (e_killed_ns ev) @ str_field ''status'' (e_status ev) @
     str_field ''node_id'' (e_node_id ev) @ int_field ''redelivered'' (e_redelivered ev) @
     int_field ''commit_index'' (e_commit_index ev)"

definition reader_keys :: "py_str list" where
  "reader_keys = [''op'', ''task_id'', ''submitted_ns'', ''completed_ns'', ''call_ns'', ''return_ns'', ''wall_ns'', ''killed_ns'',
     ''status'', ''node_id'', ''redelivered'', ''commit_index'']"

definition call_passes :: "hist_event \<Rightarrow> (cps, json) pydict \<Rightarrow> bool" where
  "call_passes ev kws \<longleftrightarrow>
     wf_json (JObj kws) \<and> list_all (\<lambda>k. dget kws (lit k) = dget (event_kwargs ev) (lit k)) reader_keys"

lemma dget_fields [simp]:
  "dget (str_field k v) (lit k') = (if k = k' then map_option (JStr \<circ> lit) v else None)"
  "dget (int_field k i) (lit k') = (if k = k' then map_option JInt i else None)"
  by (auto simp: str_field_def int_field_def split: option.split)

lemma kwargs_keys:
  "dget (event_kwargs ev) (lit ''op'') = map_option (JStr \<circ> lit) (e_op ev)"
  "dget (event_kwargs ev) (lit ''task_id'') = map_option (JStr \<circ> lit) (e_task_id ev)"
  "dget (event_kwargs ev) (lit ''submitted_ns'') = map_option JInt (e_submitted_ns ev)"
  "dget (event_kwargs ev) (lit ''completed_ns'') = map_option JInt (e_completed_ns ev)"
  "dget (event_kwargs ev) (lit ''call_ns'') = map_option JInt (e_call_ns ev)"
  "dget (event_kwargs ev) (lit ''return_ns'') = map_option JInt (e_return_ns ev)"
  "dget (event_kwargs ev) (lit ''wall_ns'') = map_option JInt (e_wall_ns ev)"
  "dget (event_kwargs ev) (lit ''killed_ns'') = map_option JInt (e_killed_ns ev)"
  "dget (event_kwargs ev) (lit ''status'') = map_option (JStr \<circ> lit) (e_status ev)"
  "dget (event_kwargs ev) (lit ''node_id'') = map_option (JStr \<circ> lit) (e_node_id ev)"
  "dget (event_kwargs ev) (lit ''redelivered'') = map_option JInt (e_redelivered ev)"
  "dget (event_kwargs ev) (lit ''commit_index'') = map_option JInt (e_commit_index ev)"
  by (simp_all add: event_kwargs_def map_add_def split: option.split)

lemma event_of_call:
  assumes "call_passes ev kws"
  shows "event_of_json (JObj kws) = ev\<lparr>e_info := []\<rparr>"
  using assms
  by (cases ev)
    (simp add: call_passes_def reader_keys_def kwargs_keys event_of_json_def get_str_def get_int_def split: option.split)

text \<open>\<open>setdefault\<close> on the keyword arguments does what \<open>stamp\<close> does on the event.\<close>

lemma stamp_call:
  assumes "call_passes ev kws"
  shows "call_passes (stamp t ev) (setdefault (lit ''wall_ns'') (JInt t) kws)"
proof -
  have wall: "dget kws (lit ''wall_ns'') = map_option JInt (e_wall_ns ev)"
    using assms by (simp add: call_passes_def reader_keys_def kwargs_keys)
  have "wf_json (JObj (setdefault (lit ''wall_ns'') (JInt t) kws))"
    using assms by (simp add: call_passes_def setdefault_distinct wf_setdefault lit_scalar)
  moreover have "list_all (\<lambda>k. dget (setdefault (lit ''wall_ns'') (JInt t) kws) (lit k) = dget (event_kwargs (stamp t ev)) (lit k))
      reader_keys"
  proof (cases "e_wall_ns ev")
    case None
    with wall have "lit ''wall_ns'' \<notin> fst ` set kws" by (simp add: dom_map_of_conv_image_fst [symmetric] domIff)
    then show ?thesis using assms None wall
      by (simp add: call_passes_def reader_keys_def setdefault_def kwargs_keys map_add_def stamp_def split: option.split)
  next
    case (Some w)
    with wall have "lit ''wall_ns'' \<in> fst ` set kws" by (simp add: dom_map_of_conv_image_fst [symmetric] domIff)
    then show ?thesis using assms Some by (simp add: call_passes_def setdefault_def stamp_def)
  qed
  ultimately show ?thesis by (simp only: call_passes_def)
qed

section \<open>The file refines the history\<close>

text \<open>\<open>record\<close> on the text of the file, as \<open>record_event\<close> is on the sequence of events.\<close>

definition record_text :: "(cps, json) pydict \<Rightarrow> cps \<times> world \<Rightarrow> cps \<times> world" where
  "record_text kws s = (let (t, w) = now_ns (snd s) in (fst s @ record_line kws t, w))"

definition load_events :: "cps \<Rightarrow> hist_event list result" where
  "load_events content = bind_res (load content) (\<lambda>js. Inr (map event_of_json js))"

definition file_shows :: "cps \<Rightarrow> history \<Rightarrow> bool" where
  "file_shows content h \<longleftrightarrow>
     (\<exists>ds. list_all (\<lambda>kvs. wf_json (JObj kvs)) ds \<and> content = concat (map (\<lambda>kvs. dumps (JObj kvs) @ [10]) ds) \<and>
        map (\<lambda>kvs. event_of_json (JObj kvs)) ds = map (e_info_update (\<lambda>_. [])) (events_of h))"

lemma file_shows_init: "file_shows [] []"
  unfolding file_shows_def by (rule exI [of _ "[]"]) simp

lemma file_shows_record:
  assumes "file_shows content h" "call_passes ev kws"
  shows "file_shows (fst (record_text kws (content, w))) (fst (record_event ev (h, w)))"
    "snd (record_text kws (content, w)) = snd (record_event ev (h, w))"
proof -
  let ?t = "int (w_ns (tick w))"
  let ?d = "setdefault (lit ''wall_ns'') (JInt ?t) kws"
  from assms(1) obtain ds where ds: "list_all (\<lambda>kvs. wf_json (JObj kvs)) ds"
      "content = concat (map (\<lambda>kvs. dumps (JObj kvs) @ [10]) ds)"
      "map (\<lambda>kvs. event_of_json (JObj kvs)) ds = map (e_info_update (\<lambda>_. [])) (events_of h)"
    unfolding file_shows_def by blast
  note call = stamp_call [OF assms(2), of ?t]
  then have "wf_json (JObj ?d)" by (simp only: call_passes_def)
  moreover have "fst (record_text kws (content, w)) = content @ dumps (JObj ?d) @ [10]"
    by (simp add: record_text_def record_line_def now_ns_def Let_def)
  ultimately show "file_shows (fst (record_text kws (content, w))) (fst (record_event ev (h, w)))"
    unfolding file_shows_def using ds event_of_call [OF call]
    by (intro exI [of _ "ds @ [?d]"]) (simp add: record_event_eq del: dumps.simps wf_json.simps)
  show "snd (record_text kws (content, w)) = snd (record_event ev (h, w))"
    by (simp add: record_text_def record_event_def now_ns_def Let_def)
qed

lemma file_shows_fold:
  assumes "list_all2 call_passes evs kwss" "file_shows content h"
  shows "file_shows (fst (fold record_text kwss (content, w))) (fst (fold record_event evs (h, w))) \<and>
     snd (fold record_text kwss (content, w)) = snd (fold record_event evs (h, w))"
  using assms
proof (induction evs kwss arbitrary: content h w rule: list_all2_induct)
  case (Cons ev evs kws kwss)
  obtain content' w' where t: "record_text kws (content, w) = (content', w')" by fastforce
  obtain h' w'' where h: "record_event ev (h, w) = (h', w'')" by fastforce
  from file_shows_record [OF Cons.prems Cons.hyps(1), of w] have "file_shows content' h'" "w' = w''" by (simp_all add: t h)
  then show ?case using Cons.IH [of content' h' w'] by (simp add: t h)
qed simp

lemma load_file_shows:
  assumes "file_shows content h"
  shows "load_events content = Inr (map (e_info_update (\<lambda>_. [])) (events_of h))"
  using assms load_objects unfolding file_shows_def load_events_def by (fastforce simp: comp_def simp del: dumps.simps)

text \<open>
  Calls on the recorders of a process, in the order in which they take effect: a history file only ever grows, by
  whole lines, whatever is opened, recorded or closed, and a recorder that is closed adds nothing.
\<close>

datatype recorder_call = OpenCall py_str | RecordCall nat "(cps, json) pydict" | CloseCall nat

definition recorder_step :: "recorder_call \<Rightarrow> recorder list \<times> text_files \<times> world \<Rightarrow> recorder list \<times> text_files \<times> world" where
  "recorder_step c s =
     (case s of (rcs, fs, w) \<Rightarrow>
        case c of
          OpenCall path \<Rightarrow> (case recorder_init path fs of (rc, fs') \<Rightarrow> (rcs @ [rc], fs', w))
        | RecordCall i kws \<Rightarrow> if i < length rcs then (rcs, snd (recorder_record (rcs ! i) kws (fs, w))) else s
        | CloseCall i \<Rightarrow> if i < length rcs then (rcs[i := recorder_close (rcs ! i)], fs, w) else s)"

definition whole_lines :: "cps \<Rightarrow> bool" where
  "whole_lines txt \<longleftrightarrow> txt = [] \<or> last txt = 10"

lemma recorder_step_appends:
  "\<exists>new. dget_default (fst (snd (recorder_step c s))) path [] = dget_default (fst (snd s)) path [] @ new \<and> whole_lines new"
proof -
  obtain rcs fs w where s: "s = (rcs, fs, w)" by (metis prod.exhaust)
  have "whole_lines (record_line kws t)" for kws t by (simp add: whole_lines_def record_line_def)
  moreover have "whole_lines []" by (simp add: whole_lines_def)
  ultimately show ?thesis
    by (cases c) (auto simp: s recorder_step_def recorder_init_def recorder_record_def now_ns_def Let_def)
qed

lemma whole_lines_append: "whole_lines a \<Longrightarrow> whole_lines b \<Longrightarrow> whole_lines (a @ b)"
  by (auto simp: whole_lines_def last_append)

theorem recorder_append_only:
  "\<exists>new. dget_default (fst (snd (fold recorder_step calls s))) path [] = dget_default (fst (snd s)) path [] @ new \<and> whole_lines new"
proof (induction calls arbitrary: s)
  case Nil
  show ?case by (simp add: whole_lines_def)
next
  case (Cons c calls)
  obtain new1 where "dget_default (fst (snd (recorder_step c s))) path [] = dget_default (fst (snd s)) path [] @ new1" "whole_lines new1"
    using recorder_step_appends by blast
  moreover obtain new2 where "dget_default (fst (snd (fold recorder_step calls (recorder_step c s)))) path [] =
      dget_default (fst (snd (recorder_step c s))) path [] @ new2" "whole_lines new2" using Cons by blast
  ultimately show ?case using whole_lines_append by auto
qed

text \<open>The analyses look at none of the descriptive fields.\<close>

lemma analyses_ignore_info:
  "exp1_analyze (map EventLine (map (e_info_update (\<lambda>_. [])) (events_of h))) = exp1_analyze h"
  "task_ids_from_history (map EventLine (map (e_info_update (\<lambda>_. [])) (events_of h))) = task_ids_from_history h"
proof -
  have evs: "events_of (map EventLine evs) = evs" for evs by (induction evs) auto
  have step: "exp1_line (ev\<lparr>e_info := []\<rparr>) = exp1_line ev" "note_task_id (ev\<lparr>e_info := []\<rparr>) = note_task_id ev" for ev
    by (intro ext, simp add: exp1_line_def note_task_id_def is_submit_def)+
  have "fold_res exp1_line (map (e_info_update (\<lambda>_. [])) evs) = fold_res exp1_line evs" for evs
    by (induction evs) (simp, rule ext, simp add: step del: bind_res_eq_Inr)
  moreover have "fold note_task_id (map (e_info_update (\<lambda>_. [])) evs) = fold note_task_id evs" for evs
    by (induction evs) (simp_all add: step)
  ultimately show "exp1_analyze (map EventLine (map (e_info_update (\<lambda>_. [])) (events_of h))) = exp1_analyze h"
    "task_ids_from_history (map EventLine (map (e_info_update (\<lambda>_. [])) (events_of h))) = task_ids_from_history h"
    by (simp_all only: exp1_analyze_def task_ids_from_history_def evs)
qed

text \<open>
  C19: The history file is a faithful implementation of the history: whatever sequence of \<open>record\<close> calls is made, with
  the keyword arguments of each in any order and among any further ones, reading the text that they leave in the
  file gives the same events, stamped by the same clock readings, and so experiment 1's analysis and the list of
  submitted task ids computed from the file are those of the history.
\<close>

theorem history_file_read_back:
  assumes "list_all2 call_passes evs kwss"
  shows "case (fold record_text kwss ([], w), fold record_event evs ([], w)) of ((content, w1), (h, w2)) \<Rightarrow>
    w1 = w2 \<and>
    (\<exists>read. load_events content = Inr read \<and> read = map (e_info_update (\<lambda>_. [])) (events_of h) \<and>
       exp1_analyze (map EventLine read) = exp1_analyze h \<and>
       task_ids_from_history (map EventLine read) = task_ids_from_history h)"
proof -
  obtain content w1 h w2 where run: "fold record_text kwss ([], w) = (content, w1)" "fold record_event evs ([], w) = (h, w2)"
    by (metis surj_pair)
  with file_shows_fold [OF assms file_shows_init, of w] have "file_shows content h" "w1 = w2" by simp_all
  with load_file_shows show ?thesis by (simp add: run analyses_ignore_info del: map_map)
qed

theorem history_file_read_back_witness:
  "let evs = [(event_of ''submit'')\<lparr>e_task_id := Some ''t1''\<rparr>];
       kwss = [[(lit ''task_id'', JStr (lit ''t1'')), (lit ''rate'', JInt 3), (lit ''op'', JStr (lit ''submit''))]];
       w = \<lparr>w_ns = 5, w_k = 0, w_delay = \<lambda>_. 1\<rparr>
   in list_all2 call_passes evs kwss \<and>
     (case (fold record_text kwss ([], w), fold record_event evs ([], w)) of ((text, w1), (h, w2)) \<Rightarrow>
        w1 = w2 \<and>
        (\<exists>read. load_events text = Inr read \<and> read = map (e_info_update (\<lambda>_. [])) (events_of h) \<and>
           exp1_analyze (map EventLine read) = exp1_analyze h \<and>
           task_ids_from_history (map EventLine read) = task_ids_from_history h))"
proof -
  have "list_all2 call_passes [(event_of ''submit'')\<lparr>e_task_id := Some ''t1''\<rparr>]
     [[(lit ''task_id'', JStr (lit ''t1'')), (lit ''rate'', JInt 3), (lit ''op'', JStr (lit ''submit''))]]"
    by (simp add: call_passes_def reader_keys_def kwargs_keys lit_scalar event_of_def)
  from history_file_read_back [OF this, of "\<lparr>w_ns = 5, w_k = 0, w_delay = \<lambda>_. 1\<rparr>"] this show ?thesis unfolding Let_def by blast
qed

end
