(* ===== verification/Py_Argparse.thy ===== *)
theory Py_Argparse
  imports Observer_Config
begin

text \<open>
  What the command lines of the sources use of Python's \<open>argparse\<close>: parsers whose options take one value each,
  positional arguments of one value each, the help option, unique abbreviations, \<open>--option=value\<close>, and
  subparsers.  The tokens are read from left to right, since every value is converted as soon as it is consumed;
  \<open>Inl c\<close> is \<open>SystemExit(c)\<close> (0 after the help text, 2 after a usage error).  The separator \<open>--\<close> is not modelled;
  a command line of the model does not contain it.
\<close>

section \<open>Parsers\<close>

datatype arg_type = TStr | TInt | TFloat

datatype arg_value = VNone | VStr py_str | VInt int | VFloat py_float_value

record opt_spec =
  opt_flag :: py_str
  opt_dest :: py_str
  opt_type :: arg_type
  opt_default :: arg_value
  opt_required :: bool

record pos_spec =
  pos_dest :: py_str
  pos_choices :: "py_str list option"

record parser_spec =
  options :: "opt_spec list"
  positionals :: "pos_spec list"

type_synonym namespace = "(py_str, arg_value) pydict"

fun convert :: "arg_type \<Rightarrow> py_str \<Rightarrow> arg_value result" where
  "convert TStr s = Inr (VStr s)"
| "convert TInt s = bind_res (int_of_str s) (\<lambda>i. Inr (VInt i))"
| "convert TFloat s = bind_res (float_of_str s) (\<lambda>x. Inr (VFloat x))"

section \<open>Tokens\<close>

datatype action = Help | Opt opt_spec

datatype token = Plain | Optional action "py_str option" | Unknown | Ambiguous

definition actions :: "parser_spec \<Rightarrow> (py_str, action) pydict" where
  "actions p = (''-h'', Help) # (''--help'', Help) # map (\<lambda>opt. (opt_flag opt, Opt opt)) (options p)"

text \<open>\<open>s.partition('=')\<close>, with \<open>None\<close> for a missing separator.\<close>

definition partition_eq :: "py_str \<Rightarrow> py_str \<times> py_str option" where
  "partition_eq s =
     (takeWhile (\<lambda>c. c \<noteq> CHR ''='') s, case dropWhile (\<lambda>c. c \<noteq> CHR ''='') s of [] \<Rightarrow> None | _ # v \<Rightarrow> Some v)"

text \<open>\<open>_get_option_tuples\<close>: the options that a token may abbreviate.\<close>

definition option_tuples :: "parser_spec \<Rightarrow> py_str \<Rightarrow> (action \<times> py_str option) list" where
  "option_tuples p s =
     (if startswith s ''--''
      then map (\<lambda>(_, a). (a, snd (partition_eq s))) (filter (\<lambda>(f, _). startswith f (fst (partition_eq s))) (actions p))
      else List.map_filter (\<lambda>(f, a). if f = take 2 s then Some (a, Some (drop 2 s)) else if startswith f s then Some (a, None) else None)
             (actions p))"

text \<open>The pattern \<open>^-\d+$|^-\d*\.\d+$\<close>; \<open>$\<close> also matches before a final line end.\<close>

definition negative_number :: "py_str \<Rightarrow> bool" where
  "negative_number s =
     (let body = (if s \<noteq> [] \<and> last s = CHR 10 then butlast s else s) in
      case body of
        [] \<Rightarrow> False
      | c # ds \<Rightarrow>
          c = CHR ''-'' \<and>
          (case split_on CHR ''.'' ds of
             [n] \<Rightarrow> n \<noteq> [] \<and> list_all is_digit n
           | [n, f] \<Rightarrow> list_all is_digit n \<and> f \<noteq> [] \<and> list_all is_digit f
           | _ \<Rightarrow> False))"

definition classify :: "parser_spec \<Rightarrow> py_str \<Rightarrow> token" where
  "classify p s =
     (if s = [] \<or> hd s \<noteq> CHR ''-'' then Plain
      else case dget (actions p) s of
        Some a \<Rightarrow> Optional a None
      | None \<Rightarrow>
          if length s = 1 then Plain
          else case (dget (actions p) (fst (partition_eq s)), snd (partition_eq s)) of
            (Some a, Some v) \<Rightarrow> Optional a (Some v)
          | _ \<Rightarrow>
              (case option_tuples p s of
                 [(a, v)] \<Rightarrow> Optional a v
               | _ # _ # _ \<Rightarrow> Ambiguous
               | [] \<Rightarrow> if negative_number s \<or> CHR '' '' \<in> set s then Plain else Unknown))"

section \<open>Parsing\<close>

text \<open>
  The help option with text glued to it: \<open>-hh\<close> is help again, an unknown letter is left over and help is shown,
  \<open>=\<close> or \<open>-\<close> is an error.
\<close>

fun glued_help :: "py_str \<Rightarrow> int" where
  "glued_help [] = 0"
| "glued_help (c # cs) =
     (if c = CHR ''-'' then 2 else if c \<noteq> CHR ''h'' then 0 else if take 1 cs = ''='' then 2 else glued_help cs)"

definition help_exit :: "py_str \<Rightarrow> py_str option \<Rightarrow> int" where
  "help_exit s v =
     (case v of None \<Rightarrow> 0 | Some e \<Rightarrow> if startswith s ''--'' \<or> startswith s ''-h='' then 2 else glued_help e)"

definition store :: "opt_spec \<Rightarrow> py_str \<Rightarrow> namespace \<Rightarrow> int + namespace" where
  "store opt v ns = (case convert (opt_type opt) v of Inl _ \<Rightarrow> Inl 2 | Inr x \<Rightarrow> Inr (dset (opt_dest opt) x ns))"

definition choice_ok :: "pos_spec \<Rightarrow> py_str \<Rightarrow> bool" where
  "choice_ok q s = (case pos_choices q of None \<Rightarrow> True | Some cs \<Rightarrow> s \<in> set cs)"

text \<open>The flag \<open>extra\<close> says that some argument was not recognized.\<close>

fun parse_tokens :: "parser_spec \<Rightarrow> pos_spec list \<Rightarrow> namespace \<Rightarrow> bool \<Rightarrow> py_str list \<Rightarrow>
  int + (pos_spec list \<times> namespace \<times> bool)" where
  "parse_tokens p qs ns extra [] = Inr (qs, ns, extra)"
| "parse_tokens p qs ns extra (s # ss) =
     (case classify p s of
        Plain \<Rightarrow>
          (case qs of
             [] \<Rightarrow> parse_tokens p [] ns True ss
           | q # qs' \<Rightarrow> if choice_ok q s then parse_tokens p qs' (dset (pos_dest q) (VStr s) ns) extra ss else Inl 2)
      | Unknown \<Rightarrow> parse_tokens p qs ns True ss
      | Ambiguous \<Rightarrow> Inl 2
      | Optional Help v \<Rightarrow> Inl (help_exit s v)
      | Optional (Opt opt) (Some v) \<Rightarrow>
          (case store opt v ns of Inl c \<Rightarrow> Inl c | Inr ns' \<Rightarrow> parse_tokens p qs ns' extra ss)
      | Optional (Opt opt) None \<Rightarrow>
          (case ss of
             [] \<Rightarrow> Inl 2
           | v # ss' \<Rightarrow>
               if classify p v = Plain
               then (case store opt v ns of Inl c \<Rightarrow> Inl c | Inr ns' \<Rightarrow> parse_tokens p qs ns' extra ss')
               else Inl 2))"

definition defaults :: "parser_spec \<Rightarrow> namespace" where
  "defaults p =
     map (\<lambda>opt. (opt_dest opt, opt_default opt)) (options p) @ map (\<lambda>q. (pos_dest q, VNone)) (positionals p)"

definition arg_missing :: "parser_spec \<Rightarrow> namespace \<Rightarrow> bool" where
  "arg_missing p ns = list_ex (\<lambda>opt. opt_required opt \<and> dget ns (opt_dest opt) = Some VNone) (options p)"

definition parse_args :: "parser_spec \<Rightarrow> py_str list \<Rightarrow> int + namespace" where
  "parse_args p argv =
     (case parse_tokens p (positionals p) (defaults p) False argv of
        Inl c \<Rightarrow> Inl c
      | Inr (qs, ns, extra) \<Rightarrow> if qs \<noteq> [] \<or> arg_missing p ns \<or> extra then Inl 2 else Inr ns)"

text \<open>A parser whose only own argument is the required choice of a subparser, which reads all that follows.\<close>

definition no_options :: parser_spec where
  "no_options = \<lparr>options = [], positionals = []\<rparr>"

fun parse_command :: "(py_str, parser_spec) pydict \<Rightarrow> bool \<Rightarrow> py_str list \<Rightarrow> int + (py_str \<times> namespace)" where
  "parse_command subs extra [] = Inl 2"
| "parse_command subs extra (s # ss) =
     (case classify no_options s of
        Plain \<Rightarrow>
          (case dget subs s of
             None \<Rightarrow> Inl 2
           | Some p \<Rightarrow> (case parse_args p ss of Inl c \<Rightarrow> Inl c | Inr ns \<Rightarrow> if extra then Inl 2 else Inr (s, ns)))
      | Unknown \<Rightarrow> parse_command subs True ss
      | Optional Help v \<Rightarrow> Inl (help_exit s v)
      | _ \<Rightarrow> Inl 2)"

section \<open>Reading a command line back\<close>

text \<open>
  A command line as a user writes it: settings \<open>--flag text\<close> or \<open>--flag=text\<close> and positional arguments in any
  order.
\<close>

datatype cl_item = Setting opt_spec py_str bool | Positional py_str

fun item_args :: "cl_item \<Rightarrow> py_str list" where
  "item_args (Setting opt t joined) = (if joined then [opt_flag opt @ ''='' @ t] else [opt_flag opt, t])"
| "item_args (Positional t) = [t]"

fun positional_texts :: "cl_item list \<Rightarrow> py_str list" where
  "positional_texts [] = []"
| "positional_texts (Positional t # items) = t # positional_texts items"
| "positional_texts (Setting opt t joined # items) = positional_texts items"

definition converts :: "arg_type \<Rightarrow> py_str \<Rightarrow> bool" where
  "converts ty t = (case convert ty t of Inl _ \<Rightarrow> False | Inr _ \<Rightarrow> True)"

definition converted :: "arg_type \<Rightarrow> py_str \<Rightarrow> arg_value" where
  "converted ty t = (case convert ty t of Inl _ \<Rightarrow> VNone | Inr v \<Rightarrow> v)"

fun item_ok :: "parser_spec \<Rightarrow> cl_item \<Rightarrow> bool" where
  "item_ok p (Setting opt t joined) =
     (opt \<in> set (options p) \<and> converts (opt_type opt) t \<and> (joined \<or> classify p t = Plain))"
| "item_ok p (Positional t) = (classify p t = Plain)"

text \<open>The value of an option: that of its last setting, or the default.\<close>

fun settings :: "cl_item list \<Rightarrow> (opt_spec \<times> py_str) list" where
  "settings [] = []"
| "settings (Setting opt t joined # items) = (opt, t) # settings items"
| "settings (Positional t # items) = settings items"

definition value_of :: "cl_item list \<Rightarrow> opt_spec \<Rightarrow> arg_value" where
  "value_of items opt = (case dget (rev (settings items)) opt of None \<Rightarrow> opt_default opt | Some t \<Rightarrow> converted (opt_type opt) t)"

definition items_ok :: "parser_spec \<Rightarrow> cl_item list \<Rightarrow> bool" where
  "items_ok p items \<longleftrightarrow>
     list_all (item_ok p) items \<and> list_all2 choice_ok (positionals p) (positional_texts items) \<and>
     list_all (\<lambda>opt. opt_required opt \<longrightarrow> opt \<in> fst ` set (settings items)) (options p)"

definition parser_ok :: "parser_spec \<Rightarrow> bool" where
  "parser_ok p \<longleftrightarrow>
     distinct (''-h'' # ''--help'' # map opt_flag (options p)) \<and>
     distinct (map opt_dest (options p) @ map pos_dest (positionals p)) \<and>
     list_all (\<lambda>opt. startswith (opt_flag opt) ''--'' \<and> CHR ''='' \<notin> set (opt_flag opt)) (options p)"

text \<open>The assignments that the items make, in order.\<close>

fun assigned :: "pos_spec list \<Rightarrow> cl_item list \<Rightarrow> namespace" where
  "assigned qs [] = []"
| "assigned qs (Setting opt t joined # items) = (opt_dest opt, converted (opt_type opt) t) # assigned qs items"
| "assigned (q # qs) (Positional t # items) = (pos_dest q, VStr t) # assigned qs items"
| "assigned [] (Positional t # items) = []"

abbreviation assign :: "namespace \<Rightarrow> namespace \<Rightarrow> namespace" where
  "assign \<equiv> foldl (\<lambda>ns (k, v). dset k v ns)"

lemma flag_action:
  assumes "parser_ok p" "opt \<in> set (options p)"
  shows "dget (actions p) (opt_flag opt) = Some (Opt opt)"
proof -
  have "distinct (map fst (actions p))" using assms(1) by (simp add: parser_ok_def actions_def comp_def)
  moreover have "(opt_flag opt, Opt opt) \<in> set (actions p)" using assms(2) by (auto simp: actions_def)
  ultimately show ?thesis by (rule map_of_is_SomeI)
qed

lemma startswith_dash: "startswith s ''--'' \<Longrightarrow> s \<noteq> [] \<and> hd s = CHR ''-''"
  by (cases s) auto

lemma classify_flag:
  assumes "parser_ok p" "opt \<in> set (options p)"
  shows "classify p (opt_flag opt) = Optional (Opt opt) None"
proof -
  have "startswith (opt_flag opt) ''--''" using assms by (auto simp: parser_ok_def list_all_iff)
  with startswith_dash show ?thesis by (simp add: classify_def flag_action [OF assms])
qed

lemma partition_joined: "CHR ''='' \<notin> set f \<Longrightarrow> partition_eq (f @ ''='' @ t) = (f, Some t)"
proof -
  assume "CHR ''='' \<notin> set f"
  then have "c \<in> set f \<Longrightarrow> c \<noteq> CHR ''=''" for c by auto
  then show ?thesis by (simp add: partition_eq_def takeWhile_append2 dropWhile_append2)
qed

lemma classify_joined:
  assumes "parser_ok p" "opt \<in> set (options p)"
  shows "classify p (opt_flag opt @ ''='' @ t) = Optional (Opt opt) (Some t)"
proof -
  have flags: "startswith (opt_flag opt) ''--''" "CHR ''='' \<notin> set (opt_flag opt)" using assms by (auto simp: parser_ok_def list_all_iff)
  have "\<forall>f \<in> fst ` set (actions p). CHR ''='' \<notin> set f" using assms(1) by (auto simp: parser_ok_def actions_def list_all_iff)
  then have "opt_flag opt @ ''='' @ t \<notin> fst ` set (actions p)" by (metis append_Cons in_set_conv_decomp)
  then have "dget (actions p) (opt_flag opt @ ''='' @ t) = None" unfolding map_of_eq_None_iff .
  then show ?thesis using startswith_dash [OF flags(1)]
    by (simp add: classify_def partition_joined [OF flags(2), simplified] flag_action [OF assms])
qed

lemma store_converts: "converts (opt_type opt) t \<Longrightarrow> store opt t ns = Inr (dset (opt_dest opt) (converted (opt_type opt) t) ns)"
  by (simp add: converts_def converted_def store_def split: sum.splits)

lemma parse_items:
  assumes "parser_ok p" "list_all (item_ok p) items" "list_all2 choice_ok qs (positional_texts items)"
  shows "parse_tokens p qs ns extra (concat (map item_args items)) = Inr ([], assign ns (assigned qs items), extra)"
  using assms(2,3)
proof (induction items arbitrary: qs ns)
  case (Cons item items)
  show ?case
  proof (cases item)
    case (Setting opt t joined)
    with Cons.prems have "opt \<in> set (options p)" "converts (opt_type opt) t" "joined \<or> classify p t = Plain" by auto
    then show ?thesis using Cons Setting
      by (cases joined) (simp_all add: classify_flag [OF assms(1)] classify_joined [OF assms(1), simplified] store_converts)
  next
    case (Positional t)
    with Cons show ?thesis by (cases qs) auto
  qed
qed simp

lemma dget_assign: "dget (assign ns kvs) k = (case dget (rev kvs) k of None \<Rightarrow> dget ns k | Some v \<Rightarrow> Some v)"
  by (induction kvs arbitrary: ns) (auto simp: map_add_def split: option.splits)

lemma dget_snoc_other: "k' \<noteq> k \<Longrightarrow> dget (xs @ [(k, v)]) k' = dget xs k'"
  by (auto simp: map_add_def split: option.split)

lemma assigned_keys:
  assumes "list_all (item_ok p) items"
  shows "fst ` set (assigned qs items) \<subseteq> opt_dest ` set (options p) \<union> pos_dest ` set qs"
  using assms by (induction qs items rule: assigned.induct) auto

lemma assigned_option:
  assumes "distinct (map opt_dest (options p))" "list_all (item_ok p) items" "opt \<in> set (options p)"
    "opt_dest opt \<notin> pos_dest ` set qs" "length qs = length (positional_texts items)"
  shows "dget (rev (assigned qs items)) (opt_dest opt) =
    map_option (converted (opt_type opt)) (dget (rev (settings items)) opt)"
  using assms(2,4,5)
proof (induction qs items rule: assigned.induct)
  case (2 qs opt' t joined items)
  then have "opt' \<in> set (options p)" by simp
  then have "opt_dest opt = opt_dest opt' \<longleftrightarrow> opt = opt'"
    using assms(1,3) by (metis distinct_map inj_onD)
  with 2 show ?case by (auto simp: map_add_def split: option.split)
qed (auto simp: dget_snoc_other simp del: map_of_append)

lemma assigned_positional:
  assumes "distinct (map opt_dest (options p) @ map pos_dest qs)" "list_all (item_ok p) items"
    "length qs = length (positional_texts items)"
  shows "map (\<lambda>q. dget (rev (assigned qs items)) (pos_dest q)) qs = map (\<lambda>t. Some (VStr t)) (positional_texts items)"
  using assms
proof (induction qs items rule: assigned.induct)
  case (2 qs opt t joined items)
  then have "pos_dest q \<noteq> opt_dest opt" if "q \<in> set qs" for q using that by fastforce
  then have "map (\<lambda>q. dget (rev (assigned qs (Setting opt t joined # items))) (pos_dest q)) qs =
      map (\<lambda>q. dget (rev (assigned qs items)) (pos_dest q)) qs"
    by (simp add: dget_snoc_other del: map_of_append)
  with 2 show ?case by simp
next
  case (3 q qs t items)
  then have "pos_dest q \<notin> fst ` set (assigned qs items)" using assigned_keys [of p items qs] by auto
  then have none: "dget (rev (assigned qs items)) (pos_dest q) = None" by (simp add: map_of_eq_None_iff)
  have "pos_dest q' \<noteq> pos_dest q" if "q' \<in> set qs" for q' using 3(2) that by (auto simp: image_iff)
  then have "map (\<lambda>q'. dget (rev (assigned (q # qs) (Positional t # items))) (pos_dest q')) qs =
      map (\<lambda>q'. dget (rev (assigned qs items)) (pos_dest q')) qs"
    by (simp add: dget_snoc_other del: map_of_append)
  with 3 none show ?case by (simp add: map_add_def)
qed simp_all

lemma defaults_option:
  assumes "parser_ok p" "opt \<in> set (options p)"
  shows "dget (defaults p) (opt_dest opt) = Some (opt_default opt)"
proof -
  have "distinct (map fst (defaults p))" using assms(1) by (simp add: parser_ok_def defaults_def comp_def)
  moreover have "(opt_dest opt, opt_default opt) \<in> set (defaults p)" using assms(2) by (auto simp: defaults_def)
  ultimately show ?thesis by (rule map_of_is_SomeI)
qed

lemma converted_some: "converts ty t \<Longrightarrow> converted ty t \<noteq> VNone"
  by (cases ty) (auto simp: converts_def converted_def split: sum.splits)

theorem parse_args_items:
  assumes "parser_ok p" "items_ok p items"
  shows "\<exists>ns. parse_args p (concat (map item_args items)) = Inr ns \<and>
    (\<forall>opt \<in> set (options p). dget ns (opt_dest opt) = Some (value_of items opt)) \<and>
    map (\<lambda>q. dget ns (pos_dest q)) (positionals p) = map (\<lambda>t. Some (VStr t)) (positional_texts items)"
proof -
  let ?ns = "assign (defaults p) (assigned (positionals p) items)"
  from assms have ok: "list_all (item_ok p) items" "list_all2 choice_ok (positionals p) (positional_texts items)"
    "distinct (map opt_dest (options p) @ map pos_dest (positionals p))" by (simp_all add: items_ok_def parser_ok_def)
  have len: "length (positionals p) = length (positional_texts items)" using ok(2) by (rule list_all2_lengthD)
  have opts: "dget ?ns (opt_dest opt) = Some (value_of items opt)" if "opt \<in> set (options p)" for opt
  proof -
    have "opt_dest opt \<notin> pos_dest ` set (positionals p)" using ok(3) that by auto
    then show ?thesis using assigned_option [OF _ ok(1) that _ len] ok(3) defaults_option [OF assms(1) that]
      by (simp add: dget_assign value_of_def split: option.split)
  qed
  have conv: "converts (opt_type opt) t" if "(opt, t) \<in> set (settings items)" for opt t
    using ok(1) that by (induction items rule: settings.induct) auto
  have "value_of items opt \<noteq> VNone" if "opt \<in> fst ` set (settings items)" for opt
  proof -
    from that obtain t where "dget (rev (settings items)) opt = Some t" by (metis map_of_eq_None_iff not_None_eq set_rev)
    moreover from this have "(opt, t) \<in> set (settings items)" by (metis map_of_SomeD set_rev)
    ultimately show ?thesis using converted_some [OF conv] by (simp add: value_of_def)
  qed
  then have "\<not> arg_missing p ?ns" using opts assms(2) by (auto simp: arg_missing_def items_ok_def list_all_iff list_ex_iff)
  then have "parse_args p (concat (map item_args items)) = Inr ?ns"
    by (simp add: parse_args_def parse_items [OF assms(1) ok(1,2)])
  moreover have "map (\<lambda>q. dget ?ns (pos_dest q)) (positionals p) = map (\<lambda>t. Some (VStr t)) (positional_texts items)"
    using assigned_positional [OF ok(3,1) len]
    by (auto simp: dget_assign list_eq_iff_nth_eq len split: option.split)
  ultimately show ?thesis using opts by blast
qed

text \<open>A command line that is refused, or asks for help, exits with 2 or 0.\<close>

lemma help_exit_code: "help_exit s v = 0 \<or> help_exit s v = 2"
proof -
  have "glued_help e = 0 \<or> glued_help e = 2" for e by (induction e rule: glued_help.induct) auto
  then show ?thesis by (auto simp: help_exit_def split: option.split)
qed

lemma help_exit_cases: "help_exit s v \<noteq> 2 \<Longrightarrow> help_exit s v = 0"
  using help_exit_code by blast

lemma store_code: "store opt v ns = Inl c \<Longrightarrow> c = 2"
  by (auto simp: store_def split: sum.splits)

lemma parse_tokens_code: "parse_tokens p qs ns extra argv = Inl c \<Longrightarrow> c = 0 \<or> c = 2"
  by (induction p qs ns extra argv rule: parse_tokens.induct)
    (auto split: token.splits action.splits option.splits list.splits if_splits sum.splits dest: store_code
      intro: help_exit_cases)

lemma parse_args_code: "parse_args p argv = Inl c \<Longrightarrow> c = 0 \<or> c = 2"
  using parse_tokens_code by (fastforce simp: parse_args_def split: sum.splits if_splits)

lemma parse_command_code: "parse_command subs extra argv = Inl c \<Longrightarrow> c = 0 \<or> c = 2"
  by (induction subs extra argv rule: parse_command.induct)
    (use parse_args_code help_exit_code in \<open>fastforce split: token.splits action.splits option.splits sum.splits if_splits\<close>)+

section \<open>What an accepted command line gives\<close>

fun has_type :: "arg_type \<Rightarrow> arg_value \<Rightarrow> bool" where
  "has_type TStr (VStr _) = True"
| "has_type TInt (VInt _) = True"
| "has_type TFloat (VFloat _) = True"
| "has_type _ _ = False"

definition option_typed :: "namespace \<Rightarrow> opt_spec \<Rightarrow> bool" where
  "option_typed ns opt \<longleftrightarrow>
     (case dget ns (opt_dest opt) of None \<Rightarrow> False | Some v \<Rightarrow> v = opt_default opt \<or> has_type (opt_type opt) v)"

definition positional_typed :: "namespace \<Rightarrow> pos_spec \<Rightarrow> bool" where
  "positional_typed ns q \<longleftrightarrow> (case dget ns (pos_dest q) of Some (VStr s) \<Rightarrow> choice_ok q s | _ \<Rightarrow> False)"

definition namespace_ok :: "parser_spec \<Rightarrow> pos_spec list \<Rightarrow> namespace \<Rightarrow> bool" where
  "namespace_ok p qs ns \<longleftrightarrow>
     list_all (option_typed ns) (options p) \<and> list_all (\<lambda>q. q \<in> set qs \<or> positional_typed ns q) (positionals p)"

lemma classify_option:
  assumes "classify p s = Optional (Opt opt) v"
  shows "opt \<in> set (options p)"
proof -
  have act: "opt \<in> set (options p)" if "(f, Opt opt) \<in> set (actions p)" for f using that by (auto simp: actions_def)
  have "opt \<in> set (options p)" if "(Opt opt, v) \<in> set (option_tuples p s)"
    using that act by (auto simp: option_tuples_def List.map_filter_def split: if_splits)
  with assms act show ?thesis
    by (auto simp: classify_def split: if_splits option.splits list.splits dest!: map_of_SomeD)
qed

lemma convert_has_type: "convert ty s = Inr v \<Longrightarrow> has_type ty v"
  by (cases ty) (auto split: sum.splits)

lemma namespace_ok_store:
  assumes "parser_ok p" "namespace_ok p qs ns" "opt \<in> set (options p)" "store opt t ns = Inr ns'"
  shows "namespace_ok p qs ns'"
proof -
  from assms(4) obtain v where v: "convert (opt_type opt) t = Inr v" "ns' = dset (opt_dest opt) v ns"
    by (auto simp: store_def split: sum.splits)
  have "opt' = opt" if "opt' \<in> set (options p)" "opt_dest opt' = opt_dest opt" for opt'
    using assms(1,3) that by (auto simp: parser_ok_def distinct_map inj_on_def)
  moreover have "pos_dest q \<noteq> opt_dest opt" if "q \<in> set (positionals p)" for q
    using assms(1,3) that by (fastforce simp: parser_ok_def)
  ultimately show ?thesis using assms(2) convert_has_type [OF v(1)]
    by (auto simp: namespace_ok_def option_typed_def positional_typed_def list_all_iff v(2))
qed

lemma namespace_ok_positional:
  assumes "parser_ok p" "namespace_ok p (q # qs) ns" "q \<in> set (positionals p)" "choice_ok q s"
  shows "namespace_ok p qs (dset (pos_dest q) (VStr s) ns)"
proof -
  have "q' = q" if "q' \<in> set (positionals p)" "pos_dest q' = pos_dest q" for q'
    using assms(1,3) that by (auto simp: parser_ok_def distinct_map inj_on_def)
  moreover have "opt_dest opt \<noteq> pos_dest q" if "opt \<in> set (options p)" for opt
    using assms(1,3) that by (fastforce simp: parser_ok_def)
  ultimately show ?thesis using assms(2,4)
    by (auto simp: namespace_ok_def option_typed_def positional_typed_def list_all_iff)
qed

lemma parse_tokens_typed:
  assumes "parser_ok p" "parse_tokens p qs ns extra argv = Inr (qs', ns', extra')"
    "namespace_ok p qs ns" "set qs \<subseteq> set (positionals p)"
  shows "namespace_ok p qs' ns'"
  using assms(2-4)
proof (induction argv arbitrary: qs ns extra rule: length_induct)
  case (1 argv)
  note IH = 1(1) [rule_format] and result = 1(2) and inv = 1(3,4)
  show ?case
  proof (cases argv)
    case (Cons s ss)
    show ?thesis
    proof (cases "classify p s")
      case Plain
      show ?thesis
      proof (cases qs)
        case (Cons q qs1)
        with Plain result \<open>argv = s # ss\<close> have "choice_ok q s"
          "parse_tokens p qs1 (dset (pos_dest q) (VStr s) ns) extra ss = Inr (qs', ns', extra')" by (auto split: if_splits)
        then show ?thesis using IH [of ss] namespace_ok_positional [OF assms(1), of q qs1 ns s] inv Cons \<open>argv = s # ss\<close> by auto
      qed (use Plain result Cons IH [of ss] inv in auto)
    next
      case (Optional a v)
      show ?thesis
      proof (cases a)
        case (Opt opt)
        then have opt: "opt \<in> set (options p)" using classify_option Optional by blast
        from Optional Opt Cons result obtain t ns1 ss' where
          "store opt t ns = Inr ns1" "parse_tokens p qs ns1 extra ss' = Inr (qs', ns', extra')" "length ss' < length argv"
          by (cases v) (auto split: list.splits if_splits sum.splits)
        then show ?thesis using IH [of ss'] namespace_ok_store [OF assms(1) inv(1) opt] inv(2) by blast
      qed (use Optional result Cons in auto)
    qed (use result Cons IH [of ss] inv in auto)
  qed (use result inv in auto)
qed

lemma parse_args_typed:
  assumes "parser_ok p" "parse_args p argv = Inr ns"
  shows "namespace_ok p [] ns"
proof -
  have "namespace_ok p (positionals p) (defaults p)"
    using defaults_option [OF assms(1)] by (auto simp: namespace_ok_def option_typed_def list_all_iff)
  moreover from assms(2) obtain extra where
    "parse_tokens p (positionals p) (defaults p) False argv = Inr ([], ns, extra)"
    by (auto simp: parse_args_def split: sum.splits if_splits)
  ultimately show ?thesis using parse_tokens_typed [OF assms(1)] by blast
qed

lemma parse_command_sub:
  assumes "parse_command subs extra argv = Inr (cmd, ns)"
  obtains p argv' where "dget subs cmd = Some p" "parse_args p argv' = Inr ns"
  using assms
  by (induction subs extra argv rule: parse_command.induct)
    (auto split: token.splits action.splits option.splits sum.splits if_splits)

end
