(* ===== verification/Cli.thy ===== *)
theory Cli
  imports Py_Argparse Py_Datetime Chaos
begin

text \<open>
  The command lines of chaos-bench: \<open>main\<close> of \<open>main.py\<close>, \<open>exp1.py\<close>, \<open>exp3.py\<close> and \<open>exp4.py\<close>,
  and the arguments of \<open>collect.py\<close>.  Each \<open>main\<close> turns its
  arguments into an exit code or into the one call that it makes, with the configuration read from the
  environment; what the calls do is modelled in the theories of the components.  \<open>utcnow\<close> is the
  time at which a run without a name starts.
\<close>

section \<open>Arguments\<close>

definition option_arg :: "py_str \<Rightarrow> py_str \<Rightarrow> arg_type \<Rightarrow> arg_value \<Rightarrow> opt_spec" where
  "option_arg flag dest ty dflt =
     \<lparr>opt_flag = flag, opt_dest = dest, opt_type = ty, opt_default = dflt, opt_required = False\<rparr>"

definition float_arg :: "py_str \<Rightarrow> py_str \<Rightarrow> real \<Rightarrow> opt_spec" where
  "float_arg flag dest x = option_arg flag dest TFloat (VFloat (Finite x))"

definition int_arg :: "py_str \<Rightarrow> py_str \<Rightarrow> int \<Rightarrow> opt_spec" where
  "int_arg flag dest i = option_arg flag dest TInt (VInt i)"

definition name_arg :: "py_str \<Rightarrow> py_str \<Rightarrow> opt_spec" where
  "name_arg flag dest = option_arg flag dest TStr VNone"

definition path_arg :: "py_str \<Rightarrow> pos_spec" where
  "path_arg dest = \<lparr>pos_dest = dest, pos_choices = None\<rparr>"

definition arg_float :: "namespace \<Rightarrow> py_str \<Rightarrow> py_float_value" where
  "arg_float ns d = (case dget ns d of Some (VFloat x) \<Rightarrow> x | _ \<Rightarrow> NaN)"

definition arg_int :: "namespace \<Rightarrow> py_str \<Rightarrow> int" where
  "arg_int ns d = (case dget ns d of Some (VInt i) \<Rightarrow> i | _ \<Rightarrow> 0)"

definition arg_str :: "namespace \<Rightarrow> py_str \<Rightarrow> py_str option" where
  "arg_str ns d = (case dget ns d of Some (VStr s) \<Rightarrow> Some s | _ \<Rightarrow> None)"

text \<open>\<open>args.run_name or utcnow().strftime(pre + "%Y%m%dT%H%M%SZ")\<close>\<close>

definition utc_name :: "py_str \<Rightarrow> civil \<Rightarrow> py_str" where
  "utc_name pre c =
     pre @ pad 4 (c_year c) @ pad 2 (c_month c) @ pad 2 (c_day c) @ ''T'' @ pad 2 (c_hour c) @ pad 2 (c_min c) @
     pad 2 (c_sec c) @ ''Z''"

definition name_or :: "py_str option \<Rightarrow> py_str \<Rightarrow> py_str" where
  "name_or given alt = (case given of Some s \<Rightarrow> if s = [] then alt else s | None \<Rightarrow> alt)"

section \<open>main.py\<close>

definition bench_parser :: parser_spec where
  "bench_parser =
     \<lparr>options = [float_arg ''--rate'' ''rate'' 100, float_arg ''--duration'' ''duration'' 60,
        int_arg ''--payload-bytes'' ''payload_bytes'' 128, int_arg ''--priority'' ''priority'' 5,
        float_arg ''--timeout'' ''timeout'' 60, name_arg ''--run-name'' ''run_name''],
      positionals = []\<rparr>"

definition chaos_targets :: "py_str list" where
  "chaos_targets = [''kill_leader'', ''kill_follower'', ''kill_worker'']"

definition chaos_parser :: parser_spec where
  "chaos_parser =
     \<lparr>options = [name_arg ''--leader-service'' ''leader_service''],
      positionals = [\<lparr>pos_dest = ''target'', pos_choices = Some chaos_targets\<rparr>]\<rparr>"

definition plot_parser :: parser_spec where
  "plot_parser = \<lparr>options = [], positionals = [path_arg ''path'']\<rparr>"

text \<open>The parameters of \<open>RunParams\<close> that the command line sets; the poll interval keeps its default.\<close>

record bench_args =
  ba_rate :: py_float_value
  ba_duration :: py_float_value
  ba_payload_bytes :: int
  ba_priority :: int
  ba_timeout :: py_float_value

datatype bench_command =
    RunBench bench_config bench_args py_str
  | Chaos bench_config py_str "py_str option"
  | Plot py_str

definition main_subparsers :: "(py_str, parser_spec) pydict" where
  "main_subparsers = [(''bench'', bench_parser), (''chaos'', chaos_parser), (''plot'', plot_parser)]"

definition main_command :: "environ \<Rightarrow> civil \<Rightarrow> py_str list \<Rightarrow> int + bench_command" where
  "main_command env utcnow argv =
     (case parse_command main_subparsers False argv of
        Inl c \<Rightarrow> Inl c
      | Inr (cmd, ns) \<Rightarrow>
          Inr (if cmd = ''bench'' then
                 RunBench (bench_from_env env)
                   \<lparr>ba_rate = arg_float ns ''rate'', ba_duration = arg_float ns ''duration'',
                    ba_payload_bytes = arg_int ns ''payload_bytes'', ba_priority = arg_int ns ''priority'',
                    ba_timeout = arg_float ns ''timeout''\<rparr>
                   (name_or (arg_str ns ''run_name'') (utc_name ''run-'' utcnow))
               else if cmd = ''chaos'' then
                 Chaos (bench_from_env env) (get_or (arg_str ns ''target'') []) (arg_str ns ''leader_service'')
               else Plot (get_or (arg_str ns ''path'') [])))"

section \<open>exp1.py\<close>

definition exp1_run_parser :: parser_spec where
  "exp1_run_parser =
     \<lparr>options = [float_arg ''--duration'' ''duration'' 180, float_arg ''--rate'' ''rate'' 300,
        float_arg ''--kill-period'' ''kill_period'' 30, name_arg ''--run-name'' ''run_name''],
      positionals = []\<rparr>"

definition history_parser :: parser_spec where
  "history_parser = \<lparr>options = [], positionals = [path_arg ''history_path'']\<rparr>"

definition exp1_repeat_parser :: parser_spec where
  "exp1_repeat_parser =
     \<lparr>options = [int_arg ''--iterations'' ''iterations'' 5, float_arg ''--warmup'' ''warmup'' 120,
        float_arg ''--rate'' ''rate'' 300, name_arg ''--group-name'' ''group_name''],
      positionals = []\<rparr>"

datatype exp1_command =
    Exp1Run bench_config py_str py_float_value py_float_value py_float_value
  | Exp1Analyze py_str
  | Exp1Dups bench_config py_str
  | Exp1Repeat bench_config py_str int py_float_value py_float_value

definition exp1_subparsers :: "(py_str, parser_spec) pydict" where
  "exp1_subparsers = [(''run'', exp1_run_parser), (''analyze'', history_parser), (''dups'', history_parser),
     (''repeat'', exp1_repeat_parser)]"

definition exp1_main :: "environ \<Rightarrow> civil \<Rightarrow> py_str list \<Rightarrow> int + exp1_command" where
  "exp1_main env utcnow argv =
     (case parse_command exp1_subparsers False argv of
        Inl c \<Rightarrow> Inl c
      | Inr (cmd, ns) \<Rightarrow>
          let cfg = bench_from_env env; history_path = get_or (arg_str ns ''history_path'') []
          in if cmd = ''run'' then
               Inr (Exp1Run cfg (name_or (arg_str ns ''run_name'') (utc_name ''exp1-'' utcnow)) (arg_float ns ''duration'')
                      (arg_float ns ''rate'') (arg_float ns ''kill_period''))
             else if cmd = ''analyze'' then Inr (Exp1Analyze history_path)
             else if cmd = ''dups'' then Inr (Exp1Dups cfg history_path)
             else if cmd = ''repeat'' then
               Inr (Exp1Repeat cfg (name_or (arg_str ns ''group_name'') (utc_name ''exp1-repeat-'' utcnow))
                      (arg_int ns ''iterations'') (arg_float ns ''warmup'') (arg_float ns ''rate''))
             else Inl 2)"

section \<open>exp3.py and exp4.py\<close>

definition exp3_run_parser :: parser_spec where
  "exp3_run_parser =
     \<lparr>options = [int_arg ''--tasks'' ''tasks'' 10000, float_arg ''--rate'' ''rate'' 500,
        float_arg ''--leader-kill-period'' ''leader_kill_period'' 30, float_arg ''--follower-kill-period'' ''follower_kill_period'' 45,
        float_arg ''--sqs-redeliver-period'' ''sqs_redeliver_period'' 20, name_arg ''--run-name'' ''run_name''],
      positionals = []\<rparr>"

definition exp3_analyze_parser :: parser_spec where
  "exp3_analyze_parser =
     \<lparr>options = [name_arg ''--lincheck'' ''lincheck''], positionals = [path_arg ''history_path'']\<rparr>"

datatype exp3_command =
    Exp3Run bench_config py_str int py_float_value py_float_value py_float_value py_float_value
  | Exp3Analyze bench_config py_str "py_str option"

definition exp3_subparsers :: "(py_str, parser_spec) pydict" where
  "exp3_subparsers = [(''run'', exp3_run_parser), (''analyze'', exp3_analyze_parser)]"

definition exp3_main :: "environ \<Rightarrow> civil \<Rightarrow> py_str list \<Rightarrow> int + exp3_command" where
  "exp3_main env utcnow argv =
     (case parse_command exp3_subparsers False argv of
        Inl c \<Rightarrow> Inl c
      | Inr (cmd, ns) \<Rightarrow>
          let cfg = bench_from_env env
          in if cmd = ''run'' then
               Inr (Exp3Run cfg (name_or (arg_str ns ''run_name'') (utc_name ''exp3-'' utcnow)) (arg_int ns ''tasks'')
                      (arg_float ns ''rate'') (arg_float ns ''leader_kill_period'') (arg_float ns ''follower_kill_period'')
                      (arg_float ns ''sqs_redeliver_period''))
             else if cmd = ''analyze'' then
               Inr (Exp3Analyze cfg (get_or (arg_str ns ''history_path'') []) (arg_str ns ''lincheck''))
             else Inl 2)"

definition exp4_parser :: parser_spec where
  "exp4_parser =
     \<lparr>options = [float_arg ''--duration'' ''duration'' 1800, float_arg ''--rate'' ''rate'' 2000,
        int_arg ''--target-commit'' ''target_commit'' 50000, name_arg ''--run-name'' ''run_name''],
      positionals = []\<rparr>"

datatype exp4_command = Exp4Run bench_config py_str py_float_value py_float_value int

definition exp4_main :: "environ \<Rightarrow> civil \<Rightarrow> py_str list \<Rightarrow> int + exp4_command" where
  "exp4_main env utcnow argv =
     (case parse_args exp4_parser argv of
        Inl c \<Rightarrow> Inl c
      | Inr ns \<Rightarrow>
          Inr (Exp4Run (bench_from_env env) (name_or (arg_str ns ''run_name'') (utc_name ''exp4-'' utcnow))
                 (arg_float ns ''duration'') (arg_float ns ''rate'') (arg_int ns ''target_commit'')))"

section \<open>collect.py\<close>

definition required_arg :: "py_str \<Rightarrow> py_str \<Rightarrow> opt_spec" where
  "required_arg flag dest = (option_arg flag dest TStr VNone)\<lparr>opt_required := True\<rparr>"

definition collect_parser :: "py_str \<Rightarrow> parser_spec" where
  "collect_parser region =
     \<lparr>options = [option_arg ''--region'' ''region'' TStr (VStr region), required_arg ''--table'' ''table'', required_arg ''--label'' ''label'',
        option_arg ''--coordinator'' ''coordinator'' TStr (VStr []), int_arg ''--submitted'' ''submitted'' 0, int_arg ''--failed'' ''failed'' 0,
        float_arg ''--actual-rate'' ''actual_rate'' 0, name_arg ''--since'' ''since'', name_arg ''--until'' ''until'',
        option_arg ''--output'' ''output'' TStr (VStr ''-'')],
      positionals = []\<rparr>"

text \<open>The arguments of a collection; \<open>collect_main\<close> of \<open>Collect\<close> takes it from here.\<close>

record collect_command =
  cc_region :: py_str
  cc_table :: py_str
  cc_label :: py_str
  cc_coordinator :: py_str
  cc_submitted :: int
  cc_failed :: int
  cc_actual_rate :: py_float_value
  cc_since :: "py_str option"
  cc_until :: "py_str option"
  cc_output :: py_str

definition collect_arguments :: "environ \<Rightarrow> py_str list \<Rightarrow> int + collect_command" where
  "collect_arguments env argv =
     (case parse_args (collect_parser (dget_default env ''AWS_DEFAULT_REGION'' ''us-east-1'')) argv of
        Inl c \<Rightarrow> Inl c
      | Inr ns \<Rightarrow>
          let text = (\<lambda>d. get_or (arg_str ns d) [])
          in Inr \<lparr>cc_region = text ''region'', cc_table = text ''table'', cc_label = text ''label'', cc_coordinator = text ''coordinator'',
                  cc_submitted = arg_int ns ''submitted'', cc_failed = arg_int ns ''failed'', cc_actual_rate = arg_float ns ''actual_rate'',
                  cc_since = arg_str ns ''since'', cc_until = arg_str ns ''until'', cc_output = text ''output''\<rparr>)"

text \<open>All parsers; the argument is the default region of the collector.\<close>

definition program_parsers :: "py_str \<Rightarrow> parser_spec list" where
  "program_parsers region = [bench_parser, chaos_parser, plot_parser, exp1_run_parser, history_parser, exp1_repeat_parser,
     exp3_run_parser, exp3_analyze_parser, exp4_parser, collect_parser region]"

section \<open>Properties\<close>

lemmas parser_defs = bench_parser_def chaos_parser_def plot_parser_def exp1_run_parser_def history_parser_def
  exp1_repeat_parser_def exp3_run_parser_def exp3_analyze_parser_def exp4_parser_def collect_parser_def required_arg_def option_arg_def float_arg_def int_arg_def
  name_arg_def path_arg_def

lemma program_parsers_ok: "list_all parser_ok (program_parsers region)"
  by (simp add: program_parsers_def parser_ok_def parser_defs)

text \<open>
  Command lines are read back.  On every parser of the benchmark and of the collector, options written \<open>--flag value\<close> or
  \<open>--flag=value\<close> in any order, repeated or left out, and the positional arguments anywhere between them are
  accepted whenever the values can be converted and the required options are there; every option then has the value of its last setting, or its
  default, and the positional arguments are those of the line, in order.
\<close>

theorem command_line_read_back:
  assumes "p \<in> set (program_parsers region)" "items_ok p items"
  shows "\<exists>ns. parse_args p (concat (map item_args items)) = Inr ns \<and>
    (\<forall>opt \<in> set (options p). dget ns (opt_dest opt) = Some (value_of items opt)) \<and>
    map (\<lambda>q. dget ns (pos_dest q)) (positionals p) = map (\<lambda>t. Some (VStr t)) (positional_texts items)"
  using parse_args_items program_parsers_ok [of region] assms by (auto simp: list_all_iff)

theorem command_line_read_back_witness:
  "\<exists>ns. parse_args exp3_run_parser [''--tasks'', ''250'', ''--run-name=demo''] = Inr ns \<and> dget ns ''tasks'' = Some (VInt 250) \<and>
     dget ns ''run_name'' = Some (VStr ''demo'') \<and> dget ns ''rate'' = Some (VFloat (Finite 500))"
proof -
  let ?tasks = "int_arg ''--tasks'' ''tasks'' 10000" and ?name = "name_arg ''--run-name'' ''run_name''"
  let ?items = "[Setting ?tasks ''250'' False, Setting ?name ''demo'' True]"
  have int: "int_of_str ''250'' = Inr 250" by code_simp
  have plain: "classify exp3_run_parser ''250'' = Plain" by (simp add: classify_def)
  have ok: "items_ok exp3_run_parser ?items"
    using int plain by (simp add: items_ok_def converts_def exp3_run_parser_def int_arg_def name_arg_def float_arg_def option_arg_def)
  have "value_of ?items ?tasks = VInt 250" "value_of ?items ?name = VStr ''demo''"
    "value_of ?items (float_arg ''--rate'' ''rate'' 500) = VFloat (Finite 500)"
    using int by (simp_all add: value_of_def converted_def int_arg_def name_arg_def float_arg_def option_arg_def)
  moreover have "concat (map item_args ?items) = [''--tasks'', ''250'', ''--run-name=demo'']"
    by (simp add: int_arg_def name_arg_def option_arg_def)
  moreover have "exp3_run_parser \<in> set (program_parsers [])" by (simp add: program_parsers_def)
  ultimately show ?thesis using command_line_read_back [OF _ ok]
    by (auto simp: exp3_run_parser_def float_arg_def int_arg_def name_arg_def option_arg_def)
qed

lemma accepted_target:
  assumes "parse_command main_subparsers False argv = Inr (''chaos'', ns)"
  shows "get_or (arg_str ns ''target'') [] \<in> set chaos_targets"
proof -
  have ok: "parser_ok chaos_parser" using program_parsers_ok [of "[]"] by (simp add: program_parsers_def)
  from assms obtain argv' where "parse_args chaos_parser argv' = Inr ns"
    by (rule parse_command_sub) (auto simp: main_subparsers_def)
  then have "namespace_ok chaos_parser [] ns" by (rule parse_args_typed [OF ok])
  then show ?thesis
    by (auto simp: namespace_ok_def chaos_parser_def positional_typed_def choice_ok_def arg_str_def get_or_def
        split: option.splits arg_value.splits)
qed

lemma cmd_chaos_known_target:
  assumes "target \<in> set chaos_targets"
  shows "fst (cmd_chaos sv cfg target given s) \<noteq> Inr 2"
  using assms
  by (auto simp: cmd_chaos_def chaos_targets_def Let_def bind_res_def split: sum.splits option.splits if_splits prod.splits)

text \<open>
  What the programs do with a command line.  One that is refused, or asks for help, ends the program with exit code 2 or 0
  and without any call.  One that is accepted leads to exactly one call, with the configuration of the
  environment: the last \<open>return 2\<close> of \<open>exp1.py\<close> and \<open>exp3.py\<close> is never reached, a run has a non-empty name, and
  \<open>cmd_chaos\<close> only gets one of its three targets, so that it never takes its branch for an unknown one.
\<close>

theorem commands_dispatched:
  "(case main_command env utcnow argv of
      Inl c \<Rightarrow> c = 0 \<or> c = 2
    | Inr (RunBench cfg args name) \<Rightarrow> cfg = bench_from_env env \<and> name \<noteq> []
    | Inr (Chaos cfg target given) \<Rightarrow>
        cfg = bench_from_env env \<and> target \<in> set chaos_targets \<and> fst (cmd_chaos sv cfg target given s) \<noteq> Inr 2
    | Inr (Plot path) \<Rightarrow> True) \<and>
   (case parse_command exp1_subparsers False argv of
      Inl c \<Rightarrow> exp1_main env utcnow argv = Inl c \<and> (c = 0 \<or> c = 2)
    | Inr _ \<Rightarrow> \<exists>call. exp1_main env utcnow argv = Inr call) \<and>
   (case parse_command exp3_subparsers False argv of
      Inl c \<Rightarrow> exp3_main env utcnow argv = Inl c \<and> (c = 0 \<or> c = 2)
    | Inr _ \<Rightarrow> \<exists>call. exp3_main env utcnow argv = Inr call) \<and>
   (case exp4_main env utcnow argv of
      Inl c \<Rightarrow> c = 0 \<or> c = 2
    | Inr (Exp4Run cfg name duration rate target) \<Rightarrow> cfg = bench_from_env env \<and> name \<noteq> [])"
proof -
  have name: "name_or given (utc_name pre utcnow) \<noteq> []" for given pre
    by (auto simp: name_or_def utc_name_def split: option.splits)
  have sub: "cmd \<in> fst ` set subs" if "parse_command subs False argv = Inr (cmd, ns)" for subs cmd ns
    using that by (rule parse_command_sub) (metis domI dom_map_of_conv_image_fst)
  show ?thesis
    using parse_command_code [of main_subparsers False argv] parse_command_code [of exp1_subparsers False argv]
      parse_command_code [of exp3_subparsers False argv] parse_args_code [of exp4_parser argv] name
      accepted_target [of argv] cmd_chaos_known_target sub [of main_subparsers] sub [of exp1_subparsers] sub [of exp3_subparsers]
    apply (intro conjI)
    subgoal by (auto simp: main_command_def main_subparsers_def split: sum.splits)
    subgoal by (fastforce simp: exp1_main_def exp1_subparsers_def Let_def split: sum.splits)
    subgoal by (fastforce simp: exp3_main_def exp3_subparsers_def Let_def split: sum.splits)
    subgoal by (auto simp: exp4_main_def split: sum.splits)
    done
qed

end
