(* ===== verification/Run_Files.thy ===== *)
theory Run_Files
  imports Py_Json Cli Typed
begin

text \<open>
  The files of a run: what \<open>analyze\<close> of \<open>exp3.py\<close>, \<open>analyze\<close> and \<open>dups\<close> of \<open>exp1.py\<close>, \<open>render\<close> of \<open>plot.py\<close> and
  \<open>plot_exp3.py\<close> read from the run directory and leave in it.  A file is the history (\<open>History_File\<close> shows that its text holds the events),
  a JSON document or a picture; a file system is a dictionary of files.
\<close>

section \<open>Paths and files\<close>

text \<open>\<open>os.path.join\<close> of two parts and \<open>os.path.dirname\<close>.\<close>

definition path_join :: "py_str \<Rightarrow> py_str \<Rightarrow> py_str" where
  "path_join a b = (if startswith b ''/'' then b else if a = [] \<or> last a = CHR ''/'' then a @ b else a @ ''/'' @ b)"

definition dirname :: "py_str \<Rightarrow> py_str" where
  "dirname p =
     (let head = rev (dropWhile (\<lambda>c. c \<noteq> CHR ''/'') (rev p))
      in if list_all (\<lambda>c. c = CHR ''/'') head then head else rev (dropWhile (\<lambda>c. c = CHR ''/'') (rev head)))"

text \<open>Summaries with float figures are kept as the records of their fields.\<close>

datatype run_file = Hist history | Doc json | Exp1Doc exp1_stats | PlotDoc plot_stats | Png

type_synonym run_files = "(py_str, run_file) pydict"

text \<open>A document written with an indent is no line of a history: its first line is an opening brace.\<close>

definition read_hist :: "run_files \<Rightarrow> py_str \<Rightarrow> history result" where
  "read_hist fs p =
     (case dget fs p of None \<Rightarrow> Inl (FileNotFoundError p) | Some (Hist h) \<Rightarrow> Inr h | Some _ \<Rightarrow> Inl ValueError)"

definition read_doc :: "run_files \<Rightarrow> py_str \<Rightarrow> json result" where
  "read_doc fs p =
     (case dget fs p of None \<Rightarrow> Inl (FileNotFoundError p) | Some (Doc j) \<Rightarrow> Inr j | Some _ \<Rightarrow> Inl ValueError)"

section \<open>Documents\<close>

abbreviation jnat :: "nat \<Rightarrow> json" where
  "jnat n \<equiv> JInt (int n)"

abbreviation jstrs :: "py_str list \<Rightarrow> json" where
  "jstrs xs \<equiv> JArr (map (\<lambda>s. JStr (lit s)) xs)"

definition dup_json :: "dup_result \<Rightarrow> json" where
  "dup_json r =
     JObj [(lit ''total_scanned'', jnat (dr_total_scanned r)), (lit ''duplicate_count'', jnat (dr_duplicate_count r)),
       (lit ''max_receive_count'', JInt (dr_max_receive_count r)),
       (lit ''duplicate_task_ids_sample'', jstrs (take 20 (dr_duplicate_task_ids r)))]"

definition div_json :: "divergence_result \<Rightarrow> json" where
  "div_json r =
     JObj [(lit ''total_scanned'', jnat (dv_total_scanned r)), (lit ''stuck_pending'', jnat (dv_stuck_pending r)),
       (lit ''stuck_assigned'', jnat (dv_stuck_assigned r)), (lit ''missing'', jnat (dv_missing r)),
       (lit ''stuck_pending_sample'', jstrs (take 20 (dv_stuck_pending_sample r))),
       (lit ''stuck_assigned_sample'', jstrs (take 20 (dv_stuck_assigned_sample r))),
       (lit ''missing_sample'', jstrs (take 20 (dv_missing_sample r)))]"

text \<open>An empty sample is a nil slice, which Go writes as \<open>null\<close>.\<close>

definition lin_json :: "lin_result \<Rightarrow> json" where
  "lin_json r =
     JObj [(lit ''total_tasks'', jnat (lr_total_tasks r)), (lit ''total_operations'', jnat (lr_total_operations r)),
       (lit ''violations'', jnat (lr_violations r)),
       (lit ''violating_task_sample'', if lr_violating_task_sample r = [] then JNull else jstrs (lr_violating_task_sample r)),
       (lit ''linearizable'', JBool (lr_linearizable r))]"

definition stats_json :: "exp3_stats \<Rightarrow> json" where
  "stats_json st =
     JObj [(lit ''submitted'', jnat (t_submitted st)), (lit ''completed'', jnat (t_completed st)), (lit ''timed_out'', jnat (t_timed_out st)),
       (lit ''lost'', JInt (t_lost st)), (lit ''leader_kills'', jnat (t_leader_kills st)), (lit ''follower_kills'', jnat (t_follower_kills st)),
       (lit ''sqs_redeliveries_injected'', JInt (t_redeliveries st)), (lit ''duplicate_dispatches'', jnat (t_duplicate_dispatches st)),
       (lit ''max_receive_count'', JInt (t_max_receive_count st)), (lit ''stuck_pending'', jnat (t_stuck_pending st)),
       (lit ''stuck_assigned'', jnat (t_stuck_assigned st)),
       (lit ''linearizability_violations'', JInt (t_linearizability_violations st))]"

section \<open>Analysis of experiment 3\<close>

text \<open>
  The checker: \<open>None\<close> when no binary is given or it is not a file.  It writes its result before it exits, skips
  lines that it cannot read, and leaves no file when it does not end within five minutes.
\<close>

definition run_checker ::
  "(lin_op list \<Rightarrow> bool) option \<Rightarrow> bool \<Rightarrow> py_str \<Rightarrow> py_str \<Rightarrow> run_files \<Rightarrow> lin_outcome option \<times> run_files" where
  "run_checker bin in_time path lin_path fs =
     (case bin of
        None \<Rightarrow> (None, fs)
      | Some check_ops \<Rightarrow>
          let h = (case read_hist fs path of Inl _ \<Rightarrow> [] | Inr h \<Rightarrow> h)
          in if in_time then (Some (run_lincheck check_ops h), dset lin_path (Doc (lin_json (lincheck check_ops h))) fs)
             else (Some LinTimeout, fs))"

definition exp3_analyze_files ::
  "batch_get \<Rightarrow> (lin_op list \<Rightarrow> bool) option \<Rightarrow> bool \<Rightarrow> py_str \<Rightarrow> run_files \<Rightarrow> world \<Rightarrow> ((exp3_stats result \<times> run_files) \<times> world) option" where
  "exp3_analyze_files get bin in_time path fs w =
     (let run_dir = dirname path
      in case read_hist fs path of
           Inl e \<Rightarrow> Some ((Inl e, fs), w)
         | Inr h \<Rightarrow>
             (case dup_scan get h w of
                None \<Rightarrow> None
              | Some (Inl e, w1) \<Rightarrow> Some ((Inl e, fs), w1)
              | Some (Inr dup, w1) \<Rightarrow>
                  let fs1 = dset (path_join run_dir ''exp3_dups.json'') (Doc (dup_json dup)) fs
                  in case read_hist fs1 path of
                       Inl e \<Rightarrow> Some ((Inl e, fs1), w1)
                     | Inr h1 \<Rightarrow>
                         (case divergence_scan get h1 w1 of
                            None \<Rightarrow> None
                          | Some (Inl e, w2) \<Rightarrow> Some ((Inl e, fs1), w2)
                          | Some (Inr dv, w2) \<Rightarrow>
                              let fs2 = dset (path_join run_dir ''exp3_divergence.json'') (Doc (div_json dv)) fs1;
                                  (lin, fs3) = run_checker bin in_time path (path_join run_dir ''exp3_lincheck.json'') fs2
                              in case read_hist fs3 path of
                                   Inl e \<Rightarrow> Some ((Inl e, fs3), w2)
                                 | Inr h3 \<Rightarrow> Some ((Inr (exp3_stats_of h3 dup dv lin), fs3), w2))))"

text \<open>The branch for \<open>analyze\<close> of \<open>main\<close>: the exit code, or the exception that ends the program.\<close>

definition exp3_analyze_main ::
  "batch_get \<Rightarrow> (lin_op list \<Rightarrow> bool) option \<Rightarrow> bool \<Rightarrow> py_str \<Rightarrow> run_files \<Rightarrow> world \<Rightarrow> ((int result \<times> run_files) \<times> world) option" where
  "exp3_analyze_main get bin in_time path fs w =
     map_option (\<lambda>((r, fs'), w'). case r of
         Inl e \<Rightarrow> ((Inl e, fs'), w')
       | Inr st \<Rightarrow> ((Inr 0, dset (path_join (dirname path) ''exp3_summary.json'') (Doc (stats_json st)) fs'), w'))
       (exp3_analyze_files get bin in_time path fs w)"

section \<open>Figures of experiment 3\<close>

definition doc_int :: "json \<Rightarrow> py_str \<Rightarrow> int result" where
  "doc_int j k =
     (case j of
        JObj d \<Rightarrow> (case dget d (lit k) of None \<Rightarrow> Inl (KeyError k) | Some (JInt i) \<Rightarrow> Inr i | Some _ \<Rightarrow> Inl TypeError)
      | _ \<Rightarrow> Inl TypeError)"

text \<open>What the figures read of the summary, all but the greatest receive count.\<close>

definition summary_of_json :: "json \<Rightarrow> exp3_stats result" where
  "summary_of_json j =
     bind_res (doc_int j ''submitted'') (\<lambda>sub. bind_res (doc_int j ''completed'') (\<lambda>comp.
     bind_res (doc_int j ''linearizability_violations'') (\<lambda>lin. bind_res (doc_int j ''duplicate_dispatches'') (\<lambda>dup.
     bind_res (doc_int j ''timed_out'') (\<lambda>tmo. bind_res (doc_int j ''lost'') (\<lambda>los.
     bind_res (doc_int j ''stuck_pending'') (\<lambda>pend. bind_res (doc_int j ''stuck_assigned'') (\<lambda>asgn.
     bind_res (doc_int j ''leader_kills'') (\<lambda>lk. bind_res (doc_int j ''follower_kills'') (\<lambda>fk.
     bind_res (doc_int j ''sqs_redeliveries_injected'') (\<lambda>sq.
       Inr \<lparr>t_submitted = nat sub, t_completed = nat comp, t_timed_out = nat tmo, t_lost = los, t_leader_kills = nat lk,
            t_follower_kills = nat fk, t_redeliveries = sq, t_duplicate_dispatches = nat dup, t_max_receive_count = 0,
            t_stuck_pending = nat pend, t_stuck_assigned = nat asgn, t_linearizability_violations = lin\<rparr>)))))))))))"

definition plot3_load :: "run_files \<Rightarrow> py_str \<Rightarrow> (hist_event list \<times> json) result" where
  "plot3_load fs run_dir =
     bind_res (read_hist fs (path_join run_dir ''history.jsonl'')) (\<lambda>h.
     bind_res (read_doc fs (path_join run_dir ''exp3_summary.json'')) (\<lambda>summary.
     bind_res (read_doc fs (path_join run_dir ''exp3_dups.json'')) (\<lambda>dups.
     bind_res (read_doc fs (path_join run_dir ''exp3_divergence.json'')) (\<lambda>divergence.
     bind_res (read_doc fs (path_join run_dir ''exp3_lincheck.json'')) (\<lambda>lin. Inr (events_of h, summary))))))"

text \<open>
  The four figures in turn, each with the exception that it may raise; \<open>None\<close> is a figure that is skipped.  The first
  only needs the summary.
\<close>

definition figures :: "(real list \<Rightarrow> real list \<Rightarrow> nat list) \<Rightarrow> hist_event list \<Rightarrow> (py_str \<times> unit option result) list" where
  "figures np_histogram events =
     [(''fig1_summary_dashboard.png'', Inr (Some ())),
      (''fig2_state_timeline.png'',
         bind_res (task_state_timeline events) (\<lambda>t.
           if tl_points t = [] then Inr None else bind_res (chaos_times events) (\<lambda>_. Inr (Some ())))),
      (''fig3_latency_cdf.png'', bind_res (latency_cdf events) (\<lambda>c. Inr (map_option (\<lambda>_. ()) c))),
      (''fig4_chaos_proof.png'',
         bind_res (chaos_throughput np_histogram events) (\<lambda>_. bind_res (chaos_times events) (\<lambda>_. Inr (Some ()))))]"

fun save_figures :: "py_str \<Rightarrow> (py_str \<times> unit option result) list \<Rightarrow> run_files \<Rightarrow> int result \<times> run_files" where
  "save_figures run_dir [] fs = (Inr 0, fs)"
| "save_figures run_dir ((name, r) # figs) fs =
     (case r of
        Inl e \<Rightarrow> (Inl e, fs)
      | Inr None \<Rightarrow> save_figures run_dir figs fs
      | Inr (Some _) \<Rightarrow> save_figures run_dir figs (dset (path_join run_dir name) Png fs))"

definition plot3_main :: "(real list \<Rightarrow> real list \<Rightarrow> nat list) \<Rightarrow> py_str list \<Rightarrow> run_files \<Rightarrow> int result \<times> run_files" where
  "plot3_main np_histogram argv fs =
     (if length argv < 2 then (Inr 1, fs)
      else
        let run_dir = argv ! 1
        in if \<not> list_ex (\<lambda>(p, _). startswith p (path_join run_dir [])) fs then (Inr 1, fs)
           else case plot3_load fs run_dir of
                  Inl e \<Rightarrow> (Inl e, fs)
                | Inr (events, summary) \<Rightarrow>
                    (case summary_of_json summary of
                       Inl e \<Rightarrow> (Inl e, fs)
                     | Inr st \<Rightarrow> save_figures run_dir (figures np_histogram events) fs))"

section \<open>The other analyses\<close>

definition or_dot :: "py_str \<Rightarrow> py_str" where
  "or_dot d = (if d = [] then ''.'' else d)"

text \<open>The branches for \<open>analyze\<close> and \<open>dups\<close> of \<open>main\<close> in \<open>exp1.py\<close>.\<close>

definition exp1_analyze_main :: "py_str \<Rightarrow> run_files \<Rightarrow> int result \<times> run_files" where
  "exp1_analyze_main path fs =
     (case bind_res (read_hist fs path) exp1_analyze of
        Inl e \<Rightarrow> (Inl e, fs)
      | Inr st \<Rightarrow> (Inr 0, dset (path_join (or_dot (dirname path)) ''exp1_summary.json'') (Exp1Doc st) fs))"

definition exp1_dups_main :: "batch_get \<Rightarrow> py_str \<Rightarrow> run_files \<Rightarrow> world \<Rightarrow> ((int result \<times> run_files) \<times> world) option" where
  "exp1_dups_main get path fs w =
     (case read_hist fs path of
        Inl e \<Rightarrow> Some ((Inl e, fs), w)
      | Inr h \<Rightarrow>
          map_option (\<lambda>(r, w'). case r of
              Inl e \<Rightarrow> ((Inl e, fs), w')
            | Inr dup \<Rightarrow> ((Inr 0, dset (path_join (or_dot (dirname path)) ''exp1_dups.json'') (Doc (dup_json dup)) fs), w'))
            (dup_scan get h w))"

text \<open>\<open>render\<close> of \<open>plot.py\<close>, which \<open>cmd_plot\<close> calls; the summary leaves out the two lists.\<close>

definition render :: "(real list \<Rightarrow> real \<Rightarrow> real) \<Rightarrow> (real list \<Rightarrow> real) \<Rightarrow> py_str \<Rightarrow> run_files \<Rightarrow> unit result \<times> run_files" where
  "render np_percentile np_mean path fs =
     (case bind_res (read_hist fs path) (\<lambda>h. plot_analyze np_percentile np_mean (events_of h)) of
        Inl e \<Rightarrow> (Inl e, fs)
      | Inr st \<Rightarrow>
          let out_dir = or_dot (dirname path);
              fs1 = dset (path_join out_dir ''summary.json'') (PlotDoc (st\<lparr>pl_latencies_ms := [], pl_completions_by_sec := []\<rparr>)) fs;
              fs2 = (if pl_latencies_ms st = [] then fs1 else dset (path_join out_dir ''latency.png'') Png fs1);
              fs3 = (if pl_completions_by_sec st = [] then fs2 else dset (path_join out_dir ''throughput.png'') Png fs2)
          in (Inr (), fs3))"

definition cmd_plot :: "(real list \<Rightarrow> real \<Rightarrow> real) \<Rightarrow> (real list \<Rightarrow> real) \<Rightarrow> py_str \<Rightarrow> run_files \<Rightarrow> int result \<times> run_files" where
  "cmd_plot np_percentile np_mean path fs =
     (case render np_percentile np_mean path fs of (r, fs') \<Rightarrow> (bind_res r (\<lambda>_. Inr 0), fs'))"

text \<open>Where a run writes its history: \<open>run_bench\<close>, \<open>run_exp1\<close>, \<open>run_exp3\<close> and \<open>run_exp4\<close>.\<close>

definition history_path :: "bench_config \<Rightarrow> py_str \<Rightarrow> py_str" where
  "history_path cfg run_name = path_join (path_join (bc_history_dir cfg) run_name) ''history.jsonl''"

section \<open>From the run to the figures\<close>

lemma summary_read_back: "summary_of_json (stats_json st) = Inr (st\<lparr>t_max_receive_count := 0\<rparr>)"
proof -
  have "doc_int (stats_json st) ''submitted'' = Inr (int (t_submitted st))" "doc_int (stats_json st) ''completed'' = Inr (int (t_completed st))"
    "doc_int (stats_json st) ''linearizability_violations'' = Inr (t_linearizability_violations st)"
    "doc_int (stats_json st) ''duplicate_dispatches'' = Inr (int (t_duplicate_dispatches st))"
    "doc_int (stats_json st) ''timed_out'' = Inr (int (t_timed_out st))" "doc_int (stats_json st) ''lost'' = Inr (t_lost st)"
    "doc_int (stats_json st) ''stuck_pending'' = Inr (int (t_stuck_pending st))"
    "doc_int (stats_json st) ''stuck_assigned'' = Inr (int (t_stuck_assigned st))"
    "doc_int (stats_json st) ''leader_kills'' = Inr (int (t_leader_kills st))"
    "doc_int (stats_json st) ''follower_kills'' = Inr (int (t_follower_kills st))"
    "doc_int (stats_json st) ''sqs_redeliveries_injected'' = Inr (t_redeliveries st)"
    by (simp_all add: doc_int_def stats_json_def)
  then show ?thesis by (simp add: summary_of_json_def)
qed

lemma run_dir_paths:
  assumes "run_dir \<noteq> []" "last run_dir \<noteq> CHR ''/''" "\<not> startswith name ''/''"
  shows "path_join run_dir name = run_dir @ ''/'' @ name"
  using assms by (simp add: path_join_def)

lemma dirname_join:
  assumes "run_dir \<noteq> []" "last run_dir \<noteq> CHR ''/''" "CHR ''/'' \<notin> set name"
  shows "dirname (run_dir @ ''/'' @ name) = run_dir"
proof -
  have "dropWhile (\<lambda>c. c \<noteq> CHR ''/'') (rev name @ CHR ''/'' # rev run_dir) = CHR ''/'' # rev run_dir"
    using assms(3) by (subst dropWhile_append2) auto
  moreover have "dropWhile (\<lambda>c. c = CHR ''/'') (rev run_dir) = rev run_dir"
    using assms(1,2) by (cases "rev run_dir") (auto simp: last_rev simp flip: hd_rev)
  moreover have "last run_dir \<in> set run_dir" using assms(1) by simp
  then have "\<not> list_all (\<lambda>c. c = CHR ''/'') run_dir" using assms(2) by (auto simp: list_all_iff)
  ultimately show ?thesis by (simp add: dirname_def Let_def)
qed

lemma typed_fields:
  assumes "list_all typed_event evs"
  shows "\<exists>xs. times_where op ''wall_ns'' e_wall_ns n evs = Inr xs" "\<exists>xs. times_where ''submit'' ''submitted_ns'' e_submitted_ns n evs = Inr xs"
    "\<exists>xs. times_where ''complete'' ''completed_ns'' e_completed_ns n evs = Inr xs"
proof -
  have total: "\<exists>xs. times_where x key f n evs = Inr xs" if "\<And>ev. typed_event ev \<Longrightarrow> is_op x ev \<Longrightarrow> f ev \<noteq> None" for x key f
    unfolding times_where_def
  proof (rule fold_res_total)
    fix ev and xs :: "real list" assume "ev \<in> set evs"
    then have ev: "typed_event ev" using assms by (simp add: list_all_iff)
    then obtain y where "e_op ev = Some y" using typed_eventD(1) by blast
    with that [OF ev] show "\<exists>ys. bind_res (field ''op'' (e_op ev)) (\<lambda>x'. if x' = x
        then bind_res (field key (f ev)) (\<lambda>t. Inr (xs @ [real_of_int (t - n) / 1000000000])) else Inr xs) = Inr ys"
      by (cases "y = x") (auto simp: field_def is_op_def)
  qed
  show "\<exists>xs. times_where op ''wall_ns'' e_wall_ns n evs = Inr xs" by (rule total) (auto simp: typed_event_def)
  show "\<exists>xs. times_where ''submit'' ''submitted_ns'' e_submitted_ns n evs = Inr xs" by (rule total) (auto simp: typed_event_def)
  show "\<exists>xs. times_where ''complete'' ''completed_ns'' e_completed_ns n evs = Inr xs" by (rule total) (auto simp: typed_event_def)
qed

text \<open>On a typed history with a start line no figure raises an exception.\<close>

lemma figures_typed:
  assumes "list_all typed_event evs" "list_ex (is_op ''run_start'') evs"
  obtains r2 r3 where "figures np_histogram evs = [(''fig1_summary_dashboard.png'', Inr (Some ())), (''fig2_state_timeline.png'', Inr r2),
    (''fig3_latency_cdf.png'', Inr r3), (''fig4_chaos_proof.png'', Inr (Some ()))]"
proof -
  obtain n where n: "run_start_ns evs = Inr n" using run_start_found [OF assms(1)] assms(2) by blast
  have "\<exists>obss. map_res obs_of evs = Inr obss"
    using assms(1) by (intro map_res_total obs_of_typed) (auto simp: list_all_iff)
  then obtain obss where obss: "map_res obs_of evs = Inr obss" ..
  obtain c where c: "latency_cdf evs = Inr c" using latency_cdf_total [OF assms(1)] by blast
  obtain l f r s d where "times_where ''chaos.kill_leader'' ''wall_ns'' e_wall_ns n evs = Inr l"
    "times_where ''chaos.kill_follower'' ''wall_ns'' e_wall_ns n evs = Inr f"
    "times_where ''chaos.sqs_redeliver'' ''wall_ns'' e_wall_ns n evs = Inr r"
    "times_where ''submit'' ''submitted_ns'' e_submitted_ns n evs = Inr s"
    "times_where ''complete'' ''completed_ns'' e_completed_ns n evs = Inr d"
    using typed_fields [OF assms(1)] by metis
  then have "\<exists>ct. chaos_times evs = Inr ct" "\<exists>tp. chaos_throughput np_histogram evs = Inr tp"
    by (simp_all add: chaos_times_def chaos_throughput_def n Let_def del: bind_res_eq_Inr)
  with n obss c that show ?thesis by (force simp: figures_def task_state_timeline_def simp del: bind_res_eq_Inr)
qed

lemma save_figures_total:
  assumes "list_all (\<lambda>(_, r). \<exists>x. r = Inr x) figs"
  shows "fst (save_figures run_dir figs fs) = Inr 0 \<and>
    (\<forall>name. (name, Inr (Some ())) \<in> set figs \<or> dget fs (path_join run_dir name) = Some Png \<longrightarrow>
       dget (snd (save_figures run_dir figs fs)) (path_join run_dir name) = Some Png)"
  using assms
proof (induction run_dir figs fs rule: save_figures.induct)
  case (2 run_dir name r figs fs)
  then show ?case by (cases "r = Inr None") (auto split: option.splits)
qed simp

definition checker_outcome :: "(lin_op list \<Rightarrow> bool) option \<Rightarrow> bool \<Rightarrow> history \<Rightarrow> lin_outcome option" where
  "checker_outcome bin in_time h = map_option (\<lambda>check_ops. if in_time then run_lincheck check_ops h else LinTimeout) bin"

text \<open>What the analysis leaves in the run directory.\<close>

lemma analyze_files:
  assumes "run_dir \<noteq> []" "last run_dir \<noteq> CHR ''/''" "dget fs (run_dir @ ''/history.jsonl'') = Some (Hist h)"
    "honest_batch table get" "progressing get" "keyed table"
  shows "\<exists>dup dv st fs' w'. exp3_analyze_main get bin in_time (run_dir @ ''/history.jsonl'') fs w = Some ((Inr 0, fs'), w') \<and>
    exp3_analyze get (checker_outcome bin in_time h) h w = Some (Inr st, w') \<and>
    dget fs' (run_dir @ ''/history.jsonl'') = Some (Hist h) \<and> dget fs' (run_dir @ ''/exp3_summary.json'') = Some (Doc (stats_json st)) \<and>
    dget fs' (run_dir @ ''/exp3_dups.json'') = Some (Doc (dup_json dup)) \<and>
    dget fs' (run_dir @ ''/exp3_divergence.json'') = Some (Doc (div_json dv)) \<and>
    dget fs' (run_dir @ ''/exp3_lincheck.json'') =
      (case bin of Some check_ops \<Rightarrow> if in_time then Some (Doc (lin_json (lincheck check_ops h))) else dget fs (run_dir @ ''/exp3_lincheck.json'')
       | None \<Rightarrow> dget fs (run_dir @ ''/exp3_lincheck.json''))"
proof -
  obtain dup w1 where dup: "dup_scan get h w = Some (Inr dup, w1)" using dup_scan_result [OF assms(4-6), of h w] by blast
  obtain dv w2 where dv: "divergence_scan get h w1 = Some (Inr dv, w2)" using divergence_scan_result [OF assms(4-6), of h w1] by blast
  have dir: "dirname (run_dir @ ''/history.jsonl'') = run_dir" using dirname_join [OF assms(1,2), of "''history.jsonl''"] by simp
  have join: "path_join run_dir ''exp3_dups.json'' = run_dir @ ''/exp3_dups.json''"
    "path_join run_dir ''exp3_divergence.json'' = run_dir @ ''/exp3_divergence.json''"
    "path_join run_dir ''exp3_lincheck.json'' = run_dir @ ''/exp3_lincheck.json''"
    "path_join run_dir ''exp3_summary.json'' = run_dir @ ''/exp3_summary.json''"
    using run_dir_paths [OF assms(1,2)] by simp_all
  show ?thesis
    unfolding exp3_analyze_main_def exp3_analyze_files_def
    by (cases bin) (auto simp: dir join dup dv assms(3) read_hist_def run_checker_def exp3_analyze_def checker_outcome_def Let_def)
qed

lemma startswith_append [simp]: "startswith (a @ b) a"
  by (induction a) auto

text \<open>What \<open>plot_exp3.py\<close> does in a run directory with a typed history and the other files of the analysis.\<close>

lemma plot3_main_files:
  assumes "run_dir \<noteq> []" "last run_dir \<noteq> CHR ''/''" "typed_hist h" "list_ex (is_op ''run_start'') (events_of h)"
    and files: "dget fs (run_dir @ ''/history.jsonl'') = Some (Hist h)" "dget fs (run_dir @ ''/exp3_summary.json'') = Some (Doc (stats_json st))"
      "dget fs (run_dir @ ''/exp3_dups.json'') = Some (Doc dups)" "dget fs (run_dir @ ''/exp3_divergence.json'') = Some (Doc dv)"
  shows "dget fs (run_dir @ ''/exp3_lincheck.json'') = Some (Doc lin) \<Longrightarrow>
      plot3_main np_histogram [''plot_exp3.py'', run_dir] fs = (code, fs') \<Longrightarrow>
      code = Inr 0 \<and> dget fs' (run_dir @ ''/fig1_summary_dashboard.png'') = Some Png \<and>
      dget fs' (run_dir @ ''/fig4_chaos_proof.png'') = Some Png"
    and "dget fs (run_dir @ ''/exp3_lincheck.json'') = None \<Longrightarrow>
      plot3_main np_histogram [''plot_exp3.py'', run_dir] fs = (Inl (FileNotFoundError (run_dir @ ''/exp3_lincheck.json'')), fs)"
proof -
  have join: "path_join run_dir ''exp3_dups.json'' = run_dir @ ''/exp3_dups.json''"
    "path_join run_dir ''exp3_divergence.json'' = run_dir @ ''/exp3_divergence.json''"
    "path_join run_dir ''exp3_lincheck.json'' = run_dir @ ''/exp3_lincheck.json''"
    "path_join run_dir ''exp3_summary.json'' = run_dir @ ''/exp3_summary.json''"
    "path_join run_dir ''history.jsonl'' = run_dir @ ''/history.jsonl''"
    "path_join run_dir ''fig1_summary_dashboard.png'' = run_dir @ ''/fig1_summary_dashboard.png''"
    "path_join run_dir ''fig4_chaos_proof.png'' = run_dir @ ''/fig4_chaos_proof.png''"
    "path_join run_dir [] = run_dir @ ''/''"
    using run_dir_paths [OF assms(1,2)] by simp_all
  note load = plot3_load_def read_hist_def read_doc_def join files
  have "(run_dir @ ''/history.jsonl'', Hist h) \<in> set fs" using files(1) by (rule map_of_SomeD)
  moreover have "startswith (run_dir @ ''/history.jsonl'') (run_dir @ ''/'')"
    using startswith_append [of "run_dir @ ''/''" "''history.jsonl''"] by simp
  ultimately have exists: "list_ex (\<lambda>(p, _). startswith p (run_dir @ ''/'')) fs" unfolding list_ex_iff by fastforce
  obtain r2 r3 where "figures np_histogram (events_of h) = [(''fig1_summary_dashboard.png'', Inr (Some ())),
      (''fig2_state_timeline.png'', Inr r2), (''fig3_latency_cdf.png'', Inr r3), (''fig4_chaos_proof.png'', Inr (Some ()))]"
    by (rule figures_typed [OF assms(3,4)])
  then have ok: "list_all (\<lambda>(_, r). \<exists>x. r = Inr x) (figures np_histogram (events_of h))"
    "(''fig1_summary_dashboard.png'', Inr (Some ())) \<in> set (figures np_histogram (events_of h))"
    "(''fig4_chaos_proof.png'', Inr (Some ())) \<in> set (figures np_histogram (events_of h))"
    by simp_all
  {
    assume "dget fs (run_dir @ ''/exp3_lincheck.json'') = Some (Doc lin)"
      and run: "plot3_main np_histogram [''plot_exp3.py'', run_dir] fs = (code, fs')"
    then have "plot3_load fs run_dir = Inr (events_of h, stats_json st)" by (simp add: load)
    then have "plot3_main np_histogram [''plot_exp3.py'', run_dir] fs = save_figures run_dir (figures np_histogram (events_of h)) fs"
      using exists by (simp add: plot3_main_def summary_read_back join)
    then show "code = Inr 0 \<and> dget fs' (run_dir @ ''/fig1_summary_dashboard.png'') = Some Png \<and>
      dget fs' (run_dir @ ''/fig4_chaos_proof.png'') = Some Png"
      using run save_figures_total [OF ok(1), of run_dir fs] ok(2,3) join(6,7) by (metis fst_conv snd_conv)
  }
  assume "dget fs (run_dir @ ''/exp3_lincheck.json'') = None"
  then have "plot3_load fs run_dir = Inl (FileNotFoundError (run_dir @ ''/exp3_lincheck.json''))" by (simp add: load)
  then show "plot3_main np_histogram [''plot_exp3.py'', run_dir] fs = (Inl (FileNotFoundError (run_dir @ ''/exp3_lincheck.json'')), fs)"
    using exists by (simp add: plot3_main_def join)
qed

text \<open>
  C21: From a run to its figures.  Let the threads of experiment 3 have written the history of a run directory, in
  any interleaving and with a start line, and let BatchGetItem keep its promises.  Then \<open>exp3.py analyze\<close> ends with exit code 0 and stores the
  summary of this history.  If the checker was given and ended in time, \<open>plot_exp3.py\<close> reads all the files, no
  figure raises an exception, and the summary and the proof figure are saved.  Otherwise \<open>plot_exp3.py\<close>
  ends with \<open>FileNotFoundError\<close> for the checker's result, which no figure uses, and saves nothing.
\<close>

theorem exp3_figures_from_run:
  assumes "run_dir \<noteq> []" "last run_dir \<noteq> CHR ''/''" "dget fs (run_dir @ ''/history.jsonl'') = Some (Hist h)"
    and "dget fs (run_dir @ ''/exp3_lincheck.json'') = None"
    and "list_all (thread_trace cfg) ts" "interleaved ts (events_of h)" "list_ex (is_op ''run_start'') (events_of h)"
    and "honest_batch table get" "progressing get" "keyed table"
  shows "\<exists>st fs' w'. exp3_analyze_main get bin in_time (run_dir @ ''/history.jsonl'') fs w = Some ((Inr 0, fs'), w') \<and>
    exp3_analyze get (checker_outcome bin in_time h) h w = Some (Inr st, w') \<and>
    bind_res (read_doc fs' (run_dir @ ''/exp3_summary.json'')) summary_of_json = Inr (st\<lparr>t_max_receive_count := 0\<rparr>) \<and>
    (case plot3_main np_histogram [''plot_exp3.py'', run_dir] fs' of (code, fs'') \<Rightarrow>
       if bin \<noteq> None \<and> in_time
       then code = Inr 0 \<and> dget fs'' (run_dir @ ''/fig1_summary_dashboard.png'') = Some Png \<and>
         dget fs'' (run_dir @ ''/fig4_chaos_proof.png'') = Some Png
       else code = Inl (FileNotFoundError (run_dir @ ''/exp3_lincheck.json'')) \<and> fs'' = fs')"
proof -
  from analyze_files [OF assms(1-3,8-10), of bin in_time w] obtain dup dv st fs' w' where
    an: "exp3_analyze_main get bin in_time (run_dir @ ''/history.jsonl'') fs w = Some ((Inr 0, fs'), w')"
      "exp3_analyze get (checker_outcome bin in_time h) h w = Some (Inr st, w')"
    and files: "dget fs' (run_dir @ ''/history.jsonl'') = Some (Hist h)" "dget fs' (run_dir @ ''/exp3_summary.json'') = Some (Doc (stats_json st))"
      "dget fs' (run_dir @ ''/exp3_dups.json'') = Some (Doc (dup_json dup))"
      "dget fs' (run_dir @ ''/exp3_divergence.json'') = Some (Doc (div_json dv))"
    and lin: "dget fs' (run_dir @ ''/exp3_lincheck.json'') =
      (case bin of Some check_ops \<Rightarrow> if in_time then Some (Doc (lin_json (lincheck check_ops h))) else dget fs (run_dir @ ''/exp3_lincheck.json'')
       | None \<Rightarrow> dget fs (run_dir @ ''/exp3_lincheck.json''))"
    by blast
  have "list_all (list_all typed_event) ts" using assms(5) thread_trace_typed by (auto simp: list_all_iff)
  with assms(6) have "typed_hist h" by (rule interleaved_typed)
  note plot = plot3_main_files [OF assms(1,2) this assms(7) files, where np_histogram = np_histogram]
  have "case plot3_main np_histogram [''plot_exp3.py'', run_dir] fs' of (code, fs'') \<Rightarrow>
       if bin \<noteq> None \<and> in_time
       then code = Inr 0 \<and> dget fs'' (run_dir @ ''/fig1_summary_dashboard.png'') = Some Png \<and>
         dget fs'' (run_dir @ ''/fig4_chaos_proof.png'') = Some Png
       else code = Inl (FileNotFoundError (run_dir @ ''/exp3_lincheck.json'')) \<and> fs'' = fs'"
    using plot lin assms(4) by (cases "bin \<noteq> None \<and> in_time") (auto split: prod.split option.splits)
  with an show ?thesis using summary_read_back by (auto simp: read_doc_def files)
qed

text \<open>The run of \<open>demo_exp3_history\<close>, analysed without a checker: there are no figures.\<close>

theorem exp3_figures_from_run_witness:
  "\<exists>fs' w'. exp3_analyze_main demo_get None True ''r/history.jsonl'' [(''r/history.jsonl'', Hist demo_exp3_history)]
       \<lparr>w_ns = 0, w_k = 0, w_delay = (\<lambda>_. 1)\<rparr> = Some ((Inr 0, fs'), w') \<and>
     plot3_main (\<lambda>_ _. []) [''plot_exp3.py'', ''r''] fs' = (Inl (FileNotFoundError ''r/exp3_lincheck.json''), fs')"
  using exp3_figures_from_run [of "''r''" "[(''r/history.jsonl'', Hist demo_exp3_history)]",
      OF _ _ _ _ demo_exp3_traced demo_batch, of None True "\<lparr>w_ns = 0, w_k = 0, w_delay = (\<lambda>_. 1)\<rparr>" "\<lambda>_ _. []"]
  by auto

end
