(* ===== verification/Plot_Marks.thy ===== *)
theory Plot_Marks
  imports Typed
begin

text \<open>
  The annotations of the figures of \<open>experiments/exp3/plot_exp3.py\<close>: the vertical lines that mark the injected
  faults in the timeline and in the throughput figure, the axis limits of the summary figure, and the labels of the
  latency distribution.
\<close>

section \<open>Fault marks\<close>

definition GRAY :: py_str where "GRAY = ''#95a5a6''"

text \<open>A line at a time, with its colour and its text, if any, at a position.\<close>

record mark =
  mk_time :: real
  mk_color :: py_str
  mk_text :: "(real \<times> real \<times> py_str) option"

definition lf :: py_str where "lf = [CHR 0x0A]"

definition first_only :: "(real \<Rightarrow> mark) \<Rightarrow> (real \<Rightarrow> mark) \<Rightarrow> real list \<Rightarrow> mark list" where
  "first_only f g ts = (case ts of [] \<Rightarrow> [] | t # ts' \<Rightarrow> f t # map g ts')"

definition y_max2 :: "(real \<times> int \<times> int \<times> int) list \<Rightarrow> real" where
  "y_max2 points =
     (let top = (\<lambda>f. max_default (map (\<lambda>pt. real_of_int (f (snd pt))) points))
      in max (max (top fst) (top (fst \<circ> snd))) (top (snd \<circ> snd)))"

definition timeline_marks :: "(py_str, real list) pydict \<Rightarrow> real \<Rightarrow> mark list" where
  "timeline_marks ct y_max =
     map (\<lambda>t. \<lparr>mk_time = t, mk_color = FAIL_RED, mk_text = Some (t + 1 / 2, y_max * (92 / 100), ''Leader'' @ lf @ ''Kill'')\<rparr>)
       (dget_default ct ''leader_kill'' []) @
     map (\<lambda>t. \<lparr>mk_time = t, mk_color = PURPLE, mk_text = Some (t + 1 / 2, y_max * (75 / 100), ''Follower'' @ lf @ ''Kill'')\<rparr>)
       (dget_default ct ''follower_kill'' []) @
     first_only (\<lambda>t. \<lparr>mk_time = t, mk_color = GRAY, mk_text = Some (t, y_max * (55 / 100), ''SQS'' @ lf @ ''Redeliver'')\<rparr>)
       (\<lambda>t. \<lparr>mk_time = t, mk_color = GRAY, mk_text = None\<rparr>) (dget_default ct ''sqs_redeliver'' [])"

text \<open>The faults of the last figure, in the order of the history.\<close>

definition fault_ops :: "py_str list" where
  "fault_ops = [''chaos.kill_leader'', ''chaos.kill_follower'', ''chaos.sqs_redeliver'']"

definition chaos_events :: "hist_event list \<Rightarrow> (py_str \<times> real) list result" where
  "chaos_events events =
     bind_res (run_start_ns events) (\<lambda>n.
       fold_res (\<lambda>ev xs. bind_res (field ''op'' (e_op ev)) (\<lambda>op.
         if op \<in> set fault_ops
         then bind_res (field ''wall_ns'' (e_wall_ns ev)) (\<lambda>t. Inr (xs @ [(op, real_of_int (t - n) / 1000000000)])) else Inr xs)) events [])"

text \<open>The sign before the labels is U+26A1, as UTF-8 bytes.\<close>

definition bolt :: py_str where "bolt = [CHR 0xE2, CHR 0x9A, CHR 0xA1, CHR '' '']"

definition y_max4 :: "throughput \<Rightarrow> real" where
  "y_max4 tp =
     (if tp_submitted tp = [] then 10 else real (fold max (tp_submitted tp @ tp_completed tp) 0))"

definition throughput_mark :: "real \<Rightarrow> py_str \<times> real \<Rightarrow> mark list" where
  "throughput_mark y_max ev =
     (case ev of (op, t) \<Rightarrow>
        if op = ''chaos.kill_leader'' then
          [\<lparr>mk_time = t, mk_color = FAIL_RED, mk_text = Some (t + 1 / 2, y_max * (88 / 100), bolt @ ''Leader'' @ lf @ ''Kill'')\<rparr>]
        else if op = ''chaos.kill_follower'' then
          [\<lparr>mk_time = t, mk_color = PURPLE, mk_text = Some (t + 1 / 2, y_max * (68 / 100), bolt @ ''Follower'' @ lf @ ''Kill'')\<rparr>]
        else if op = ''chaos.sqs_redeliver'' then [\<lparr>mk_time = t, mk_color = GRAY, mk_text = None\<rparr>]
        else [])"

definition throughput_marks :: "(py_str \<times> real) list \<Rightarrow> real \<Rightarrow> mark list" where
  "throughput_marks evs y_max = concat (map (throughput_mark y_max) evs)"

text \<open>The legend for the dotted lines, at the first of them.\<close>

definition redelivery_legend :: "(py_str \<times> real) list \<Rightarrow> real \<Rightarrow> (real \<times> real \<times> py_str) option" where
  "redelivery_legend evs y_max =
     (case map snd (filter (\<lambda>(op, _). op = ''chaos.sqs_redeliver'') evs) of
        [] \<Rightarrow> None
      | t # _ \<Rightarrow> Some (t, y_max * (5 / 100), ''SQS redeliveries'' @ lf @ ''(dotted lines)''))"

section \<open>Limits and labels\<close>

definition dashboard_limits :: "exp3_stats \<Rightarrow> real \<times> real \<times> real" where
  "dashboard_limits st =
     (real (t_submitted st) * (115 / 100),
      max (real_of_int (fold max (map snd (safety_vals st)) (snd (hd (safety_vals st)))) * (14 / 10)) 1,
      real_of_int (fold max [int (t_follower_kills st), t_redeliveries st] (int (t_leader_kills st))) * (14 / 10) + 1)"

definition cdf_labels :: "cdf \<Rightarrow> (real \<times> real \<times> py_str) list" where
  "cdf_labels c =
     map (\<lambda>(pct, val, label). (val, pct, label @ '': '' @ fmt_fixed 1 (val / 1000) @ ''s''))
       [(50, cdf_p50 c, ''p50''), (90, cdf_p90 c, ''p90''), (99, cdf_p99 c, ''p99'')]"

definition cdf_stats_text :: "cdf \<Rightarrow> py_str" where
  "cdf_stats_text c =
     ''n = '' @ dec_nat (length (cdf_xs c)) @ lf @ ''p50  = '' @ fmt_fixed 2 (cdf_p50 c / 1000) @ '' s'' @ lf @
     ''p90  = '' @ fmt_fixed 2 (cdf_p90 c / 1000) @ '' s'' @ lf @ ''p99  = '' @ fmt_fixed 2 (cdf_p99 c / 1000) @ '' s'' @ lf @
     ''max = '' @ fmt_fixed 2 (cdf_max c / 1000) @ '' s''"

section \<open>The two figures mark the same faults\<close>

definition mark_key :: "mark \<Rightarrow> real \<times> py_str" where
  "mark_key m = (mk_time m, mk_color m)"

text \<open>The faults of a typed history: time and colour of each injection.\<close>

definition fault_key :: "int \<Rightarrow> hist_event \<Rightarrow> (real \<times> py_str) list" where
  "fault_key n ev =
     (let t = real_of_int (the (e_wall_ns ev) - n) / 1000000000
      in if is_op ''chaos.kill_leader'' ev then [(t, FAIL_RED)] else if is_op ''chaos.kill_follower'' ev then [(t, PURPLE)]
         else if is_op ''chaos.sqs_redeliver'' ev then [(t, GRAY)] else [])"

lemma fold_res_collect:
  assumes "list_all typed_event evs" "\<And>ev. typed_event ev \<Longrightarrow> P (the (e_op ev)) \<Longrightarrow> f ev \<noteq> None"
  shows "fold_res (\<lambda>ev xs. bind_res (field ''op'' (e_op ev)) (\<lambda>op. if P op then bind_res (field key (f ev)) (\<lambda>t. Inr (xs @ [g op t])) else Inr xs)) evs acc =
     Inr (acc @ map (\<lambda>ev. g (the (e_op ev)) (the (f ev))) (filter (\<lambda>ev. P (the (e_op ev))) evs))"
  using assms(1)
proof (induction evs arbitrary: acc)
  case (Cons ev evs)
  then obtain op where "e_op ev = Some op" using typed_eventD(1) [of ev] by auto
  then show ?case using Cons assms(2) [of ev] by (auto simp: field_def simp del: bind_res_eq_Inr)
qed simp

lemma typed_wall: "typed_event ev \<Longrightarrow> e_wall_ns ev \<noteq> None"
  by (simp add: typed_event_def)

lemma marked_times:
  assumes "list_all typed_event evs"
  shows "times_where op ''wall_ns'' e_wall_ns n evs =
    Inr (map (\<lambda>ev. real_of_int (the (e_wall_ns ev) - n) / 1000000000) (filter (\<lambda>ev. the (e_op ev) = op) evs))"
  unfolding times_where_def
  using fold_res_collect [OF assms, of "\<lambda>x. x = op" e_wall_ns "''wall_ns''" "\<lambda>_ t. real_of_int (t - n) / 1000000000" "[]"] typed_wall by simp

lemma marked_events:
  assumes "list_all typed_event evs" "run_start_ns evs = Inr n"
  shows "chaos_events evs = Inr (map (\<lambda>ev. (the (e_op ev), real_of_int (the (e_wall_ns ev) - n) / 1000000000))
    (filter (\<lambda>ev. the (e_op ev) \<in> set fault_ops) evs))"
  unfolding chaos_events_def assms(2)
  using fold_res_collect [OF assms(1), of "\<lambda>op. op \<in> set fault_ops" e_wall_ns "''wall_ns''"
      "\<lambda>op t. (op, real_of_int (t - n) / 1000000000)" "[]"] typed_wall by simp

lemma first_only_keys:
  assumes "\<And>t. mark_key (f t) = (t, col)" "\<And>t. mark_key (g t) = (t, col)"
  shows "map mark_key (first_only f g ts) = map (\<lambda>t. (t, col)) ts"
  using assms by (cases ts) (simp_all add: first_only_def comp_def)

lemma throughput_keys:
  assumes "list_all typed_event evs"
  shows "map mark_key (throughput_marks (map (\<lambda>ev. (the (e_op ev), real_of_int (the (e_wall_ns ev) - n) / 1000000000))
    (filter (\<lambda>ev. the (e_op ev) \<in> set fault_ops) evs)) y) = concat (map (fault_key n) evs)"
  using assms
proof (induction evs)
  case (Cons ev evs)
  then obtain op where "e_op ev = Some op" using typed_eventD(1) [of ev] by auto
  then have "map mark_key (throughput_marks (if op \<in> set fault_ops then [(op, real_of_int (the (e_wall_ns ev) - n) / 1000000000)] else []) y) =
      fault_key n ev"
    by (auto simp: throughput_marks_def throughput_mark_def fault_key_def fault_ops_def mark_key_def is_op_def Let_def)
  with Cons \<open>e_op ev = Some op\<close> show ?case by (cases "op \<in> set fault_ops") (auto simp: throughput_marks_def)
qed (simp add: throughput_marks_def)

lemma timeline_keys:
  assumes "list_all typed_event evs"
  shows "mset (concat (map (fault_key n) evs)) =
    mset (map (\<lambda>t. (t, FAIL_RED)) (map (\<lambda>ev. real_of_int (the (e_wall_ns ev) - n) / 1000000000) (filter (\<lambda>ev. the (e_op ev) = ''chaos.kill_leader'') evs))) +
    mset (map (\<lambda>t. (t, PURPLE)) (map (\<lambda>ev. real_of_int (the (e_wall_ns ev) - n) / 1000000000) (filter (\<lambda>ev. the (e_op ev) = ''chaos.kill_follower'') evs))) +
    mset (map (\<lambda>t. (t, GRAY)) (map (\<lambda>ev. real_of_int (the (e_wall_ns ev) - n) / 1000000000) (filter (\<lambda>ev. the (e_op ev) = ''chaos.sqs_redeliver'') evs)))"
  using assms
proof (induction evs)
  case (Cons ev evs)
  then obtain op where "e_op ev = Some op" using typed_eventD(1) [of ev] by auto
  with Cons show ?case by (auto simp: fault_key_def is_op_def Let_def)
qed simp

text \<open>
  The timeline and the throughput figure mark the same faults: on a history written by the threads, whatever the
  heights of the figures, both have exactly one line per injected fault, at its time and in the colour of its kind.
\<close>

theorem figures_mark_same_faults:
  assumes "list_all (thread_trace cfg) ts" "interleaved ts evs" "list_ex (is_op ''run_start'') evs"
  shows "\<exists>n ct ces. run_start_ns evs = Inr n \<and> chaos_times evs = Inr ct \<and> chaos_events evs = Inr ces \<and>
    mset (map mark_key (timeline_marks ct y)) = mset (concat (map (fault_key n) evs)) \<and>
    map mark_key (throughput_marks ces y') = concat (map (fault_key n) evs)"
proof -
  have "list_all (list_all typed_event) ts" using assms(1) thread_trace_typed by (auto simp: list_all_iff)
  with assms(2) have typed: "list_all typed_event evs" by (rule interleaved_typed)
  obtain n where n: "run_start_ns evs = Inr n" using run_start_found [OF typed] assms(3) by blast
  define at_op where "at_op op = map (\<lambda>ev. real_of_int (the (e_wall_ns ev) - n) / 1000000000) (filter (\<lambda>ev. the (e_op ev) = op) evs)" for op
  have ct: "chaos_times evs = Inr [(''leader_kill'', at_op ''chaos.kill_leader''), (''follower_kill'', at_op ''chaos.kill_follower''),
      (''sqs_redeliver'', at_op ''chaos.sqs_redeliver'')]"
    by (simp add: chaos_times_def n marked_times [OF typed] at_op_def)
  have "mset (map mark_key (timeline_marks [(''leader_kill'', at_op ''chaos.kill_leader''), (''follower_kill'', at_op ''chaos.kill_follower''),
      (''sqs_redeliver'', at_op ''chaos.sqs_redeliver'')] y)) = mset (concat (map (fault_key n) evs))"
    unfolding timeline_keys [OF typed] at_op_def [symmetric]
    by (simp add: timeline_marks_def dget_default_def first_only_keys [where col = GRAY] mark_key_def comp_def)
  then show ?thesis using n ct marked_events [OF typed n] throughput_keys [OF typed] by blast
qed

theorem figures_mark_same_faults_witness:
  "\<exists>n ct ces. run_start_ns (events_of demo_exp3_history) = Inr n \<and> chaos_times (events_of demo_exp3_history) = Inr ct \<and>
    chaos_events (events_of demo_exp3_history) = Inr ces \<and>
    mset (map mark_key (timeline_marks ct 7)) = mset (map mark_key (throughput_marks ces 10))"
  using figures_mark_same_faults [OF demo_exp3_traced, of 7 10] by metis

end
