(* ===== verification/Raft_Node.thy ===== *)
theory Raft_Node
  imports Raft_Client "HOL-Library.Monad_Syntax"
begin

text \<open>
  \<open>raft/node.go\<close> and \<open>raft/snapshot.go\<close>: one Raft coordinator.  Every method of
  \<open>Node\<close> is cut at its mutex: a definition is what one goroutine does between
  \<open>n.mu.Lock()\<close> and \<open>n.mu.Unlock()\<close>, so a method that sends an RPC is two
  definitions, one before the call and one for the reply.  Theory \<open>Raft_Cluster\<close> interleaves
  them.

  An index outside a slice panics in Go and is \<open>None\<close> here; the lemmas show that no operation
  panics on a log whose indices are consecutive, and that every operation keeps them so.  Go's
  \<open>int\<close> is \<open>int\<close>: terms and indices start at 0 and grow by one, far below \<open>2^63\<close>.
  A Go map is an association list read with 0 for a missing key.  The one-slot signal channels are
  flags: a send sets the flag (or is dropped when it is set), a receive clears it.  The channel that
  \<open>Propose\<close> makes for its caller is named by a number.  The state machine is outside: it is one that
  supports snapshots, and what it answers to \<open>Restore\<close> and \<open>Snapshot\<close> is an argument.
\<close>

section \<open>Data\<close>

datatype raft_role = Follower | Candidate | Leader

record log_entry =
  le_term :: int
  le_index :: int
  le_command :: "string option"

record vote_args =
  va_term :: int
  va_candidateID :: string
  va_lastLogIndex :: int
  va_lastLogTerm :: int

record vote_reply =
  vr_term :: int
  vr_voteGranted :: bool

record append_args =
  aa_term :: int
  aa_leaderID :: string
  aa_prevLogIndex :: int
  aa_prevLogTerm :: int
  aa_entries :: "log_entry list"
  aa_leaderCommit :: int

record append_reply =
  ar_term :: int
  ar_success :: bool

record install_args =
  ia_term :: int
  ia_leaderID :: string
  ia_lastIncludedIndex :: int
  ia_lastIncludedTerm :: int
  ia_data :: string

record install_reply =
  ir_term :: int
  ir_success :: bool

record propose_result =
  pr_committed :: bool
  pr_index :: int
  pr_term :: int

text \<open>\<open>RaftSnapshot\<close>, without the time stamp \<open>TakenAt\<close>, which only operators read.\<close>

record raft_snapshot =
  rs_lastIncludedIndex :: int
  rs_lastIncludedTerm :: int
  rs_currentTerm :: int
  rs_votedFor :: string
  rs_data :: string

record raft_node =
  rn_id :: string
  rn_peers :: "string list"
  rn_currentTerm :: int
  rn_votedFor :: string
  rn_logEntries :: "log_entry list"
  rn_state :: raft_role
  rn_commitIndex :: int
  rn_lastApplied :: int
  rn_nextIndex :: "(string \<times> int) list"
  rn_matchIndex :: "(string \<times> int) list"
  rn_replicateSig :: "(string \<times> bool) list"
  rn_applyCh :: bool
  rn_commitWaits :: "(int \<times> nat) list"
  rn_lastSnapshot :: "raft_snapshot option"
  rn_resetElectionTimer :: bool
  rn_stepDownCh :: bool

text \<open>What \<open>runCandidate\<close> keeps of one election: the votes counted, its two signal channels, the
  peers whose RPC is still running and whether its \<open>select\<close> still waits.\<close>

record election =
  el_term :: int
  el_votes :: nat
  el_won :: bool
  el_steppedDown :: bool
  el_waiting :: "string list"
  el_open :: bool

section \<open>Slices and maps of Go\<close>

definition go_nth :: "'a list \<Rightarrow> int \<Rightarrow> 'a option" where
  "go_nth xs i = (if 0 \<le> i \<and> i < int (length xs) then Some (xs ! nat i) else None)"

definition go_from :: "'a list \<Rightarrow> int \<Rightarrow> 'a list option" where
  "go_from xs i = (if 0 \<le> i \<and> i \<le> int (length xs) then Some (drop (nat i) xs) else None)"

definition go_upto :: "'a list \<Rightarrow> int \<Rightarrow> 'a list option" where
  "go_upto xs i = (if 0 \<le> i \<and> i \<le> int (length xs) then Some (take (nat i) xs) else None)"

definition go_get :: "('k \<times> int) list \<Rightarrow> 'k \<Rightarrow> int" where
  "go_get m k = (case map_of m k of None \<Rightarrow> 0 | Some v \<Rightarrow> v)"

section \<open>Log index helpers\<close>

definition firstIndex :: "log_entry list \<Rightarrow> int option" where
  "firstIndex l = map_option le_index (go_nth l 0)"

definition lastIndex :: "log_entry list \<Rightarrow> int option" where
  "lastIndex l = map_option le_index (go_nth l (int (length l) - 1))"

definition lastLogIndexAndTerm :: "log_entry list \<Rightarrow> (int \<times> int) option" where
  "lastLogIndexAndTerm l = map_option (\<lambda>e. (le_index e, le_term e)) (go_nth l (int (length l) - 1))"

definition entryAt :: "int \<Rightarrow> log_entry list \<Rightarrow> log_entry option option" where
  "entryAt idx l =
     do { first \<leftarrow> firstIndex l;
          lst \<leftarrow> lastIndex l;
          if idx < first \<or> idx > lst then Some None
          else map_option Some (go_nth l (idx - first)) }"

definition termAt :: "int \<Rightarrow> log_entry list \<Rightarrow> int option" where
  "termAt idx l =
     do { first \<leftarrow> firstIndex l;
          lst \<leftarrow> lastIndex l;
          if idx < first \<or> idx > lst then Some 0
          else map_option le_term (go_nth l (idx - first)) }"

definition entriesFrom :: "int \<Rightarrow> log_entry list \<Rightarrow> log_entry list option" where
  "entriesFrom idx0 l =
     do { first \<leftarrow> firstIndex l;
          let idx = (if idx0 \<le> first then first + 1 else idx0);
          lst \<leftarrow> lastIndex l;
          if idx > lst then Some [] else go_from l (idx - first) }"

definition truncateAt :: "int \<Rightarrow> log_entry list \<Rightarrow> log_entry list option" where
  "truncateAt idx l =
     do { first \<leftarrow> firstIndex l;
          lst \<leftarrow> lastIndex l;
          if idx \<le> first \<or> idx > lst then Some l else go_upto l (idx - first) }"

definition placeholder :: "int \<Rightarrow> int \<Rightarrow> log_entry" where
  "placeholder idx trm = \<lparr>le_term = trm, le_index = idx, le_command = None\<rparr>"

definition compactLogLocked :: "int \<Rightarrow> int \<Rightarrow> log_entry list \<Rightarrow> log_entry list option" where
  "compactLogLocked upToIdx upToTerm l =
     do { first \<leftarrow> firstIndex l;
          lst \<leftarrow> lastIndex l;
          if upToIdx \<le> first then Some l
          else if upToIdx \<ge> lst then Some [placeholder upToIdx upToTerm]
          else map_option (\<lambda>rest. placeholder upToIdx upToTerm # rest) (go_from l (upToIdx - first + 1)) }"

section \<open>Construction, roles and elections\<close>

definition NewNode :: "string \<Rightarrow> string list \<Rightarrow> raft_node" where
  "NewNode i peers =
     \<lparr>rn_id = i, rn_peers = peers, rn_currentTerm = 0, rn_votedFor = [],
      rn_logEntries = [placeholder 0 0], rn_state = Follower, rn_commitIndex = 0, rn_lastApplied = 0,
      rn_nextIndex = [], rn_matchIndex = [], rn_replicateSig = [], rn_applyCh = False,
      rn_commitWaits = [], rn_lastSnapshot = None, rn_resetElectionTimer = False, rn_stepDownCh = False\<rparr>"

text \<open>The expiry of \<open>runFollower\<close>'s timer.\<close>

definition follower_timeout :: "raft_node \<Rightarrow> raft_node" where
  "follower_timeout n = n\<lparr>rn_state := Candidate\<rparr>"

definition majority :: "raft_node \<Rightarrow> nat" where
  "majority n = (length (rn_peers n) + 1) div 2 + 1"

text \<open>The first section of \<open>runCandidate\<close>, up to the start of its goroutines.\<close>

definition start_election :: "raft_node \<Rightarrow> (raft_node \<times> vote_args \<times> election) option" where
  "start_election n =
     do { let n' = n\<lparr>rn_currentTerm := rn_currentTerm n + 1, rn_votedFor := rn_id n\<rparr>;
          (lastIdx, lastTerm) \<leftarrow> lastLogIndexAndTerm (rn_logEntries n');
          Some (n',
                \<lparr>va_term = rn_currentTerm n', va_candidateID = rn_id n,
                 va_lastLogIndex = lastIdx, va_lastLogTerm = lastTerm\<rparr>,
                \<lparr>el_term = rn_currentTerm n', el_votes = 1, el_won = (1 \<ge> majority n),
                 el_steppedDown = False, el_waiting = rn_peers n, el_open = True\<rparr>) }"

text \<open>A goroutine of \<open>runCandidate\<close> after its RPC returned without an error.\<close>

definition vote_reply_received :: "vote_reply \<Rightarrow> raft_node \<times> election \<Rightarrow> raft_node \<times> election" where
  "vote_reply_received r = (\<lambda>(n, el).
     if vr_term r > rn_currentTerm n then
       (n\<lparr>rn_currentTerm := vr_term r, rn_votedFor := [], rn_state := Follower\<rparr>, el\<lparr>el_steppedDown := True\<rparr>)
     else if vr_voteGranted r then
       (n, el\<lparr>el_votes := el_votes el + 1, el_won := el_won el \<or> el_votes el + 1 \<ge> majority n\<rparr>)
     else (n, el))"

definition initLeaderState :: "raft_node \<Rightarrow> raft_node option" where
  "initLeaderState n =
     do { (lastIdx, _) \<leftarrow> lastLogIndexAndTerm (rn_logEntries n);
          Some (n\<lparr>rn_nextIndex := fold (\<lambda>p. AList.update p (lastIdx + 1)) (rn_peers n) [],
                  rn_matchIndex := AList.update (rn_id n) lastIdx (fold (\<lambda>p. AList.update p 0) (rn_peers n) []),
                  rn_replicateSig := fold (\<lambda>p. AList.update p False) (rn_peers n) []\<rparr>) }"

text \<open>The branch \<open><-wonElection\<close> of \<open>runCandidate\<close>.\<close>

definition become_leader :: "raft_node \<Rightarrow> raft_node option" where
  "become_leader n = initLeaderState (n\<lparr>rn_state := Leader\<rparr>)"

section \<open>RPC handlers\<close>

definition HandleRequestVote :: "vote_args \<Rightarrow> raft_node \<Rightarrow> (raft_node \<times> vote_reply) option" where
  "HandleRequestVote args n0 =
     (let n = (if va_term args > rn_currentTerm n0
               then n0\<lparr>rn_currentTerm := va_term args, rn_votedFor := [], rn_state := Follower\<rparr> else n0);
          reply = \<lparr>vr_term = rn_currentTerm n, vr_voteGranted = False\<rparr>
      in if va_term args < rn_currentTerm n then Some (n, reply)
         else if rn_votedFor n \<noteq> [] \<and> rn_votedFor n \<noteq> va_candidateID args then Some (n, reply)
         else do { (lastIdx, lastTerm) \<leftarrow> lastLogIndexAndTerm (rn_logEntries n);
                   if va_lastLogTerm args > lastTerm \<or> va_lastLogTerm args = lastTerm \<and> va_lastLogIndex args \<ge> lastIdx
                   then Some (n\<lparr>rn_votedFor := va_candidateID args, rn_resetElectionTimer := True\<rparr>,
                              reply\<lparr>vr_voteGranted := True\<rparr>)
                   else Some (n, reply) })"

text \<open>Rule 2 of \<open>HandleAppendEntries\<close>, which \<open>HandleInstallSnapshot\<close> repeats: take a message
  of a term not below one's own as the word of a leader.\<close>

definition recognize :: "int \<Rightarrow> raft_node \<Rightarrow> raft_node" where
  "recognize trm n =
     (if trm > rn_currentTerm n \<or> rn_state n \<noteq> Follower
      then n\<lparr>rn_currentTerm := trm, rn_votedFor := [], rn_state := Follower\<rparr> else n)"

text \<open>Rule 4: the loop over \<open>args.Entries\<close>, at position \<open>idx\<close>.\<close>

fun append_loop :: "int \<Rightarrow> log_entry list \<Rightarrow> log_entry list \<Rightarrow> log_entry list option" where
  "append_loop idx [] l = Some l"
| "append_loop idx (e # es) l =
     do { first \<leftarrow> firstIndex l;
          if idx \<le> first then append_loop (idx + 1) es l
          else do { existing \<leftarrow> entryAt idx l;
                    case existing of
                      None \<Rightarrow> append_loop (idx + 1) es (l @ [e])
                    | Some x \<Rightarrow>
                        if le_term x \<noteq> le_term e
                        then do { l' \<leftarrow> truncateAt idx l; append_loop (idx + 1) es (l' @ [e]) }
                        else append_loop (idx + 1) es l } }"

text \<open>Rule 5.\<close>

definition advance_follower_commit :: "append_args \<Rightarrow> raft_node \<Rightarrow> raft_node" where
  "advance_follower_commit args n =
     (let newCommit = min (aa_leaderCommit args) (aa_prevLogIndex args + int (length (aa_entries args)))
      in if aa_leaderCommit args > rn_commitIndex n \<and> newCommit > rn_commitIndex n
         then n\<lparr>rn_commitIndex := newCommit, rn_applyCh := True\<rparr> else n)"

definition HandleAppendEntries :: "append_args \<Rightarrow> raft_node \<Rightarrow> (raft_node \<times> append_reply) option" where
  "HandleAppendEntries args n0 =
     (if aa_term args < rn_currentTerm n0 then Some (n0, \<lparr>ar_term = rn_currentTerm n0, ar_success = False\<rparr>)
      else
        (let n = (recognize (aa_term args) n0)\<lparr>rn_resetElectionTimer := True\<rparr>;
             reply = \<lparr>ar_term = rn_currentTerm n, ar_success = False\<rparr>;
             l = rn_logEntries n
         in do { lst \<leftarrow> lastIndex l;
                 if aa_prevLogIndex args > lst then Some (n, reply)
                 else do {
                   first \<leftarrow> firstIndex l;
                   prevTerm \<leftarrow> (if aa_prevLogIndex args \<ge> first then termAt (aa_prevLogIndex args) l
                                 else Some (aa_prevLogTerm args));
                   if prevTerm \<noteq> aa_prevLogTerm args then Some (n, reply)
                   else do { l' \<leftarrow> append_loop (aa_prevLogIndex args + 1) (aa_entries args) l;
                             Some (advance_follower_commit args (n\<lparr>rn_logEntries := l'\<rparr>),
                                   reply\<lparr>ar_success := True\<rparr>) } } }))"

text \<open>\<open>restore_ok\<close>: the state machine's \<open>Restore\<close> of the data gave no error, or there was
  nothing to restore.\<close>

definition HandleInstallSnapshot :: "install_args \<Rightarrow> bool \<Rightarrow> raft_node \<Rightarrow> (raft_node \<times> install_reply) option" where
  "HandleInstallSnapshot args restore_ok n0 =
     (if ia_term args < rn_currentTerm n0 then Some (n0, \<lparr>ir_term = rn_currentTerm n0, ir_success = False\<rparr>)
      else
        (let n = (recognize (ia_term args) n0)\<lparr>rn_resetElectionTimer := True\<rparr>;
             reply = \<lparr>ir_term = rn_currentTerm n, ir_success = False\<rparr>
         in do { first \<leftarrow> firstIndex (rn_logEntries n);
                 if ia_lastIncludedIndex args \<le> first \<and> first > 0 then Some (n, reply\<lparr>ir_success := True\<rparr>)
                 else
                   Some (n\<lparr>rn_logEntries := [placeholder (ia_lastIncludedIndex args) (ia_lastIncludedTerm args)],
                           rn_commitIndex := ia_lastIncludedIndex args,
                           rn_lastApplied := ia_lastIncludedIndex args,
                           rn_lastSnapshot := Some
                             \<lparr>rs_lastIncludedIndex = ia_lastIncludedIndex args,
                              rs_lastIncludedTerm = ia_lastIncludedTerm args,
                              rs_currentTerm = rn_currentTerm n, rs_votedFor = rn_votedFor n,
                              rs_data = ia_data args\<rparr>\<rparr>,
                         reply\<lparr>ir_success := restore_ok\<rparr>) }))"

section \<open>Replication and commitment\<close>

definition replicated_count :: "int \<Rightarrow> raft_node \<Rightarrow> nat" where
  "replicated_count N n = 1 + length (filter (\<lambda>p. go_get (rn_matchIndex n) p \<ge> N) (rn_peers n))"

function advance_loop :: "int \<Rightarrow> raft_node \<Rightarrow> raft_node option" where
  "advance_loop N n =
     (if N \<le> rn_commitIndex n then Some n
      else do { first \<leftarrow> firstIndex (rn_logEntries n);
                if N < first then Some n
                else do { trm \<leftarrow> termAt N (rn_logEntries n);
                          if trm \<noteq> rn_currentTerm n then advance_loop (N - 1) n
                          else if replicated_count N n \<ge> majority n
                          then Some (n\<lparr>rn_commitIndex := N, rn_applyCh := True\<rparr>)
                          else advance_loop (N - 1) n } })"
  by pat_completeness auto
termination by (relation "measure (\<lambda>(N, n). nat (N - rn_commitIndex n))") auto

declare advance_loop.simps [simp del]

definition maybeAdvanceCommitLocked :: "raft_node \<Rightarrow> raft_node option" where
  "maybeAdvanceCommitLocked n = do { lastIdx \<leftarrow> lastIndex (rn_logEntries n); advance_loop lastIdx n }"

text \<open>The common answer to a reply of a higher term.\<close>

definition step_down :: "int \<Rightarrow> raft_node \<Rightarrow> raft_node" where
  "step_down trm n =
     n\<lparr>rn_currentTerm := trm, rn_votedFor := [], rn_state := Follower, rn_stepDownCh := True\<rparr>"

datatype send_start = SendNothing | SendSnapshot | SendAppend raft_node append_args

definition sendAppend_begin :: "string \<Rightarrow> raft_node \<Rightarrow> send_start option" where
  "sendAppend_begin peerID n =
     (if rn_state n \<noteq> Leader then Some SendNothing
      else do { first \<leftarrow> firstIndex (rn_logEntries n);
                let next0 = go_get (rn_nextIndex n) peerID;
                if next0 \<le> first \<and> rn_lastSnapshot n \<noteq> None then Some SendSnapshot
                else do {
                  let nxt = (if next0 \<le> first then first + 1 else next0);
                  let n' = (if next0 \<le> first then n\<lparr>rn_nextIndex := AList.update peerID nxt (rn_nextIndex n)\<rparr> else n);
                  prevTerm \<leftarrow> termAt (nxt - 1) (rn_logEntries n);
                  entries \<leftarrow> entriesFrom nxt (rn_logEntries n);
                  Some (SendAppend n'
                    \<lparr>aa_term = rn_currentTerm n, aa_leaderID = rn_id n, aa_prevLogIndex = nxt - 1,
                     aa_prevLogTerm = prevTerm, aa_entries = entries, aa_leaderCommit = rn_commitIndex n\<rparr>) } })"

text \<open>Two statements the two reply sections share: the larger of the old value and the new one.\<close>

definition raise_to :: "string \<Rightarrow> int \<Rightarrow> (string \<times> int) list \<Rightarrow> (string \<times> int) list" where
  "raise_to k v m = (if v > go_get m k then AList.update k v m else m)"

definition sendAppend_end :: "string \<Rightarrow> append_args \<Rightarrow> append_reply \<Rightarrow> raft_node \<Rightarrow> raft_node option" where
  "sendAppend_end peerID args reply n =
     (if ar_term reply > rn_currentTerm n then Some (step_down (ar_term reply) n)
      else if rn_state n \<noteq> Leader \<or> rn_currentTerm n \<noteq> aa_term args then Some n
      else if ar_success reply then
        (let newMatch = aa_prevLogIndex args + int (length (aa_entries args))
         in maybeAdvanceCommitLocked
              (n\<lparr>rn_matchIndex := raise_to peerID newMatch (rn_matchIndex n),
                 rn_nextIndex := raise_to peerID (newMatch + 1) (rn_nextIndex n)\<rparr>))
      else do { first \<leftarrow> firstIndex (rn_logEntries n);
                let n' = (if go_get (rn_nextIndex n) peerID > first + 1
                          then n\<lparr>rn_nextIndex := AList.update peerID (go_get (rn_nextIndex n) peerID - 1) (rn_nextIndex n)\<rparr>
                          else n);
                Some (if map_of (rn_replicateSig n') peerID \<noteq> None
                      then n'\<lparr>rn_replicateSig := AList.update peerID True (rn_replicateSig n')\<rparr> else n') })"

definition sendInstallSnapshot_begin :: "raft_node \<Rightarrow> install_args option" where
  "sendInstallSnapshot_begin n =
     (if rn_state n \<noteq> Leader then None
      else map_option (\<lambda>snap. \<lparr>ia_term = rn_currentTerm n, ia_leaderID = rn_id n,
                               ia_lastIncludedIndex = rs_lastIncludedIndex snap,
                               ia_lastIncludedTerm = rs_lastIncludedTerm snap,
                               ia_data = rs_data snap\<rparr>) (rn_lastSnapshot n))"

definition sendInstallSnapshot_end :: "string \<Rightarrow> install_args \<Rightarrow> install_reply \<Rightarrow> raft_node \<Rightarrow> raft_node option" where
  "sendInstallSnapshot_end peerID args reply n =
     (if ir_term reply > rn_currentTerm n then Some (step_down (ir_term reply) n)
      else if \<not> ir_success reply \<or> rn_state n \<noteq> Leader \<or> rn_currentTerm n \<noteq> ia_term args then Some n
      else maybeAdvanceCommitLocked
             (n\<lparr>rn_matchIndex := raise_to peerID (ia_lastIncludedIndex args) (rn_matchIndex n),
                rn_nextIndex := raise_to peerID (ia_lastIncludedIndex args + 1) (rn_nextIndex n)\<rparr>))"


section \<open>Proposals and the apply loop\<close>

text \<open>\<open>ch\<close> is the channel the call makes; \<open>None\<close> inside is the return \<open>(nil, false)\<close>.\<close>

definition Propose :: "nat \<Rightarrow> string \<Rightarrow> raft_node \<Rightarrow> (raft_node \<times> bool) option" where
  "Propose ch cmd n =
     (if rn_state n \<noteq> Leader then Some (n, False)
      else do { (lastIdx, _) \<leftarrow> lastLogIndexAndTerm (rn_logEntries n);
                let entry = \<lparr>le_term = rn_currentTerm n, le_index = lastIdx + 1, le_command = Some cmd\<rparr>;
                n' \<leftarrow> maybeAdvanceCommitLocked
                  (n\<lparr>rn_logEntries := rn_logEntries n @ [entry],
                     rn_matchIndex := AList.update (rn_id n) (lastIdx + 1) (rn_matchIndex n),
                     rn_commitWaits := AList.update (lastIdx + 1) ch (rn_commitWaits n)\<rparr>);
                Some (n'\<lparr>rn_replicateSig := map (\<lambda>(p, _). (p, True)) (rn_replicateSig n')\<rparr>, True) })"

text \<open>The results sent on the waiters' channels come back as a list.\<close>

definition abortPendingProposals :: "raft_node \<Rightarrow> raft_node \<times> (nat \<times> propose_result) list" where
  "abortPendingProposals n =
     (n\<lparr>rn_commitWaits := filter (\<lambda>(idx, _). idx \<le> rn_commitIndex n) (rn_commitWaits n)\<rparr>,
      map (\<lambda>(idx, ch). (ch, \<lparr>pr_committed = False, pr_index = idx, pr_term = 0\<rparr>))
        (filter (\<lambda>(idx, _). idx > rn_commitIndex n) (rn_commitWaits n)))"

text \<open>One round of \<open>applyLoop\<close>'s inner loop: the section before \<open>sm.Apply\<close>, which ends the
  loop or picks an entry with its waiter, and the section after it, with the result it sends.\<close>

datatype apply_pick = ApplyBreak | ApplyEntry int log_entry "nat option"

definition apply_begin :: "raft_node \<Rightarrow> (raft_node \<times> apply_pick) option" where
  "apply_begin n =
     (let nxt = rn_lastApplied n + 1
      in if nxt > rn_commitIndex n then Some (n, ApplyBreak)
         else do { found \<leftarrow> entryAt nxt (rn_logEntries n);
                   first \<leftarrow> firstIndex (rn_logEntries n);
                   Some (case found of
                           None \<Rightarrow> (if nxt \<le> first then n\<lparr>rn_lastApplied := first\<rparr> else n, ApplyBreak)
                         | Some e \<Rightarrow> (n\<lparr>rn_commitWaits := AList.delete nxt (rn_commitWaits n)\<rparr>,
                                      ApplyEntry nxt e (map_of (rn_commitWaits n) nxt))) })"

definition apply_finish :: "int \<Rightarrow> log_entry \<Rightarrow> nat option \<Rightarrow> raft_node \<Rightarrow> raft_node \<times> (nat \<times> propose_result) list" where
  "apply_finish nxt e waiter n =
     (n\<lparr>rn_lastApplied := nxt\<rparr>,
      case waiter of None \<Rightarrow> []
      | Some ch \<Rightarrow> [(ch, \<lparr>pr_committed = True, pr_index = le_index e, pr_term = le_term e\<rparr>)])"

section \<open>Snapshots\<close>

text \<open>\<open>TakeSnapshot\<close> before and after the state machine is serialized and the result is saved:
  \<open>None\<close> inside is the return with nothing to do.\<close>

definition TakeSnapshot_begin :: "raft_node \<Rightarrow> (string \<Rightarrow> raft_snapshot) option option" where
  "TakeSnapshot_begin n =
     do { first \<leftarrow> firstIndex (rn_logEntries n);
          if rn_lastApplied n \<le> first then Some None
          else do { lastTerm \<leftarrow> termAt (rn_lastApplied n) (rn_logEntries n);
                    Some (Some (\<lambda>data.
                      \<lparr>rs_lastIncludedIndex = rn_lastApplied n, rs_lastIncludedTerm = lastTerm,
                       rs_currentTerm = rn_currentTerm n, rs_votedFor = rn_votedFor n, rs_data = data\<rparr>)) } }"

definition TakeSnapshot_end :: "raft_snapshot \<Rightarrow> raft_node \<Rightarrow> raft_node option" where
  "TakeSnapshot_end snap n =
     do { l \<leftarrow> compactLogLocked (rs_lastIncludedIndex snap) (rs_lastIncludedTerm snap) (rn_logEntries n);
          Some (n\<lparr>rn_logEntries := l, rn_lastSnapshot := Some snap\<rparr>) }"

text \<open>The guard of \<open>RunSnapshotLoop\<close>, with its default threshold.\<close>

definition snapshot_due :: "int \<Rightarrow> raft_node \<Rightarrow> bool option" where
  "snapshot_due threshold n =
     do { first \<leftarrow> firstIndex (rn_logEntries n);
          Some (rn_lastApplied n - first \<ge> (if threshold < 1 then 1000 else threshold)) }"

text \<open>What \<open>RestoreSnapshot\<close> does to a node whose store gave a snapshot or none; the flag says
  whether it returned without an error (\<open>main\<close> exits otherwise).\<close>

definition RestoreSnapshot :: "raft_snapshot option \<Rightarrow> bool \<Rightarrow> raft_node \<Rightarrow> raft_node \<times> bool" where
  "RestoreSnapshot stored restore_ok n =
     (case stored of
        None \<Rightarrow> (n, True)
      | Some s \<Rightarrow>
          (let n' = n\<lparr>rn_logEntries := [placeholder (rs_lastIncludedIndex s) (rs_lastIncludedTerm s)],
                      rn_commitIndex := rs_lastIncludedIndex s, rn_lastApplied := rs_lastIncludedIndex s,
                      rn_currentTerm := rs_currentTerm s, rn_votedFor := rs_votedFor s\<rparr>
           in if restore_ok then (n'\<lparr>rn_lastSnapshot := Some s\<rparr>, True) else (n', False)))"

section \<open>The observed state\<close>

fun role_string :: "raft_role \<Rightarrow> string" where
  "role_string Follower = ''follower''"
| "role_string Candidate = ''candidate''"
| "role_string Leader = ''leader''"

text \<open>\<open>Snapshot\<close> as the document of \<open>GET /state\<close>; an empty map is omitted.\<close>

definition omitempty :: "'a list \<Rightarrow> 'a list option" where
  "omitempty m = (if m = [] then None else Some m)"

definition node_snapshot :: "raft_node \<Rightarrow> state_doc" where
  "node_snapshot n =
     \<lparr>d_node_id = Some (rn_id n), d_state = Some (role_string (rn_state n)),
      d_current_term = Some (rn_currentTerm n), d_voted_for = Some (rn_votedFor n),
      d_commit_index = Some (rn_commitIndex n), d_last_applied = Some (rn_lastApplied n),
      d_log_length = Some (int (length (rn_logEntries n))),
      d_match_index = (if rn_state n = Leader then omitempty (rn_matchIndex n) else None),
      d_next_index = (if rn_state n = Leader then omitempty (rn_nextIndex n) else None)\<rparr>"


section \<open>Logs with consecutive indices\<close>

fun contig :: "int \<Rightarrow> log_entry list \<Rightarrow> bool" where
  "contig k [] = True"
| "contig k (e # es) = (le_index e = k \<and> contig (k + 1) es)"

definition first_of :: "log_entry list \<Rightarrow> int" where
  "first_of l = le_index (hd l)"

definition last_of :: "log_entry list \<Rightarrow> int" where
  "last_of l = first_of l + int (length l) - 1"

definition wf_log :: "log_entry list \<Rightarrow> bool" where
  "wf_log l \<longleftrightarrow> l \<noteq> [] \<and> contig (first_of l) l"

lemma contig_append [simp]: "contig k (xs @ ys) \<longleftrightarrow> contig k xs \<and> contig (k + int (length xs)) ys"
  by (induction xs arbitrary: k) (auto simp: algebra_simps)

lemma contig_nth: "contig k l \<Longrightarrow> i < length l \<Longrightarrow> le_index (l ! i) = k + int i"
proof (induction l arbitrary: k i)
  case (Cons e es)
  then show ?case by (cases i) auto
qed simp

lemma contig_drop: "contig k l \<Longrightarrow> i \<le> length l \<Longrightarrow> contig (k + int i) (drop i l)"
  using contig_append [of k "take i l" "drop i l"] by (simp add: min.absorb2)

lemma contig_take: "contig k l \<Longrightarrow> contig k (take i l)"
  using contig_append [of k "take i l" "drop i l"] by simp

lemma first_of_append [simp]: "l \<noteq> [] \<Longrightarrow> first_of (l @ es) = first_of l"
  by (simp add: first_of_def)

lemma wf_log_single [simp]: "wf_log [e]"
  by (simp add: wf_log_def first_of_def)

lemma wf_log_snoc: "wf_log l \<Longrightarrow> le_index e = last_of l + 1 \<Longrightarrow> wf_log (l @ [e])"
  by (simp add: wf_log_def last_of_def)

lemma last_of_snoc [simp]: "l \<noteq> [] \<Longrightarrow> last_of (l @ [e]) = last_of l + 1"
  by (simp add: last_of_def)

lemma first_of_take [simp]: "0 < i \<Longrightarrow> first_of (take i l) = first_of l"
  by (simp add: first_of_def)

lemma wf_log_take: "wf_log l \<Longrightarrow> 0 < i \<Longrightarrow> wf_log (take i l)"
  by (simp add: wf_log_def contig_take)

lemma wf_log_first: "wf_log l \<Longrightarrow> firstIndex l = Some (first_of l)"
  by (auto simp: wf_log_def firstIndex_def go_nth_def first_of_def hd_conv_nth)

lemma wf_log_last: "wf_log l \<Longrightarrow> lastIndex l = Some (last_of l)"
  by (auto simp: wf_log_def lastIndex_def go_nth_def last_of_def contig_nth nat_diff_distrib Suc_leI of_nat_diff)

lemma wf_log_last_term: "wf_log l \<Longrightarrow> lastLogIndexAndTerm l = Some (last_of l, le_term (last l))"
  by (auto simp: wf_log_def lastLogIndexAndTerm_def go_nth_def last_of_def contig_nth nat_diff_distrib
      last_conv_nth Suc_leI of_nat_diff)

lemma first_le_last: "wf_log l \<Longrightarrow> first_of l \<le> last_of l"
  by (cases l) (auto simp: wf_log_def last_of_def)

lemma wf_log_entryAt:
  "wf_log l \<Longrightarrow> entryAt idx l =
     Some (if idx < first_of l \<or> idx > last_of l then None else Some (l ! nat (idx - first_of l)))"
  by (auto simp: entryAt_def wf_log_first wf_log_last go_nth_def last_of_def)

lemma wf_log_termAt:
  "wf_log l \<Longrightarrow> termAt idx l =
     Some (if idx < first_of l \<or> idx > last_of l then 0 else le_term (l ! nat (idx - first_of l)))"
  by (auto simp: termAt_def wf_log_first wf_log_last go_nth_def last_of_def)

lemma wf_log_entriesFrom:
  "wf_log l \<Longrightarrow> entriesFrom idx l = Some (drop (nat (max idx (first_of l + 1) - first_of l)) l)"
  by (cases "idx \<le> first_of l")
    (auto simp: entriesFrom_def wf_log_first wf_log_last go_from_def last_of_def Let_def max.absorb1 max.absorb2)

lemma wf_log_truncateAt:
  "wf_log l \<Longrightarrow> truncateAt idx l = Some (if idx \<le> first_of l then l else take (nat (idx - first_of l)) l)"
  by (auto simp: truncateAt_def wf_log_first wf_log_last go_upto_def last_of_def)

lemma wf_log_compact:
  "wf_log l \<Longrightarrow> compactLogLocked idx trm l =
     Some (if idx \<le> first_of l then l
           else placeholder idx trm # (if idx \<ge> last_of l then [] else drop (nat (idx - first_of l + 1)) l))"
  by (auto simp: compactLogLocked_def wf_log_first wf_log_last go_from_def last_of_def)

lemmas wf_log_simps = wf_log_first wf_log_last wf_log_last_term wf_log_entryAt wf_log_termAt
  wf_log_entriesFrom wf_log_truncateAt wf_log_compact

lemma entries_contig: "wf_log l \<Longrightarrow> entriesFrom idx l = Some es \<Longrightarrow> contig (max idx (first_of l + 1)) es"
proof -
  assume wf: "wf_log l" and es: "entriesFrom idx l = Some es"
  let ?k = "nat (max idx (first_of l + 1) - first_of l)"
  from wf es have [simp]: "es = drop ?k l" by (simp add: wf_log_entriesFrom)
  show ?thesis
  proof (cases "?k \<le> length l")
    case True
    with wf have "contig (first_of l + int ?k) (drop ?k l)" by (intro contig_drop) (simp_all add: wf_log_def)
    then show ?thesis by (simp add: max_def split: if_splits)
  qed simp
qed

lemma compact_wf: "wf_log l \<Longrightarrow> compactLogLocked idx trm l = Some l' \<Longrightarrow> wf_log l'"
proof -
  assume wf: "wf_log l" and l': "compactLogLocked idx trm l = Some l'"
  have "contig (idx + 1) (drop (nat (idx - first_of l + 1)) l)" if "first_of l < idx" "idx < last_of l"
    using contig_drop [of "first_of l" l "nat (idx - first_of l + 1)"] wf that
    by (simp add: wf_log_def last_of_def add.commute)
  with wf l' show ?thesis
    by (auto simp: wf_log_compact wf_log_def [of "_ # _"] first_of_def placeholder_def split: if_splits)
qed


section \<open>What the append loop leaves\<close>

text \<open>The entry of index \<open>j\<close> of a log with consecutive indices.\<close>

definition look :: "int \<Rightarrow> log_entry list \<Rightarrow> log_entry option" where
  "look j l = (if j < first_of l \<or> j > last_of l then None else Some (l ! nat (j - first_of l)))"

lemma entryAt_look: "wf_log l \<Longrightarrow> entryAt j l = Some (look j l)"
  by (simp add: wf_log_entryAt look_def)

lemma wf_log_nonempty: "wf_log l \<Longrightarrow> l \<noteq> []"
  by (simp add: wf_log_def)

lemma look_snoc_old: "wf_log l \<Longrightarrow> j \<le> last_of l \<Longrightarrow> look j (l @ [e]) = look j l"
  by (auto simp: look_def wf_log_nonempty nth_append last_of_def)

lemma look_snoc_new: "wf_log l \<Longrightarrow> look (last_of l + 1) (l @ [e]) = Some e"
  by (auto simp: look_def wf_log_nonempty nth_append last_of_def wf_log_def)

lemma last_of_take: "0 < i \<Longrightarrow> i \<le> length l \<Longrightarrow> last_of (take i l) = first_of l + int i - 1"
  by (simp add: last_of_def min.absorb2)

lemma look_take:
  "first_of l < idx \<Longrightarrow> idx \<le> last_of l + 1 \<Longrightarrow> j < idx \<Longrightarrow> look j (take (nat (idx - first_of l)) l) = look j l"
  by (auto simp: look_def last_of_def)

text \<open>\<open>merged idx es l l'\<close>: the log \<open>l'\<close> is \<open>l\<close> after the entries \<open>es\<close> from index \<open>idx\<close> on.
  Below \<open>idx\<close> nothing changes; above the placeholder it agrees in its terms with \<open>es\<close>, holding the
  new entry unless the old one has the same term; and it keeps all of \<open>l\<close> or ends with \<open>es\<close>.\<close>

definition merged :: "int \<Rightarrow> log_entry list \<Rightarrow> log_entry list \<Rightarrow> log_entry list \<Rightarrow> bool" where
  "merged idx es l l' \<longleftrightarrow>
     wf_log l' \<and> first_of l' = first_of l \<and>
     (\<forall>j < idx. look j l' = look j l) \<and>
     (\<forall>i < length es. first_of l < idx + int i \<longrightarrow>
        (\<exists>x. look (idx + int i) l' = Some x \<and> le_term x = le_term (es ! i) \<and>
             (x = es ! i \<or> look (idx + int i) l = Some x))) \<and>
     (take (length l) l' = l \<and> last_of l' = max (last_of l) (idx + int (length es) - 1) \<or>
      last_of l' = idx + int (length es) - 1)"

lemma all_less_Suc_shift: "(\<forall>i < Suc n. P i) \<longleftrightarrow> P 0 \<and> (\<forall>i < n. P (Suc i))"
  by (metis less_Suc_eq_0_disj not_less_eq zero_less_Suc)

lemma merged_Nil: "wf_log l \<Longrightarrow> idx \<le> last_of l + 1 \<Longrightarrow> merged idx [] l l"
  by (auto simp: merged_def)

lemma merged_skip:
  assumes "merged (idx + 1) es l l'" "idx \<le> first_of l" "wf_log l"
  shows "merged idx (e # es) l l'"
  using assms by (auto simp: merged_def all_less_Suc_shift add.assoc nth_Cons' algebra_simps)

lemma merged_keep:
  assumes "merged (idx + 1) es l l'" "look idx l = Some x" "le_term x = le_term e"
  shows "merged idx (e # es) l l'"
  using assms by (auto simp: merged_def all_less_Suc_shift algebra_simps)

lemma merged_append:
  assumes m: "merged (idx + 1) es (l @ [e]) l'" and wf: "wf_log l" and idx: "last_of l = idx - 1"
  shows "merged idx (e # es) l l'"
proof -
  have take: "take (length l) l' = l" if "take (Suc (length l)) l' = l @ [e]"
    using arg_cong [OF that, of "take (length l)"] by (simp add: min_def)
  have old: "look j (l @ [e]) = (if j = idx then Some e else look j l)" if "j \<le> idx" for j
    using that wf look_snoc_new [OF wf, of e] by (auto simp: idx look_snoc_old)
  have far: "look j (l @ [e]) = None" if "idx < j" for j
    using wf that by (simp add: look_def idx wf_log_nonempty)
  from m wf have "look idx l' = Some e" by (auto simp: merged_def old)
  with m wf idx take show ?thesis
    by (auto simp: merged_def all_less_Suc_shift wf_log_nonempty far old algebra_simps)
qed

lemma merged_cut:
  assumes m: "merged (idx + 1) es (t @ [e]) l'" and t: "wf_log t" "first_of t = first_of l" "last_of t = idx - 1"
    and low: "\<forall>j < idx. look j t = look j l"
  shows "merged idx (e # es) l l'"
proof -
  have old: "look j (t @ [e]) = (if j = idx then Some e else look j l)" if "j \<le> idx" for j
    using that t low look_snoc_new [OF t(1), of e] by (auto simp: look_snoc_old)
  have far: "look j (t @ [e]) = None" if "idx < j" for j
    using t that by (simp add: look_def wf_log_nonempty)
  from m have "look idx l' = Some e" by (auto simp: merged_def old)
  moreover from m t have "last_of l' = idx + int (length es)" by (auto simp: merged_def wf_log_nonempty)
  ultimately show ?thesis using m t
    by (auto simp: merged_def all_less_Suc_shift wf_log_nonempty far old algebra_simps)
qed

lemma append_loop_merged:
  "wf_log l \<Longrightarrow> contig idx es \<Longrightarrow> idx \<le> last_of l + 1 \<Longrightarrow> \<exists>l'. append_loop idx es l = Some l' \<and> merged idx es l l'"
proof (induction es arbitrary: idx l)
  case Nil
  then show ?case by (simp add: merged_Nil)
next
  case (Cons e es)
  note wf = \<open>wf_log l\<close> and IH = Cons.IH
  consider (skip) "idx \<le> first_of l" | (append) "first_of l < idx" "idx = last_of l + 1"
    | (keep) x where "first_of l < idx" "idx \<le> last_of l" "look idx l = Some x" "le_term x = le_term e"
    | (trunc) x where "first_of l < idx" "idx \<le> last_of l" "look idx l = Some x" "le_term x \<noteq> le_term e"
    using Cons.prems(3) by (fastforce simp: look_def)
  then show ?case
  proof cases
    case skip
    with IH [OF wf, of "idx + 1"] Cons.prems first_le_last [OF wf] show ?thesis
      by (auto simp: wf_log_simps intro: merged_skip)
  next
    case append
    then have "\<exists>l'. append_loop (idx + 1) es (l @ [e]) = Some l' \<and> merged (idx + 1) es (l @ [e]) l'"
      using IH [of "l @ [e]" "idx + 1"] Cons.prems wf by (simp add: wf_log_nonempty wf_log_snoc)
    with append wf show ?thesis
      by (auto simp: wf_log_first wf_log_entryAt intro!: merged_append)
  next
    case keep
    with IH [OF wf, of "idx + 1"] Cons.prems show ?thesis
      by (auto simp: wf wf_log_first entryAt_look intro: merged_keep)
  next
    case trunc
    define t where "t = take (nat (idx - first_of l)) l"
    have t: "wf_log t" "first_of t = first_of l" "last_of t = idx - 1" "\<forall>j < idx. look j t = look j l"
      using wf trunc by (auto simp: t_def wf_log_take last_of_take look_take) (auto simp: last_of_def)
    then have "\<exists>l'. append_loop (idx + 1) es (t @ [e]) = Some l' \<and> merged (idx + 1) es (t @ [e]) l'"
      using IH [of "t @ [e]" "idx + 1"] Cons.prems by (simp add: wf_log_nonempty wf_log_snoc)
    with trunc wf merged_cut [OF _ t] show ?thesis
      by (auto simp: wf_log_first entryAt_look wf_log_truncateAt t_def [symmetric])
  qed
qed


section \<open>No operation panics and every operation keeps the log consecutive\<close>

definition wf_node :: "raft_node \<Rightarrow> bool" where
  "wf_node n \<longleftrightarrow> wf_log (rn_logEntries n)"

definition wf_append :: "append_args \<Rightarrow> bool" where
  "wf_append a \<longleftrightarrow> contig (aa_prevLogIndex a + 1) (aa_entries a)"

text \<open>What the election protocol reads of a node; the log is apart from it.\<close>

definition elect :: "raft_node \<Rightarrow> string \<times> string list \<times> int \<times> string \<times> raft_role" where
  "elect n = (rn_id n, rn_peers n, rn_currentTerm n, rn_votedFor n, rn_state n)"

lemma wf_node_NewNode [simp]: "wf_node (NewNode i peers)"
  by (simp add: wf_node_def NewNode_def)

lemma recognize_same [simp]:
  "rn_logEntries (recognize t n) = rn_logEntries n" "rn_commitIndex (recognize t n) = rn_commitIndex n"
  "rn_id (recognize t n) = rn_id n" "rn_peers (recognize t n) = rn_peers n"
  "rn_state (recognize t n) = Follower"
  by (simp_all add: recognize_def)

lemma recognize_term [simp]: "rn_currentTerm n \<le> t \<Longrightarrow> rn_currentTerm (recognize t n) = t"
  by (simp add: recognize_def)

lemma advance_follower_commit_same [simp]:
  "rn_logEntries (advance_follower_commit a n) = rn_logEntries n" "elect (advance_follower_commit a n) = elect n"
  "rn_state (advance_follower_commit a n) = rn_state n" "rn_currentTerm (advance_follower_commit a n) = rn_currentTerm n"
  by (simp_all add: advance_follower_commit_def elect_def Let_def)

lemma advance_follower_commit_index:
  "rn_commitIndex (advance_follower_commit a n) =
     max (rn_commitIndex n) (min (aa_leaderCommit a) (aa_prevLogIndex a + int (length (aa_entries a))))"
  by (auto simp: advance_follower_commit_def Let_def)

lemma elect_update [simp]:
  "elect (n\<lparr>rn_logEntries := l\<rparr>) = elect n" "elect (n\<lparr>rn_resetElectionTimer := b\<rparr>) = elect n"
  "elect (n\<lparr>rn_commitIndex := c\<rparr>) = elect n" "elect (n\<lparr>rn_lastApplied := c\<rparr>) = elect n"
  "elect (n\<lparr>rn_nextIndex := m\<rparr>) = elect n" "elect (n\<lparr>rn_matchIndex := m\<rparr>) = elect n"
  "elect (n\<lparr>rn_replicateSig := s\<rparr>) = elect n" "elect (n\<lparr>rn_applyCh := b\<rparr>) = elect n"
  "elect (n\<lparr>rn_commitWaits := w\<rparr>) = elect n" "elect (n\<lparr>rn_lastSnapshot := p\<rparr>) = elect n"
  "elect (n\<lparr>rn_stepDownCh := b\<rparr>) = elect n"
  by (simp_all add: elect_def)

lemma HandleAppendEntries_shape:
  assumes "HandleAppendEntries a n = Some (n', r)" "\<not> aa_term a < rn_currentTerm n"
  shows "n' = (recognize (aa_term a) n)\<lparr>rn_resetElectionTimer := True\<rparr> \<or>
     (\<exists>l. n' = advance_follower_commit a ((recognize (aa_term a) n)\<lparr>rn_resetElectionTimer := True, rn_logEntries := l\<rparr>))"
  using assms by (simp add: HandleAppendEntries_def Let_def bind_eq_Some_conv split: if_split_asm) metis+

lemma HandleAppendEntries_elect:
  assumes "HandleAppendEntries a n = Some (n', r)"
  shows "elect n' = (if aa_term a < rn_currentTerm n then elect n else elect (recognize (aa_term a) n))"
    "rn_stepDownCh n' = rn_stepDownCh n"
proof -
  have "rn_stepDownCh (recognize t n) = rn_stepDownCh n" "rn_stepDownCh (advance_follower_commit a k) = rn_stepDownCh k" for t k
    by (simp_all add: recognize_def advance_follower_commit_def Let_def)
  with assms HandleAppendEntries_shape [OF assms]
  show "elect n' = (if aa_term a < rn_currentTerm n then elect n else elect (recognize (aa_term a) n))"
    "rn_stepDownCh n' = rn_stepDownCh n"
    by (cases "aa_term a < rn_currentTerm n"; auto simp: HandleAppendEntries_def)+
qed

lemma HandleInstallSnapshot_elect:
  assumes "HandleInstallSnapshot a ok n = Some (n', r)"
  shows "elect n' = (if ia_term a < rn_currentTerm n then elect n else elect (recognize (ia_term a) n))"
  using assms by (auto simp: HandleInstallSnapshot_def Let_def elect_def bind_eq_Some_conv split: if_splits)

lemma advance_loop_spec:
  assumes "wf_node n" "N \<le> last_of (rn_logEntries n)"
  shows "\<exists>n'. advance_loop N n = Some n' \<and>
     (n' = n \<and> (\<forall>M. rn_commitIndex n < M \<and> first_of (rn_logEntries n) \<le> M \<and> M \<le> N \<longrightarrow>
        \<not> (termAt M (rn_logEntries n) = Some (rn_currentTerm n) \<and> majority n \<le> replicated_count M n)) \<or>
      (\<exists>K. rn_commitIndex n < K \<and> first_of (rn_logEntries n) \<le> K \<and> K \<le> N \<and>
        termAt K (rn_logEntries n) = Some (rn_currentTerm n) \<and> majority n \<le> replicated_count K n \<and>
        (\<forall>M. K < M \<and> M \<le> N \<longrightarrow>
           \<not> (termAt M (rn_logEntries n) = Some (rn_currentTerm n) \<and> majority n \<le> replicated_count M n)) \<and>
        n' = n\<lparr>rn_commitIndex := K, rn_applyCh := True\<rparr>))"
  using assms
proof (induction N n rule: advance_loop.induct)
  case (1 N n)
  let ?l = "rn_logEntries n"
  from 1 have wf: "wf_log ?l" by (simp add: wf_node_def)
  obtain t where t: "termAt N ?l = Some t" using wf by (simp add: wf_log_termAt)
  let ?ok = "\<lambda>M. termAt M ?l = Some (rn_currentTerm n) \<and> majority n \<le> replicated_count M n"
  show ?case
  proof (cases "N \<le> rn_commitIndex n \<or> N < first_of ?l")
    case True
    with wf have "advance_loop N n = Some n" by (subst advance_loop.simps) (auto simp: wf_log_first)
    with True show ?thesis by auto
  next
    case False
    show ?thesis
    proof (cases "?ok N")
      case True
      with wf t False have "advance_loop N n = Some (n\<lparr>rn_commitIndex := N, rn_applyCh := True\<rparr>)"
        by (subst advance_loop.simps) (simp add: wf_log_first)
      with True False show ?thesis by (auto intro!: exI [of _ N])
    next
      case notok: False
      with wf t False have step: "advance_loop N n = advance_loop (N - 1) n"
        by (subst advance_loop.simps) (auto simp: wf_log_first)
      have IH: "\<exists>n'. advance_loop (N - 1) n = Some n' \<and>
         (n' = n \<and> (\<forall>M. rn_commitIndex n < M \<and> first_of ?l \<le> M \<and> M \<le> N - 1 \<longrightarrow> \<not> ?ok M) \<or>
          (\<exists>K. rn_commitIndex n < K \<and> first_of ?l \<le> K \<and> K \<le> N - 1 \<and> termAt K ?l = Some (rn_currentTerm n) \<and>
            majority n \<le> replicated_count K n \<and> (\<forall>M. K < M \<and> M \<le> N - 1 \<longrightarrow> \<not> ?ok M) \<and>
            n' = n\<lparr>rn_commitIndex := K, rn_applyCh := True\<rparr>))"
        using 1(1) [OF _ wf_log_first [OF wf] _ t] 1(2) [OF _ wf_log_first [OF wf] _ t] 1(3,4) False notok t
        by (cases "t = rn_currentTerm n") (simp_all add: not_le not_less)
      have up: "M = N \<or> M \<le> N - 1" if "M \<le> N" for M :: int using that by linarith
      from IH notok up show ?thesis unfolding step by (smt (verit, best))
    qed
  qed
qed


lemma advance_loop_same:
  "advance_loop N n = Some n' \<Longrightarrow> elect n' = elect n \<and> rn_logEntries n' = rn_logEntries n"
proof (induction N n rule: advance_loop.induct)
  case (1 N n)
  from 1(3) show ?case
    by (subst (asm) advance_loop.simps) (auto simp: bind_eq_Some_conv dest: 1(1) 1(2) split: if_splits)
qed

lemma maybeAdvanceCommitLocked_same:
  assumes "maybeAdvanceCommitLocked n = Some n'"
  shows "elect n' = elect n" "rn_logEntries n' = rn_logEntries n"
  using assms by (auto simp: maybeAdvanceCommitLocked_def bind_eq_Some_conv dest: advance_loop_same)

lemma maybeAdvanceCommitLocked_total: "wf_node n \<Longrightarrow> \<exists>n'. maybeAdvanceCommitLocked n = Some n'"
  using advance_loop_spec [of n "last_of (rn_logEntries n)"]
  by (auto simp: maybeAdvanceCommitLocked_def wf_node_def wf_log_last)

lemma maybeAdvanceCommitLocked_wf:
  "wf_node n \<Longrightarrow> \<exists>n'. maybeAdvanceCommitLocked n = Some n' \<and> wf_node n'"
  using maybeAdvanceCommitLocked_total [of n] maybeAdvanceCommitLocked_same(2) [of n] by (auto simp: wf_node_def)

lemma wf_node_update [simp]:
  "wf_node (n\<lparr>rn_currentTerm := t\<rparr>) = wf_node n" "wf_node (n\<lparr>rn_votedFor := v\<rparr>) = wf_node n"
  "wf_node (n\<lparr>rn_state := s\<rparr>) = wf_node n" "wf_node (n\<lparr>rn_resetElectionTimer := b\<rparr>) = wf_node n"
  "wf_node (n\<lparr>rn_commitIndex := c\<rparr>) = wf_node n" "wf_node (n\<lparr>rn_lastApplied := c\<rparr>) = wf_node n"
  "wf_node (n\<lparr>rn_nextIndex := m\<rparr>) = wf_node n" "wf_node (n\<lparr>rn_matchIndex := m\<rparr>) = wf_node n"
  "wf_node (n\<lparr>rn_replicateSig := g\<rparr>) = wf_node n" "wf_node (n\<lparr>rn_applyCh := b\<rparr>) = wf_node n"
  "wf_node (n\<lparr>rn_commitWaits := w\<rparr>) = wf_node n" "wf_node (n\<lparr>rn_lastSnapshot := p\<rparr>) = wf_node n"
  "wf_node (n\<lparr>rn_stepDownCh := b\<rparr>) = wf_node n"
  "wf_node (n\<lparr>rn_logEntries := l\<rparr>) = wf_log l"
  by (simp_all add: wf_node_def)

lemma wf_node_log: "wf_node n \<Longrightarrow> wf_log (rn_logEntries n)"
  by (simp add: wf_node_def)

lemma start_election_wf: "wf_node n \<Longrightarrow> \<exists>n' a el. start_election n = Some (n', a, el) \<and> wf_node n'"
  by (simp add: start_election_def wf_node_log wf_log_last_term)

lemma become_leader_wf: "wf_node n \<Longrightarrow> \<exists>n'. become_leader n = Some n' \<and> wf_node n'"
  by (simp add: become_leader_def initLeaderState_def wf_node_log wf_log_last_term)

lemma HandleRequestVote_wf: "wf_node n \<Longrightarrow> \<exists>n' r. HandleRequestVote a n = Some (n', r) \<and> wf_node n'"
  by (simp add: HandleRequestVote_def Let_def wf_node_log wf_log_last_term)

lemma HandleInstallSnapshot_wf: "wf_node n \<Longrightarrow> \<exists>n' r. HandleInstallSnapshot a ok n = Some (n', r) \<and> wf_node n'"
  by (simp add: HandleInstallSnapshot_def Let_def wf_node_log wf_log_first recognize_def)

text \<open>When rule 3 accepts: the log reaches \<open>PrevLogIndex\<close> and has its term there, or the index is
  below the snapshot floor.\<close>

definition prev_ok :: "append_args \<Rightarrow> log_entry list \<Rightarrow> bool" where
  "prev_ok a l \<longleftrightarrow> aa_prevLogIndex a \<le> last_of l \<and>
     (aa_prevLogIndex a < first_of l \<or> termAt (aa_prevLogIndex a) l = Some (aa_prevLogTerm a))"

lemma HandleAppendEntries_accept:
  assumes "wf_node n" "wf_append a" "\<not> aa_term a < rn_currentTerm n" "prev_ok a (rn_logEntries n)"
  shows "\<exists>l'. merged (aa_prevLogIndex a + 1) (aa_entries a) (rn_logEntries n) l' \<and>
     HandleAppendEntries a n =
       Some (advance_follower_commit a ((recognize (aa_term a) n)\<lparr>rn_resetElectionTimer := True, rn_logEntries := l'\<rparr>),
             \<lparr>ar_term = aa_term a, ar_success = True\<rparr>)"
proof -
  have wf: "wf_log (rn_logEntries n)" using assms(1) by (rule wf_node_log)
  from append_loop_merged [OF wf, of "aa_prevLogIndex a + 1" "aa_entries a"] assms(2,4)
  obtain l' where "append_loop (aa_prevLogIndex a + 1) (aa_entries a) (rn_logEntries n) = Some l'"
    "merged (aa_prevLogIndex a + 1) (aa_entries a) (rn_logEntries n) l'"
    by (auto simp: wf_append_def prev_ok_def)
  with assms wf show ?thesis
    by (auto simp: HandleAppendEntries_def Let_def wf_log_first wf_log_last prev_ok_def not_less wf_log_termAt)
qed

lemma HandleAppendEntries_reject:
  assumes "wf_node n" "\<not> aa_term a < rn_currentTerm n" "\<not> prev_ok a (rn_logEntries n)"
  shows "HandleAppendEntries a n =
     Some ((recognize (aa_term a) n)\<lparr>rn_resetElectionTimer := True\<rparr>, \<lparr>ar_term = aa_term a, ar_success = False\<rparr>)"
  using assms wf_node_log [OF assms(1)]
  by (auto simp: HandleAppendEntries_def Let_def wf_log_first wf_log_last prev_ok_def not_less wf_log_termAt)

lemma HandleAppendEntries_wf:
  assumes "wf_node n" "wf_append a"
  shows "\<exists>n' r. HandleAppendEntries a n = Some (n', r) \<and> wf_node n'"
proof (cases "aa_term a < rn_currentTerm n")
  case True
  with assms show ?thesis by (simp add: HandleAppendEntries_def)
next
  case False
  then show ?thesis
    using HandleAppendEntries_accept [OF assms False] HandleAppendEntries_reject [OF assms(1) False] assms(1)
    by (cases "prev_ok a (rn_logEntries n)") (auto simp: wf_node_def merged_def)
qed

lemma sendAppend_begin_wf:
  assumes "wf_node n"
  shows "\<exists>s. sendAppend_begin p n = Some s \<and> (case s of SendAppend n' a \<Rightarrow> wf_node n' \<and> wf_append a | _ \<Rightarrow> True)"
proof -
  have wf: "wf_log (rn_logEntries n)" using assms by (rule wf_node_log)
  from wf obtain es where es: "\<And>i. entriesFrom i (rn_logEntries n) = Some (es i)" by (simp add: wf_log_entriesFrom)
  from entries_contig [OF wf es] have "first_of (rn_logEntries n) < i \<Longrightarrow> contig i (es i)" for i
    by (metis max.absorb1 zless_imp_add1_zle)
  with assms wf es show ?thesis
    by (auto simp: sendAppend_begin_def Let_def wf_log_first wf_log_termAt wf_append_def)
qed

lemma step_down_wf [simp]: "wf_node (step_down t n) = wf_node n"
  by (simp add: step_down_def)

lemma sendAppend_end_wf: "wf_node n \<Longrightarrow> \<exists>n'. sendAppend_end p a r n = Some n' \<and> wf_node n'"
  by (simp add: sendAppend_end_def Let_def wf_node_log wf_log_first maybeAdvanceCommitLocked_wf)

lemma sendInstallSnapshot_end_wf: "wf_node n \<Longrightarrow> \<exists>n'. sendInstallSnapshot_end p a r n = Some n' \<and> wf_node n'"
  by (simp add: sendInstallSnapshot_end_def maybeAdvanceCommitLocked_wf)

lemma Propose_wf:
  assumes "wf_node n"
  shows "\<exists>n' b. Propose ch cmd n = Some (n', b) \<and> wf_node n'"
proof (cases "rn_state n = Leader")
  case True
  let ?e = "\<lparr>le_term = rn_currentTerm n, le_index = last_of (rn_logEntries n) + 1, le_command = Some cmd\<rparr>"
  have "wf_log (rn_logEntries n @ [?e])" using wf_node_log [OF assms] by (simp add: wf_log_snoc)
  then have "wf_node (n\<lparr>rn_logEntries := rn_logEntries n @ [?e],
      rn_matchIndex := AList.update (rn_id n) (last_of (rn_logEntries n) + 1) (rn_matchIndex n),
      rn_commitWaits := AList.update (last_of (rn_logEntries n) + 1) ch (rn_commitWaits n)\<rparr>)"
    by (simp add: wf_node_def)
  from maybeAdvanceCommitLocked_wf [OF this] True assms show ?thesis
    by (auto simp: Propose_def Let_def wf_node_log wf_log_last_term)
qed (use assms in \<open>auto simp: Propose_def\<close>)

lemma apply_begin_wf: "wf_node n \<Longrightarrow> \<exists>n' p. apply_begin n = Some (n', p) \<and> wf_node n'"
  by (simp add: apply_begin_def Let_def wf_node_log wf_log_first wf_log_entryAt)

lemma apply_finish_wf [simp]: "wf_node (fst (apply_finish i e w n)) = wf_node n"
  by (simp add: apply_finish_def)

lemma TakeSnapshot_begin_wf: "wf_node n \<Longrightarrow> \<exists>s. TakeSnapshot_begin n = Some s"
  by (simp add: TakeSnapshot_begin_def wf_node_log wf_log_first wf_log_termAt)

lemma TakeSnapshot_end_wf:
  assumes "wf_node n"
  shows "\<exists>n'. TakeSnapshot_end s n = Some n' \<and> wf_node n'"
proof -
  from wf_node_log [OF assms] obtain l where
    l: "compactLogLocked (rs_lastIncludedIndex s) (rs_lastIncludedTerm s) (rn_logEntries n) = Some l"
    by (simp add: wf_log_compact)
  with compact_wf [OF wf_node_log [OF assms]] show ?thesis by (simp add: TakeSnapshot_end_def)
qed

lemma RestoreSnapshot_wf [simp]: "wf_node n \<Longrightarrow> wf_node (fst (RestoreSnapshot s ok n))"
  by (auto simp: RestoreSnapshot_def Let_def split: option.split)

lemma snapshot_due_total: "wf_node n \<Longrightarrow> \<exists>b. snapshot_due t n = Some b"
  by (simp add: snapshot_due_def wf_node_log wf_log_first)


section \<open>Lemmas on the election\<close>

lemma start_election_elect:
  assumes "start_election n = Some (n', a, el)"
  shows "elect n' = (rn_id n, rn_peers n, rn_currentTerm n + 1, rn_id n, rn_state n)"
    "va_term a = rn_currentTerm n + 1" "va_candidateID a = rn_id n"
    "el_term el = rn_currentTerm n + 1" "el_votes el = 1" "el_won el = (1 \<ge> majority n)"
    "el_waiting el = rn_peers n" "el_open el"
  using assms by (auto simp: start_election_def Let_def elect_def bind_eq_Some_conv)

lemma become_leader_elect:
  assumes "become_leader n = Some n'"
  shows "elect n' = (rn_id n, rn_peers n, rn_currentTerm n, rn_votedFor n, Leader)"
  using assms by (auto simp: become_leader_def initLeaderState_def elect_def bind_eq_Some_conv)

text \<open>The answer to a vote request: a request of a higher term is taken up first, and a vote is then
  only given in one's own term, by a node that has not voted for another.\<close>

lemma HandleRequestVote_elect:
  assumes "HandleRequestVote a n = Some (n', r)"
  shows "rn_id n' = rn_id n" "rn_peers n' = rn_peers n"
    "rn_currentTerm n' = max (rn_currentTerm n) (va_term a)"
    "rn_state n' = (if va_term a > rn_currentTerm n then Follower else rn_state n)"
    "vr_voteGranted r \<Longrightarrow> va_term a = rn_currentTerm n' \<and> rn_votedFor n' = va_candidateID a \<and>
       (va_term a = rn_currentTerm n \<longrightarrow> rn_votedFor n = [] \<or> rn_votedFor n = va_candidateID a)"
    "\<not> vr_voteGranted r \<Longrightarrow> rn_votedFor n' = (if va_term a > rn_currentTerm n then [] else rn_votedFor n)"
    "rn_logEntries n' = rn_logEntries n"
  using assms by (auto simp: HandleRequestVote_def Let_def bind_eq_Some_conv split: if_split_asm)

lemma sendAppend_begin_args:
  assumes "sendAppend_begin p n = Some (SendAppend n' a)"
  shows "elect n' = elect n" "rn_state n = Leader" "aa_term a = rn_currentTerm n" "aa_leaderID a = rn_id n"
  using assms by (auto simp: sendAppend_begin_def Let_def bind_eq_Some_conv split: if_splits)

lemma sendInstallSnapshot_begin_args:
  assumes "sendInstallSnapshot_begin n = Some a"
  shows "rn_state n = Leader" "ia_term a = rn_currentTerm n" "ia_leaderID a = rn_id n"
  using assms by (auto simp: sendInstallSnapshot_begin_def split: if_splits)

text \<open>A reply either deposes the leader, with a term above its own, or leaves the election state alone.\<close>

definition deposed_or_same :: "raft_node \<Rightarrow> raft_node \<Rightarrow> bool" where
  "deposed_or_same n n' \<longleftrightarrow> elect n' = elect n \<or>
     (\<exists>t > rn_currentTerm n. elect n' = (rn_id n, rn_peers n, t, [], Follower))"

lemma elect_step_down [simp]: "elect (step_down t n) = (rn_id n, rn_peers n, t, [], Follower)"
  by (simp add: elect_def step_down_def)

lemma sendAppend_end_elect: "sendAppend_end p a r n = Some n' \<Longrightarrow> deposed_or_same n n'"
  by (auto simp: sendAppend_end_def deposed_or_same_def Let_def bind_eq_Some_conv
      dest!: maybeAdvanceCommitLocked_same(1) split: if_splits)

lemma sendInstallSnapshot_end_elect: "sendInstallSnapshot_end p a r n = Some n' \<Longrightarrow> deposed_or_same n n'"
  by (auto simp: sendInstallSnapshot_end_def deposed_or_same_def
      dest!: maybeAdvanceCommitLocked_same(1) split: if_splits)

lemma Propose_elect: "Propose ch cmd n = Some (n', b) \<Longrightarrow> elect n' = elect n"
  by (auto simp: Propose_def Let_def bind_eq_Some_conv dest!: maybeAdvanceCommitLocked_same(1) split: if_splits)

lemma apply_begin_elect: "apply_begin n = Some (n', p) \<Longrightarrow> elect n' = elect n"
  by (auto simp: apply_begin_def Let_def bind_eq_Some_conv split: if_splits option.splits)

lemma apply_finish_elect [simp]: "elect (fst (apply_finish i e w n)) = elect n"
  by (simp add: apply_finish_def)

lemma TakeSnapshot_end_elect: "TakeSnapshot_end s n = Some n' \<Longrightarrow> elect n' = elect n"
  by (auto simp: TakeSnapshot_end_def bind_eq_Some_conv)

lemma abortPendingProposals_elect [simp]: "elect (fst (abortPendingProposals n)) = elect n"
  by (simp add: abortPendingProposals_def)

lemma abortPendingProposals_wf [simp]: "wf_node (fst (abortPendingProposals n)) = wf_node n"
  by (simp add: abortPendingProposals_def)


section \<open>Appending and committing\<close>

lemma merged_last: "merged idx es l l' \<Longrightarrow> idx + int (length es) - 1 \<le> last_of l'"
  by (auto simp: merged_def)


text \<open>A follower that has compacted its log to index 2 gets entries 3 to 5, of which 3 conflicts.\<close>

definition sample_follower :: raft_node where
  "sample_follower =
     (NewNode ''b'' [''a'', ''c''])\<lparr>rn_currentTerm := 2, rn_commitIndex := 2,
       rn_logEntries := [placeholder 2 1, \<lparr>le_term = 1, le_index = 3, le_command = Some ''x''\<rparr>,
                         \<lparr>le_term = 1, le_index = 4, le_command = Some ''y''\<rparr>]\<rparr>"

definition sample_append :: append_args where
  "sample_append =
     \<lparr>aa_term = 3, aa_leaderID = ''a'', aa_prevLogIndex = 2, aa_prevLogTerm = 1,
      aa_entries = [\<lparr>le_term = 3, le_index = 3, le_command = Some ''z''\<rparr>], aa_leaderCommit = 9\<rparr>"


text \<open>An index the leader may commit by counting: above the commit index and in the log, of the current
  term, and stored by a majority with the leader itself.\<close>

definition committable :: "raft_node \<Rightarrow> int \<Rightarrow> bool" where
  "committable n N \<longleftrightarrow>
     rn_commitIndex n < N \<and> first_of (rn_logEntries n) \<le> N \<and> N \<le> last_of (rn_logEntries n) \<and>
     termAt N (rn_logEntries n) = Some (rn_currentTerm n) \<and> majority n \<le> replicated_count N n"

text \<open>
  C11: \<open>maybeAdvanceCommitLocked\<close> ends without a panic and moves the commit index to the largest index of
  the log above it that has the current term and is stored by a majority; when there is none, nothing
  changes.  So the commit index never falls, never passes the end of the log, and never reaches an entry of
  an older term by counting alone.
\<close>

theorem maybeAdvanceCommit_largest:
  assumes "wf_node n"
  shows "\<exists>n'. maybeAdvanceCommitLocked n = Some n' \<and>
     (if \<exists>N. committable n N
      then committable n (rn_commitIndex n') \<and> (\<forall>N. committable n N \<longrightarrow> N \<le> rn_commitIndex n') \<and>
           n' = n\<lparr>rn_commitIndex := rn_commitIndex n', rn_applyCh := True\<rparr>
      else n' = n)"
proof -
  let ?l = "rn_logEntries n"
  from assms have last: "maybeAdvanceCommitLocked n = advance_loop (last_of ?l) n"
    by (simp add: maybeAdvanceCommitLocked_def wf_node_def wf_log_last)
  from advance_loop_spec [OF assms order_refl] obtain n' where n': "advance_loop (last_of ?l) n = Some n'" and
    cases: "n' = n \<and> (\<forall>M. \<not> committable n M) \<or>
      (\<exists>K. committable n K \<and> (\<forall>M. K < M \<longrightarrow> \<not> committable n M) \<and> n' = n\<lparr>rn_commitIndex := K, rn_applyCh := True\<rparr>)"
    unfolding committable_def by blast
  from cases show ?thesis unfolding last n' using leI by fastforce
qed

text \<open>A leader of term 2 in a cluster of three, with entries of terms 1, 2 and 2 and one peer at index 2.\<close>

definition sample_leader :: raft_node where
  "sample_leader =
     (NewNode ''a'' [''b'', ''c''])\<lparr>rn_currentTerm := 2, rn_state := Leader,
       rn_logEntries := [placeholder 0 0, \<lparr>le_term = 1, le_index = 1, le_command = Some ''x''\<rparr>,
         \<lparr>le_term = 2, le_index = 2, le_command = Some ''y''\<rparr>, \<lparr>le_term = 2, le_index = 3, le_command = Some ''z''\<rparr>],
       rn_matchIndex := [(''b'', 2), (''c'', 0), (''a'', 3)]\<rparr>"

theorem maybeAdvanceCommit_largest_witness:
  "wf_node sample_leader \<and> committable sample_leader 2 \<and> \<not> committable sample_leader 3 \<and>
   (\<exists>n'. maybeAdvanceCommitLocked sample_leader = Some n' \<and> 2 \<le> rn_commitIndex n' \<and> committable sample_leader (rn_commitIndex n'))"
proof -
  have wf: "wf_node sample_leader" "committable sample_leader 2" "\<not> committable sample_leader 3" by code_simp+
  with maybeAdvanceCommit_largest [OF wf(1)] show ?thesis by metis
qed

end
