(* ===== verification/Raft_Cluster.thy ===== *)
theory Raft_Cluster
  imports Raft_Node
begin

text \<open>
  The coordinators as concurrent processes over a network: how \<open>Run\<close>, \<open>runFollower\<close>,
  \<open>runCandidate\<close>, \<open>runLeader\<close>, \<open>replicatePeer\<close>, \<open>applyLoop\<close>, \<open>RunSnapshotLoop\<close> and the RPC
  handlers of \<open>raft/node.go\<close> and \<open>raft/snapshot.go\<close> interleave.  An action is one mutex section of
  one goroutine, one receive on a channel, or the failure of a call; any action whose process is at
  the right place can happen next, so every timing of timers, goroutines and messages is a run.

  A request and its reply are messages that are delivered at most once, late, in any order or never.
  A reply carries the arguments of the call it answers; a call that failed at the caller leaves its
  request in the network.  (When a caller repeats a failed call with equal arguments, the model lets
  a late reply to the first answer the second: it has more runs than gRPC.)  Processes do not
  restart in a run, they can only stop; \<open>RestoreSnapshot\<close> is treated in \<open>Raft_Node\<close>.
\<close>

section \<open>Processes and messages\<close>

text \<open>Where the goroutine of \<open>Run\<close> is: at its switch; in \<open>runFollower\<close>'s wait; before the first
  lock of \<open>runCandidate\<close>; in an election; in \<open>runLeader\<close>'s wait; in its \<open>wg.Wait()\<close>.\<close>

datatype phase = AtSwitch | InFollower | BeforeElection | InElection election | InLeader | LeavingLeader

text \<open>Where one \<open>replicatePeer\<close> goroutine is.\<close>

datatype replicator = Waiting | WantSnapshot | InAppend append_args | InInstall install_args

datatype apply_phase = ApplyWaits | ApplyLoops | ApplyRuns int log_entry "nat option"

record process =
  p_node :: raft_node
  p_phase :: phase
  p_repl :: "string \<Rightarrow> replicator"
  p_apply :: apply_phase
  p_saving :: "raft_snapshot option"

datatype message =
    VoteCall string vote_args
  | VoteAnswer string string int vote_reply
  | AppendCall string append_args
  | AppendAnswer string string append_args append_reply
  | InstallCall string install_args
  | InstallAnswer string string install_args install_reply

record cluster =
  cl_procs :: "string \<Rightarrow> process"
  cl_net :: "message list"
  cl_results :: "(nat \<times> propose_result) list"

text \<open>The outcome of an action: it is not enabled, it panics, or it leads to a next value.\<close>

datatype 'a outcome = Disabled | Panics | Moves 'a

definition try_go :: "'a option \<Rightarrow> ('a \<Rightarrow> 'b) \<Rightarrow> 'b outcome" where
  "try_go r f = (case r of None \<Rightarrow> Panics | Some x \<Rightarrow> Moves (f x))"

text \<open>The effect of an action on its process: the process after it, what it sends, and the proposal
  results it delivers.\<close>

type_synonym effect = "process \<times> message list \<times> (nat \<times> propose_result) list"

section \<open>The goroutine of Run\<close>

definition switch :: "process \<Rightarrow> effect outcome" where
  "switch p =
     (case p_phase p of
        AtSwitch \<Rightarrow>
          (case rn_state (p_node p) of
             Follower \<Rightarrow> Moves (p\<lparr>p_phase := InFollower\<rparr>, [], [])
           | Candidate \<Rightarrow> Moves (p\<lparr>p_phase := BeforeElection\<rparr>, [], [])
           | Leader \<Rightarrow> Moves (p\<lparr>p_phase := InLeader, p_node := (p_node p)\<lparr>rn_stepDownCh := False\<rparr>,
                                p_repl := (\<lambda>_. Waiting)\<rparr>, [], []))
      | _ \<Rightarrow> Disabled)"

definition election_timer :: "process \<Rightarrow> effect outcome" where
  "election_timer p =
     (if p_phase p = InFollower
      then Moves (p\<lparr>p_phase := AtSwitch, p_node := follower_timeout (p_node p)\<rparr>, [], []) else Disabled)"

definition timer_reset :: "process \<Rightarrow> effect outcome" where
  "timer_reset p =
     (if p_phase p = InFollower \<and> rn_resetElectionTimer (p_node p)
      then Moves (p\<lparr>p_node := (p_node p)\<lparr>rn_resetElectionTimer := False\<rparr>\<rparr>, [], []) else Disabled)"

definition open_election :: "process \<Rightarrow> effect outcome" where
  "open_election p =
     (if p_phase p = BeforeElection
      then try_go (start_election (p_node p))
             (\<lambda>(n, a, el). (p\<lparr>p_phase := InElection el, p_node := n\<rparr>, map (\<lambda>q. VoteCall q a) (rn_peers n), []))
      else Disabled)"

definition vote_fails :: "string \<Rightarrow> process \<Rightarrow> effect outcome" where
  "vote_fails q p =
     (case p_phase p of
        InElection el \<Rightarrow>
          if q \<in> set (el_waiting el)
          then Moves (p\<lparr>p_phase := InElection (el\<lparr>el_waiting := remove1 q (el_waiting el)\<rparr>)\<rparr>, [], []) else Disabled
      | _ \<Rightarrow> Disabled)"

definition take_win :: "process \<Rightarrow> effect outcome" where
  "take_win p =
     (case p_phase p of
        InElection el \<Rightarrow>
          if el_open el \<and> el_won el
          then try_go (become_leader (p_node p))
                 (\<lambda>n. (p\<lparr>p_phase := InElection (el\<lparr>el_open := False\<rparr>), p_node := n\<rparr>, [], []))
          else Disabled
      | _ \<Rightarrow> Disabled)"

text \<open>The branches \<open>steppedDown\<close> (\<open>b\<close> true) and \<open>timer.C\<close> of the \<open>select\<close>.\<close>

definition leave_election :: "bool \<Rightarrow> process \<Rightarrow> effect outcome" where
  "leave_election b p =
     (case p_phase p of
        InElection el \<Rightarrow>
          if el_open el \<and> (b \<longrightarrow> el_steppedDown el)
          then Moves (p\<lparr>p_phase := InElection (el\<lparr>el_open := False\<rparr>)\<rparr>, [], []) else Disabled
      | _ \<Rightarrow> Disabled)"

definition close_election :: "process \<Rightarrow> effect outcome" where
  "close_election p =
     (case p_phase p of
        InElection el \<Rightarrow>
          if \<not> el_open el \<and> el_waiting el = [] then Moves (p\<lparr>p_phase := AtSwitch\<rparr>, [], []) else Disabled
      | _ \<Rightarrow> Disabled)"

definition leader_steps_down :: "process \<Rightarrow> effect outcome" where
  "leader_steps_down p =
     (if p_phase p = InLeader \<and> rn_stepDownCh (p_node p)
      then Moves (p\<lparr>p_phase := LeavingLeader, p_node := (p_node p)\<lparr>rn_stepDownCh := False, rn_state := Follower\<rparr>\<rparr>, [], [])
      else Disabled)"

definition leader_returns :: "process \<Rightarrow> effect outcome" where
  "leader_returns p =
     (if p_phase p = LeavingLeader \<and> list_all (\<lambda>q. p_repl p q = Waiting) (rn_peers (p_node p))
      then (case abortPendingProposals (p_node p) of
              (n, rs) \<Rightarrow> Moves (p\<lparr>p_phase := AtSwitch, p_node := n\<rparr>, [], rs))
      else Disabled)"

section \<open>The replicators\<close>

text \<open>A replicator wakes on its ticker, or on its kick channel (\<open>kicked\<close>), and calls \<open>sendAppend\<close>;
  \<open>send_install\<close> is \<open>sendInstallSnapshot\<close>, which \<open>sendAppend\<close> enters after giving the lock back.\<close>

definition replicate_to :: "string \<Rightarrow> bool \<Rightarrow> process \<Rightarrow> effect outcome" where
  "replicate_to q kicked p =
     (if p_phase p \<in> {InLeader, LeavingLeader} \<and> q \<in> set (rn_peers (p_node p)) \<and> p_repl p q = Waiting \<and>
         map_of (rn_replicateSig (p_node p)) q \<noteq> None \<and>
         (kicked \<longrightarrow> map_of (rn_replicateSig (p_node p)) q = Some True)
      then
        (let n = (if kicked then (p_node p)\<lparr>rn_replicateSig := AList.update q False (rn_replicateSig (p_node p))\<rparr>
                  else p_node p)
         in try_go (sendAppend_begin q n)
              (\<lambda>s. case s of
                      SendNothing \<Rightarrow> (p\<lparr>p_node := n\<rparr>, [], [])
                    | SendSnapshot \<Rightarrow> (p\<lparr>p_node := n, p_repl := (p_repl p)(q := WantSnapshot)\<rparr>, [], [])
                    | SendAppend n' a \<Rightarrow>
                        (p\<lparr>p_node := n', p_repl := (p_repl p)(q := InAppend a)\<rparr>, [AppendCall q a], [])))
      else Disabled)"

definition send_install :: "string \<Rightarrow> process \<Rightarrow> effect outcome" where
  "send_install q p =
     (if q \<in> set (rn_peers (p_node p)) \<and> p_repl p q = WantSnapshot
      then (case sendInstallSnapshot_begin (p_node p) of
              None \<Rightarrow> Moves (p\<lparr>p_repl := (p_repl p)(q := Waiting)\<rparr>, [], [])
            | Some a \<Rightarrow> Moves (p\<lparr>p_repl := (p_repl p)(q := InInstall a)\<rparr>, [InstallCall q a], []))
      else Disabled)"

definition call_fails :: "string \<Rightarrow> process \<Rightarrow> effect outcome" where
  "call_fails q p =
     (case p_repl p q of
        InAppend a \<Rightarrow> Moves (p\<lparr>p_repl := (p_repl p)(q := Waiting)\<rparr>, [], [])
      | InInstall a \<Rightarrow> Moves (p\<lparr>p_repl := (p_repl p)(q := Waiting)\<rparr>, [], [])
      | _ \<Rightarrow> Disabled)"

section \<open>Proposals, the apply loop and the snapshot loop\<close>

definition propose :: "nat \<Rightarrow> string \<Rightarrow> process \<Rightarrow> effect outcome" where
  "propose ch cmd p = try_go (Propose ch cmd (p_node p)) (\<lambda>(n, _). (p\<lparr>p_node := n\<rparr>, [], []))"

definition apply_wakes :: "process \<Rightarrow> effect outcome" where
  "apply_wakes p =
     (if p_apply p = ApplyWaits \<and> rn_applyCh (p_node p)
      then Moves (p\<lparr>p_apply := ApplyLoops, p_node := (p_node p)\<lparr>rn_applyCh := False\<rparr>\<rparr>, [], []) else Disabled)"

definition apply_next :: "process \<Rightarrow> effect outcome" where
  "apply_next p =
     (if p_apply p = ApplyLoops
      then try_go (apply_begin (p_node p))
             (\<lambda>(n, pick). case pick of
                ApplyBreak \<Rightarrow> (p\<lparr>p_node := n, p_apply := ApplyWaits\<rparr>, [], [])
              | ApplyEntry i e w \<Rightarrow> (p\<lparr>p_node := n, p_apply := ApplyRuns i e w\<rparr>, [], []))
      else Disabled)"

definition apply_returns :: "process \<Rightarrow> effect outcome" where
  "apply_returns p =
     (case p_apply p of
        ApplyRuns i e w \<Rightarrow>
          (case apply_finish i e w (p_node p) of
             (n, rs) \<Rightarrow> Moves (p\<lparr>p_node := n, p_apply := ApplyLoops\<rparr>, [], rs))
      | _ \<Rightarrow> Disabled)"

text \<open>A tick of \<open>RunSnapshotLoop\<close>, with the bytes the state machine will give; then the save fails
  or succeeds.\<close>

definition snapshot_tick :: "int \<Rightarrow> string \<Rightarrow> process \<Rightarrow> effect outcome" where
  "snapshot_tick threshold data p =
     (if p_saving p = None
      then try_go (do { due \<leftarrow> snapshot_due threshold (p_node p);
                        if due then TakeSnapshot_begin (p_node p) else Some None })
             (\<lambda>s. (p\<lparr>p_saving := map_option (\<lambda>f. f data) s\<rparr>, [], []))
      else Disabled)"

definition snapshot_saved :: "bool \<Rightarrow> process \<Rightarrow> effect outcome" where
  "snapshot_saved ok p =
     (case p_saving p of
        None \<Rightarrow> Disabled
      | Some s \<Rightarrow> if ok then try_go (TakeSnapshot_end s (p_node p)) (\<lambda>n. (p\<lparr>p_node := n, p_saving := None\<rparr>, [], []))
                  else Moves (p\<lparr>p_saving := None\<rparr>, [], []))"

section \<open>Messages\<close>

fun addressee :: "message \<Rightarrow> string" where
  "addressee (VoteCall v a) = v"
| "addressee (VoteAnswer c v t r) = c"
| "addressee (AppendCall q a) = q"
| "addressee (AppendAnswer l q a r) = l"
| "addressee (InstallCall q a) = q"
| "addressee (InstallAnswer l q a r) = l"

text \<open>What the addressee does with a message.  A reply whose call is over is dropped.  \<open>ok\<close> is the
  state machine's answer to the restore of a snapshot.\<close>

fun receive :: "message \<Rightarrow> bool \<Rightarrow> process \<Rightarrow> effect outcome" where
  "receive (VoteCall v a) ok p =
     try_go (HandleRequestVote a (p_node p))
       (\<lambda>(n, r). (p\<lparr>p_node := n\<rparr>, [VoteAnswer (va_candidateID a) v (va_term a) r], []))"
| "receive (VoteAnswer c v t r) ok p =
     (case p_phase p of
        InElection el \<Rightarrow>
          if el_term el = t \<and> v \<in> set (el_waiting el)
          then (case vote_reply_received r (p_node p, el\<lparr>el_waiting := remove1 v (el_waiting el)\<rparr>) of
                  (n, el') \<Rightarrow> Moves (p\<lparr>p_node := n, p_phase := InElection el'\<rparr>, [], []))
          else Moves (p, [], [])
      | _ \<Rightarrow> Moves (p, [], []))"
| "receive (AppendCall q a) ok p =
     try_go (HandleAppendEntries a (p_node p))
       (\<lambda>(n, r). (p\<lparr>p_node := n\<rparr>, [AppendAnswer (aa_leaderID a) q a r], []))"
| "receive (AppendAnswer l q a r) ok p =
     (if q \<in> set (rn_peers (p_node p)) \<and> p_repl p q = InAppend a
      then try_go (sendAppend_end q a r (p_node p))
             (\<lambda>n. (p\<lparr>p_node := n, p_repl := (p_repl p)(q := Waiting)\<rparr>, [], []))
      else Moves (p, [], []))"
| "receive (InstallCall q a) ok p =
     try_go (HandleInstallSnapshot a ok (p_node p))
       (\<lambda>(n, r). (p\<lparr>p_node := n\<rparr>, [InstallAnswer (ia_leaderID a) q a r], []))"
| "receive (InstallAnswer l q a r) ok p =
     (if q \<in> set (rn_peers (p_node p)) \<and> p_repl p q = InInstall a
      then try_go (sendInstallSnapshot_end q a r (p_node p))
             (\<lambda>n. (p\<lparr>p_node := n, p_repl := (p_repl p)(q := Waiting)\<rparr>, [], []))
      else Moves (p, [], []))"

section \<open>Runs of a cluster\<close>

datatype local_action =
    Switch | ElectionTimer | TimerReset | OpenElection | VoteFails string | TakeWin | LeaveElection bool
  | CloseElection | LeaderStepsDown | LeaderReturns | ReplicateTo string bool | SendInstall string
  | CallFails string | ProposeCmd nat string | ApplyWakes | ApplyNext | ApplyReturns
  | SnapshotTick int string | SnapshotSaved bool

fun perform :: "local_action \<Rightarrow> process \<Rightarrow> effect outcome" where
  "perform Switch = switch"
| "perform ElectionTimer = election_timer"
| "perform TimerReset = timer_reset"
| "perform OpenElection = open_election"
| "perform (VoteFails q) = vote_fails q"
| "perform TakeWin = take_win"
| "perform (LeaveElection b) = leave_election b"
| "perform CloseElection = close_election"
| "perform LeaderStepsDown = leader_steps_down"
| "perform LeaderReturns = leader_returns"
| "perform (ReplicateTo q k) = replicate_to q k"
| "perform (SendInstall q) = send_install q"
| "perform (CallFails q) = call_fails q"
| "perform (ProposeCmd ch cmd) = propose ch cmd"
| "perform ApplyWakes = apply_wakes"
| "perform ApplyNext = apply_next"
| "perform ApplyReturns = apply_returns"
| "perform (SnapshotTick t d) = snapshot_tick t d"
| "perform (SnapshotSaved ok) = snapshot_saved ok"

datatype action = Local string local_action | Deliver message bool

text \<open>Process \<open>i\<close> takes the effect of an action; the messages \<open>used\<close> leave the network.\<close>

definition commit_effect :: "string \<Rightarrow> message list \<Rightarrow> effect outcome \<Rightarrow> cluster \<Rightarrow> cluster outcome" where
  "commit_effect i net e c =
     (case e of
        Disabled \<Rightarrow> Disabled
      | Panics \<Rightarrow> Panics
      | Moves (p, sent, rs) \<Rightarrow>
          Moves \<lparr>cl_procs = (cl_procs c)(i := p), cl_net = net @ sent, cl_results = cl_results c @ rs\<rparr>)"

fun act :: "string list \<Rightarrow> action \<Rightarrow> cluster \<Rightarrow> cluster outcome" where
  "act ms (Local i l) c =
     (if i \<in> set ms then commit_effect i (cl_net c) (perform l (cl_procs c i)) c else Disabled)"
| "act ms (Deliver m ok) c =
     (if m \<in> set (cl_net c) \<and> addressee m \<in> set ms
      then commit_effect (addressee m) (remove1 m (cl_net c)) (receive m ok (cl_procs c (addressee m))) c
      else Disabled)"

definition boot :: "string list \<Rightarrow> cluster" where
  "boot ms =
     \<lparr>cl_procs = (\<lambda>i. \<lparr>p_node = NewNode i (filter (\<lambda>q. q \<noteq> i) ms), p_phase = AtSwitch, p_repl = (\<lambda>_. Waiting),
                       p_apply = ApplyWaits, p_saving = None\<rparr>),
      cl_net = [], cl_results = []\<rparr>"

fun run :: "string list \<Rightarrow> action list \<Rightarrow> cluster \<Rightarrow> cluster outcome" where
  "run ms [] c = Moves c"
| "run ms (a # as) c = (case act ms a c of Moves c' \<Rightarrow> run ms as c' | Disabled \<Rightarrow> Disabled | Panics \<Rightarrow> Panics)"

text \<open>The members' identifiers: distinct and not empty (\<open>main\<close> requires \<open>NODE_ID\<close>, and \<open>votedFor\<close>
  uses the empty string for no vote).\<close>

definition members_ok :: "string list \<Rightarrow> bool" where
  "members_ok ms \<longleftrightarrow> distinct ms \<and> [] \<notin> set ms"

text \<open>\<open>i\<close> leads the term; a sequence of actions from the start can happen and ends in a state with \<open>P\<close>.\<close>

definition leads :: "cluster \<Rightarrow> string \<Rightarrow> int \<Rightarrow> bool" where
  "leads c i trm \<longleftrightarrow> rn_state (p_node (cl_procs c i)) = Leader \<and> rn_currentTerm (p_node (cl_procs c i)) = trm"

definition runs_to :: "string list \<Rightarrow> action list \<Rightarrow> (cluster \<Rightarrow> bool) \<Rightarrow> bool" where
  "runs_to ms as P = (case run ms as (boot ms) of Moves c \<Rightarrow> P c | _ \<Rightarrow> False)"

end
