(* ===== verification/Raft_Runs.thy ===== *)
theory Raft_Runs
  imports Raft_Cluster
begin

text \<open>
  Properties of all runs of the coordinators, and runs that show what the code allows: that no process
  panics; two leaders in one term; a leader deposed by a request that never takes part in an election
  again; a proposal reported as committed although its entry was overwritten.
\<close>

section \<open>No run panics\<close>

fun wf_message :: "message \<Rightarrow> bool" where
  "wf_message (AppendCall q a) = wf_append a"
| "wf_message _ = True"

definition wf_effect :: "effect outcome \<Rightarrow> bool" where
  "wf_effect e = (case e of Disabled \<Rightarrow> True | Panics \<Rightarrow> False
     | Moves (p, sent, rs) \<Rightarrow> wf_node (p_node p) \<and> list_all wf_message sent)"

definition wf_cluster :: "cluster \<Rightarrow> bool" where
  "wf_cluster c \<longleftrightarrow> (\<forall>i. wf_node (p_node (cl_procs c i))) \<and> list_all wf_message (cl_net c)"

lemma wf_effect_simps [simp]:
  "wf_effect Disabled" "\<not> wf_effect Panics"
  "wf_effect (Moves (p, sent, rs)) = (wf_node (p_node p) \<and> list_all wf_message sent)"
  by (simp_all add: wf_effect_def)

lemma wf_effect_try_go:
  assumes "\<exists>x. r = Some x \<and> wf_effect (Moves (f x))"
  shows "wf_effect (try_go r f)"
  using assms by (auto simp: try_go_def)

lemma wf_message_VoteCalls [simp]: "list_all wf_message (map (\<lambda>q. VoteCall q a) qs)"
  by (simp add: list_all_iff)

lemma replicate_to_wf: "wf_node (p_node p) \<Longrightarrow> wf_effect (replicate_to q k p)"
proof -
  assume wf: "wf_node (p_node p)"
  let ?n = "if k then (p_node p)\<lparr>rn_replicateSig := AList.update q False (rn_replicateSig (p_node p))\<rparr> else p_node p"
  have n: "wf_node ?n" using wf by simp
  obtain s where "sendAppend_begin q ?n = Some s" "case s of SendAppend n' a \<Rightarrow> wf_node n' \<and> wf_append a | _ \<Rightarrow> True"
    using sendAppend_begin_wf [OF n, of q] by blast
  with n show ?thesis by (auto simp: replicate_to_def Let_def try_go_def split: send_start.splits)
qed

lemma snapshot_tick_wf: "wf_node (p_node p) \<Longrightarrow> wf_effect (snapshot_tick t d p)"
  using snapshot_due_total [of "p_node p" t] TakeSnapshot_begin_wf [of "p_node p"]
  by (auto simp: snapshot_tick_def try_go_def)

lemma perform_wf:
  assumes wf: "wf_node (p_node p)"
  shows "wf_effect (perform l p)"
proof (cases l)
  case OpenElection
  with start_election_wf [OF wf] show ?thesis by (auto simp: open_election_def intro!: wf_effect_try_go)
next
  case TakeWin
  with become_leader_wf [OF wf] show ?thesis by (auto simp: take_win_def split: phase.split intro!: wf_effect_try_go)
next
  case (ProposeCmd ch cmd)
  with Propose_wf [OF wf, of ch cmd] show ?thesis by (auto simp: propose_def intro!: wf_effect_try_go)
next
  case ApplyNext
  with apply_begin_wf [OF wf] show ?thesis by (auto simp: apply_next_def try_go_def split: apply_pick.split)
next
  case (SnapshotSaved ok)
  with TakeSnapshot_end_wf [OF wf] wf show ?thesis
    by (auto simp: snapshot_saved_def split: option.split intro!: wf_effect_try_go)
qed (use wf in \<open>auto simp: switch_def election_timer_def follower_timeout_def timer_reset_def vote_fails_def
      leave_election_def close_election_def leader_steps_down_def leader_returns_def abortPendingProposals_def
      replicate_to_wf send_install_def call_fails_def apply_wakes_def apply_returns_def apply_finish_def snapshot_tick_wf
      split: phase.split raft_role.split option.split replicator.split apply_phase.split\<close>)

lemma receive_wf:
  assumes wf: "wf_node (p_node p)" and m: "wf_message m"
  shows "wf_effect (receive m ok p)"
proof (cases m)
  case (VoteCall v a)
  with HandleRequestVote_wf [OF wf, of a] show ?thesis by (auto intro!: wf_effect_try_go)
next
  case (VoteAnswer c v t r)
  with wf show ?thesis by (auto simp: vote_reply_received_def split: phase.split)
next
  case (AppendCall q a)
  with HandleAppendEntries_wf [OF wf, of a] m show ?thesis by (auto intro!: wf_effect_try_go)
next
  case (AppendAnswer l q a r)
  with sendAppend_end_wf [OF wf, of q a r] wf show ?thesis by (auto intro!: wf_effect_try_go)
next
  case (InstallCall q a)
  with HandleInstallSnapshot_wf [OF wf, of a ok] show ?thesis by (auto intro!: wf_effect_try_go)
next
  case (InstallAnswer l q a r)
  with sendInstallSnapshot_end_wf [OF wf, of q a r] wf show ?thesis by (auto intro!: wf_effect_try_go)
qed

lemma list_all_remove1: "list_all P xs \<Longrightarrow> list_all P (remove1 x xs)"
  by (meson list_all_iff notin_set_remove1)

lemma commit_effect_wf:
  assumes "wf_cluster c" "list_all wf_message net" "wf_effect e"
  shows "case commit_effect i net e c of Disabled \<Rightarrow> True | Panics \<Rightarrow> False | Moves c' \<Rightarrow> wf_cluster c'"
  using assms by (auto simp: commit_effect_def wf_cluster_def split: outcome.split)

lemma act_wf:
  assumes "wf_cluster c"
  shows "case act ms a c of Disabled \<Rightarrow> True | Panics \<Rightarrow> False | Moves c' \<Rightarrow> wf_cluster c'"
proof (cases a)
  case (Local i l)
  with assms show ?thesis
    using commit_effect_wf [OF assms, of "cl_net c" "perform l (cl_procs c i)" i] perform_wf [of "cl_procs c i" l]
    by (simp add: wf_cluster_def)
next
  case (Deliver m ok)
  show ?thesis
  proof (cases "m \<in> set (cl_net c)")
    case True
    with assms have "wf_effect (receive m ok (cl_procs c (addressee m)))" "list_all wf_message (remove1 m (cl_net c))"
      by (auto simp: wf_cluster_def list_all_iff intro!: receive_wf dest: notin_set_remove1)
    from commit_effect_wf [OF assms this(2,1)] Deliver show ?thesis by simp
  qed (simp add: Deliver)
qed

lemma run_wf: "wf_cluster c \<Longrightarrow> case run ms as c of Disabled \<Rightarrow> True | Panics \<Rightarrow> False | Moves c' \<Rightarrow> wf_cluster c'"
proof (induction as arbitrary: c)
  case (Cons a as)
  from act_wf [OF Cons.prems, of ms a] Cons.IH show ?case by (cases "act ms a c") simp_all
qed simp

text \<open>
  C9: no sequence of actions makes a coordinator panic: from the start of any cluster every sequence of lock
  sections, messages and failures either cannot happen or leads to a cluster in which the indices of every
  log are consecutive.  This covers every slice access of the log helpers, with snapshots, truncation and
  compaction at any moment.
\<close>

theorem no_run_panics:
  "case run ms as (boot ms) of
     Panics \<Rightarrow> False
   | Disabled \<Rightarrow> True
   | Moves c \<Rightarrow> \<forall>i. wf_log (rn_logEntries (p_node (cl_procs c i)))"
proof -
  have "wf_cluster (boot ms)" by (simp add: wf_cluster_def boot_def)
  from run_wf [OF this, of ms as] show ?thesis
    by (simp add: wf_cluster_def wf_node_def split: outcome.splits)
qed

section \<open>Two leaders of one term\<close>

definition abc :: "string list" where
  "abc = [''a'', ''b'', ''c'']"

text \<open>The first part of an election of \<open>i\<close>: from a follower's wait to its vote requests.\<close>

definition campaign :: "string \<Rightarrow> action list" where
  "campaign i = [Local i Switch, Local i ElectionTimer, Local i Switch, Local i OpenElection]"

definition fresh_vote :: "string \<Rightarrow> int \<Rightarrow> vote_args" where
  "fresh_vote i trm = \<lparr>va_term = trm, va_candidateID = i, va_lastLogIndex = 0, va_lastLogTerm = 0\<rparr>"

definition grants :: "string \<Rightarrow> string \<Rightarrow> int \<Rightarrow> action list" where
  "grants v i trm =
     [Deliver (VoteCall v (fresh_vote i trm)) True,
      Deliver (VoteAnswer i v trm \<lparr>vr_term = trm, vr_voteGranted = True\<rparr>) True]"

definition heartbeat :: "string \<Rightarrow> int \<Rightarrow> append_args" where
  "heartbeat i trm = \<lparr>aa_term = trm, aa_leaderID = i, aa_prevLogIndex = 0, aa_prevLogTerm = 0, aa_entries = [], aa_leaderCommit = 0\<rparr>"

text \<open>\<open>b\<close> votes for \<open>a\<close> in term 1; its timer fires; a heartbeat of \<open>a\<close> makes it a follower again and
  clears its vote; it then votes for \<open>c\<close> in the same term.\<close>

definition lost_vote_run :: "action list" where
  "lost_vote_run =
     campaign ''a'' @ campaign ''c'' @ grants ''b'' ''a'' 1 @
     [Local ''a'' TakeWin, Local ''a'' (VoteFails ''c''), Local ''a'' CloseElection, Local ''a'' Switch,
      Local ''a'' (ReplicateTo ''b'' False),
      Local ''b'' Switch, Local ''b'' ElectionTimer,
      Deliver (AppendCall ''b'' (heartbeat ''a'' 1)) True] @
     grants ''b'' ''c'' 1 @ [Local ''c'' TakeWin]"

text \<open>\<open>c\<close> has won the election of term 1 but, before it takes the signal, votes for \<open>a\<close> in term 2;
  \<open>a\<close> wins that election, and \<open>c\<close> then becomes leader of the term it is in.\<close>

definition late_win_run :: "action list" where
  "late_win_run =
     campaign ''c'' @ campaign ''a'' @ grants ''b'' ''c'' 1 @
     [Local ''a'' (VoteFails ''b''), Local ''a'' (VoteFails ''c''), Local ''a'' (LeaveElection False),
      Local ''a'' CloseElection, Local ''a'' Switch, Local ''a'' OpenElection] @
     grants ''c'' ''a'' 2 @ [Local ''a'' TakeWin, Local ''c'' TakeWin]"

text \<open>The \<open>/state\<close> service of the members: each answers at its own identifier.\<close>

definition served :: "cluster \<Rightarrow> string list \<Rightarrow> string \<Rightarrow> string + state_doc" where
  "served c ms url =
     (case find (\<lambda>i. state_url i = url) ms of
        None \<Rightarrow> Inl ''unknown host''
      | Some i \<Rightarrow> Inr (node_snapshot (p_node (cl_procs c i))))"


section \<open>A proposal that is overwritten and reported as committed\<close>

definition wins :: "string \<Rightarrow> string \<Rightarrow> string \<Rightarrow> int \<Rightarrow> action list" where
  "wins i v w trm =
     campaign i @ grants v i trm @
     [Local i TakeWin, Local i (VoteFails w), Local i CloseElection, Local i Switch]"

definition one_entry :: "int \<Rightarrow> append_args" where
  "one_entry commit =
     \<lparr>aa_term = 2, aa_leaderID = ''b'', aa_prevLogIndex = 0, aa_prevLogTerm = 0,
      aa_entries = [\<lparr>le_term = 2, le_index = 1, le_command = Some ''y''\<rparr>], aa_leaderCommit = commit\<rparr>"

text \<open>\<open>a\<close> leads term 1 and proposes \<open>x\<close>; \<open>b\<close> leads term 2 and commits \<open>y\<close> at the same index, which \<open>a\<close>
  takes over and applies while the proposal of \<open>x\<close> still waits for its index.\<close>

definition overwritten_run :: "action list" where
  "overwritten_run =
     wins ''a'' ''b'' ''c'' 1 @ [Local ''a'' (ProposeCmd 7 ''x'')] @
     wins ''b'' ''c'' ''a'' 2 @ [Local ''b'' (ProposeCmd 8 ''y''), Local ''b'' (ReplicateTo ''c'' False),
      Deliver (AppendCall ''c'' (one_entry 0)) True,
      Deliver (AppendAnswer ''b'' ''c'' (one_entry 0) \<lparr>ar_term = 2, ar_success = True\<rparr>) True,
      Local ''b'' (ReplicateTo ''a'' False), Deliver (AppendCall ''a'' (one_entry 1)) True,
      Local ''a'' ApplyWakes, Local ''a'' ApplyNext, Local ''a'' ApplyReturns]"


section \<open>A leader deposed by a request\<close>

text \<open>\<open>runLeader\<close> waits for \<open>stepDownCh\<close>, which only a reply of a higher term signals.  A process is stuck
  when it waits there, is no longer leader, and has neither the signal nor a call whose reply could send it.\<close>

definition stuck :: "process \<Rightarrow> bool" where
  "stuck p \<longleftrightarrow> p_phase p = InLeader \<and> rn_state (p_node p) \<noteq> Leader \<and> \<not> rn_stepDownCh (p_node p) \<and>
     list_all (\<lambda>q. p_repl p q = Waiting \<or> p_repl p q = WantSnapshot) (rn_peers (p_node p))"

lemma sendAppend_begin_not_leader: "rn_state n \<noteq> Leader \<Longrightarrow> sendAppend_begin q n = Some SendNothing"
  by (simp add: sendAppend_begin_def)

lemma stuck_keeps:
  assumes "stuck p" "p_phase p' = p_phase p" "p_repl p' = p_repl p" "rn_stepDownCh (p_node p') = rn_stepDownCh (p_node p)"
    and "rn_peers (p_node p') = rn_peers (p_node p)" "rn_state (p_node p') = rn_state (p_node p) \<or> rn_state (p_node p') = Follower"
  shows "stuck p'"
  using assms by (auto simp: stuck_def)

lemma apply_next_stuck:
  assumes "stuck p" "apply_next p = Moves (p', sent, rs)"
  shows "stuck p'"
proof -
  from assms(2) obtain n k where n: "apply_begin (p_node p) = Some (n, k)" "p_node p' = n" "p_phase p' = p_phase p" "p_repl p' = p_repl p"
    by (auto simp: apply_next_def try_go_def split: if_splits option.splits apply_pick.splits)
  from n(1) have "rn_stepDownCh n = rn_stepDownCh (p_node p)"
    by (auto simp: apply_begin_def Let_def bind_eq_Some_conv split: if_splits option.splits)
  moreover from apply_begin_elect [OF n(1)] have "rn_peers n = rn_peers (p_node p)" "rn_state n = rn_state (p_node p)"
    by (simp_all add: elect_def)
  ultimately show ?thesis using stuck_keeps [OF assms(1) n(3,4)] n(2) by simp
qed

lemma perform_stuck:
  assumes "stuck p" "perform l p = Moves (p', sent, rs)"
  shows "stuck p'"
proof (cases l)
  case ApplyNext
  with assms show ?thesis by (simp add: apply_next_stuck)
qed (use assms in \<open>auto simp: stuck_def switch_def election_timer_def timer_reset_def open_election_def vote_fails_def
      take_win_def leave_election_def close_election_def leader_steps_down_def leader_returns_def replicate_to_def Let_def
      sendAppend_begin_not_leader send_install_def sendInstallSnapshot_begin_def call_fails_def propose_def Propose_def
      apply_wakes_def apply_returns_def apply_finish_def snapshot_tick_def snapshot_saved_def TakeSnapshot_end_def
      try_go_def bind_eq_Some_conv list_all_iff
      split: if_splits option.splits apply_phase.splits replicator.splits\<close>)

lemma HandleRequestVote_stuck:
  assumes "HandleRequestVote a n = Some (n', r)"
  shows "rn_stepDownCh n' = rn_stepDownCh n"
  using assms by (auto simp: HandleRequestVote_def Let_def bind_eq_Some_conv split: if_split_asm)

lemma HandleInstallSnapshot_stuck:
  assumes "HandleInstallSnapshot a ok n = Some (n', r)"
  shows "rn_stepDownCh n' = rn_stepDownCh n"
  using assms by (auto simp: HandleInstallSnapshot_def Let_def bind_eq_Some_conv recognize_def split: if_split_asm)

lemma receive_stuck:
  assumes "stuck p" "receive m ok p = Moves (p', sent, rs)"
  shows "stuck p'"
proof (cases m)
  case (VoteCall v a)
  with assms obtain n r where n: "HandleRequestVote a (p_node p) = Some (n, r)" "p' = p\<lparr>p_node := n\<rparr>"
    by (auto simp: try_go_def split: option.splits)
  from HandleRequestVote_elect(4) [OF n(1)] have "rn_state n = rn_state (p_node p) \<or> rn_state n = Follower" by simp
  with assms(1) n(2) HandleRequestVote_elect(2) [OF n(1)] HandleRequestVote_stuck [OF n(1)] show ?thesis
    by - (rule stuck_keeps [of p]; simp)
next
  case (VoteAnswer c v t r)
  with assms show ?thesis by (auto simp: stuck_def)
next
  case (AppendCall q a)
  with assms obtain n r where n: "HandleAppendEntries a (p_node p) = Some (n, r)" "p' = p\<lparr>p_node := n\<rparr>"
    by (auto simp: try_go_def split: option.splits)
  from HandleAppendEntries_elect(1) [OF n(1)]
  have "rn_peers n = rn_peers (p_node p) \<and> (rn_state n = rn_state (p_node p) \<or> rn_state n = Follower)"
    by (simp add: elect_def split: if_splits)
  with assms(1) n(2) HandleAppendEntries_elect(2) [OF n(1)] show ?thesis by - (rule stuck_keeps [of p]; simp)
next
  case (InstallCall q a)
  with assms obtain n r where n: "HandleInstallSnapshot a ok (p_node p) = Some (n, r)" "p' = p\<lparr>p_node := n\<rparr>"
    by (auto simp: try_go_def split: option.splits)
  from HandleInstallSnapshot_elect [OF n(1)]
  have "rn_peers n = rn_peers (p_node p) \<and> (rn_state n = rn_state (p_node p) \<or> rn_state n = Follower)"
    by (simp add: elect_def split: if_splits)
  with assms(1) n(2) HandleInstallSnapshot_stuck [OF n(1)] show ?thesis by - (rule stuck_keeps [of p]; simp)
qed (use assms in \<open>auto simp: stuck_def list_all_iff split: if_splits\<close>)

lemma act_stuck:
  assumes "stuck (cl_procs c i)" "act ms a c = Moves c'"
  shows "stuck (cl_procs c' i)"
  using assms
  by (cases a) (auto simp: commit_effect_def split: if_splits outcome.splits intro: perform_stuck receive_stuck)

lemma run_stuck: "stuck (cl_procs c i) \<Longrightarrow> run ms as c = Moves c' \<Longrightarrow> stuck (cl_procs c' i)"
  by (induction as arbitrary: c) (auto split: outcome.splits dest: act_stuck)


text \<open>\<open>a\<close> leads term 1 until \<open>b\<close> asks it for its vote in term 2; \<open>b\<close> leads term 2 until \<open>c\<close> asks it for its
  vote in term 3.  When \<open>c\<close> then stops, the two others, a majority, run on without ever electing a leader.\<close>

definition deposed_run :: "action list" where
  "deposed_run =
     wins ''a'' ''b'' ''c'' 1 @
     campaign ''b'' @ grants ''a'' ''b'' 2 @ grants ''c'' ''b'' 2 @
     [Local ''b'' TakeWin, Local ''b'' CloseElection, Local ''b'' Switch] @
     campaign ''c'' @ grants ''b'' ''c'' 3 @ [Local ''c'' TakeWin]"


end
