(* ===== verification/Raft_Ballots.thy ===== *)
theory Raft_Ballots
  imports Main
begin

text \<open>
  The abstract specification of an election by votes, without messages, logs or timers.  Each node
  has a term and a vote; the history of votes and of leaders is part of the state.  A node moves to
  a higher term and forgets its vote, gives its vote in its own or a higher term, forgets a vote for
  itself when it hears of a leader of its term, or becomes leader of a term in which a quorum voted
  for it.  \<open>Raft_Safety\<close> shows when the coordinators implement this.
\<close>

record ballots =
  b_term :: "string \<Rightarrow> int"
  b_vote :: "string \<Rightarrow> string"
  b_votes :: "(string \<times> int \<times> string) set"
  b_leads :: "(string \<times> int) set"

definition ballots0 :: ballots where
  "ballots0 = \<lparr>b_term = (\<lambda>_. 0), b_vote = (\<lambda>_. []), b_votes = {}, b_leads = {}\<rparr>"

inductive ballot_step :: "(string set \<Rightarrow> bool) \<Rightarrow> ballots \<Rightarrow> ballots \<Rightarrow> bool" for quorum where
  advance: "b_term b i < t \<Longrightarrow>
    ballot_step quorum b (b\<lparr>b_term := (b_term b)(i := t), b_vote := (b_vote b)(i := [])\<rparr>)"
| vote: "b_term b i \<le> t \<Longrightarrow> x \<noteq> [] \<Longrightarrow> (t = b_term b i \<Longrightarrow> b_vote b i = [] \<or> b_vote b i = x) \<Longrightarrow>
    ballot_step quorum b
      (b\<lparr>b_term := (b_term b)(i := t), b_vote := (b_vote b)(i := x), b_votes := insert (i, t, x) (b_votes b)\<rparr>)"
| clear: "(j, b_term b i) \<in> b_leads b \<Longrightarrow> j \<noteq> i \<Longrightarrow> b_vote b i = [] \<or> b_vote b i = i \<Longrightarrow>
    ballot_step quorum b (b\<lparr>b_vote := (b_vote b)(i := [])\<rparr>)"
| win: "quorum S \<Longrightarrow> (\<And>w. w \<in> S \<Longrightarrow> (w, t, i) \<in> b_votes b) \<Longrightarrow>
    ballot_step quorum b (b\<lparr>b_leads := insert (i, t) (b_leads b)\<rparr>)"

inductive_cases ballot_stepE: "ballot_step quorum b b'"

section \<open>The invariant\<close>

text \<open>A vote of \<open>w\<close> for \<open>x\<close> in term \<open>t\<close> still binds: the node has left the term or still holds the vote.\<close>

definition bound_to :: "ballots \<Rightarrow> string \<Rightarrow> int \<Rightarrow> string \<Rightarrow> bool" where
  "bound_to b w t x \<longleftrightarrow> t < b_term b w \<or> t = b_term b w \<and> b_vote b w = x"

text \<open>A quorum whose members voted for \<open>i\<close> alone in term \<open>t\<close> and are bound to it.\<close>

definition backed :: "(string set \<Rightarrow> bool) \<Rightarrow> ballots \<Rightarrow> string \<Rightarrow> int \<Rightarrow> bool" where
  "backed quorum b i t \<longleftrightarrow>
     (\<exists>Q. quorum Q \<and> (\<forall>w \<in> Q. bound_to b w t i \<and> (\<forall>x. (w, t, x) \<in> b_votes b \<longleftrightarrow> x = i)))"

definition ballot_inv :: "(string set \<Rightarrow> bool) \<Rightarrow> ballots \<Rightarrow> bool" where
  "ballot_inv quorum b \<longleftrightarrow>
     (\<forall>w t x. (w, t, x) \<in> b_votes b \<longrightarrow> t \<le> b_term b w \<and> x \<noteq> []) \<and>
     (\<forall>i t. (i, t) \<in> b_leads b \<longrightarrow> i \<noteq> [] \<and> backed quorum b i t) \<and>
     (\<forall>t. (\<forall>i. (i, t) \<notin> b_leads b) \<longrightarrow>
        (\<forall>w x. (w, t, x) \<in> b_votes b \<longrightarrow> bound_to b w t x \<and> (\<forall>y. (w, t, y) \<in> b_votes b \<longrightarrow> y = x)))"

lemma ballot_invD:
  assumes "ballot_inv quorum b"
  shows "(w, t, x) \<in> b_votes b \<Longrightarrow> t \<le> b_term b w" "(w, t, x) \<in> b_votes b \<Longrightarrow> x \<noteq> []"
    "(i, t) \<in> b_leads b \<Longrightarrow> i \<noteq> []" "(i, t) \<in> b_leads b \<Longrightarrow> backed quorum b i t"
    "(\<forall>i. (i, t) \<notin> b_leads b) \<Longrightarrow> (w, t, x) \<in> b_votes b \<Longrightarrow> bound_to b w t x"
    "(\<forall>i. (i, t) \<notin> b_leads b) \<Longrightarrow> (w, t, x) \<in> b_votes b \<Longrightarrow> (w, t, y) \<in> b_votes b \<Longrightarrow> y = x"
  using assms unfolding ballot_inv_def by blast+

lemma ballot_inv0: "ballot_inv quorum ballots0"
  by (simp add: ballot_inv_def ballots0_def)

text \<open>Backing survives a step that keeps its quorum bound and adds no vote of its members for another.\<close>

lemma backed_mono:
  assumes "backed quorum b i t" "b_votes b \<subseteq> b_votes b'"
    and "\<And>w. bound_to b w t i \<Longrightarrow> bound_to b' w t i"
    and "\<And>w x. bound_to b w t i \<Longrightarrow> (w, t, x) \<in> b_votes b' \<Longrightarrow> (w, t, x) \<in> b_votes b \<or> x = i"
  shows "backed quorum b' i t"
proof -
  from assms(1) obtain Q where Q: "quorum Q" "\<And>w. w \<in> Q \<Longrightarrow> bound_to b w t i"
      "\<And>w x. w \<in> Q \<Longrightarrow> (w, t, x) \<in> b_votes b \<longleftrightarrow> x = i" unfolding backed_def by auto
  have "bound_to b' w t i \<and> (\<forall>x. (w, t, x) \<in> b_votes b' \<longleftrightarrow> x = i)" if "w \<in> Q" for w
    using that Q assms(2-4) by blast
  with Q(1) show ?thesis unfolding backed_def by blast
qed

locale quorums =
  fixes quorum :: "string set \<Rightarrow> bool"
  assumes quorum_meet: "quorum Q \<Longrightarrow> quorum S \<Longrightarrow> Q \<inter> S \<noteq> {}"
begin

lemma one_winner:
  assumes "ballot_inv quorum b" "(i, t) \<in> b_leads b" "quorum S" "\<And>w. w \<in> S \<Longrightarrow> (w, t, j) \<in> b_votes b"
  shows "j = i"
proof -
  from ballot_invD(4) [OF assms(1,2)] obtain Q where Q: "quorum Q" "\<And>w x. w \<in> Q \<Longrightarrow> (w, t, x) \<in> b_votes b \<longleftrightarrow> x = i"
    unfolding backed_def by auto
  from quorum_meet [OF Q(1) assms(3)] Q(2) assms(4) show ?thesis by blast
qed

lemma one_led:
  assumes "ballot_inv quorum b" "(i, t) \<in> b_leads b" "(j, t) \<in> b_leads b"
  shows "i = j"
proof -
  from ballot_invD(4) [OF assms(1,3)] obtain Q where "quorum Q" "\<And>w. w \<in> Q \<Longrightarrow> (w, t, j) \<in> b_votes b"
    unfolding backed_def by auto
  from one_winner [OF assms(1,2) this] show ?thesis by simp
qed

lemma advance_inv:
  assumes inv: "ballot_inv quorum b" and t: "b_term b i < t"
  shows "ballot_inv quorum (b\<lparr>b_term := (b_term b)(i := t), b_vote := (b_vote b)(i := [])\<rparr>)" (is "ballot_inv quorum ?b")
proof -
  have bound: "bound_to b w s x \<Longrightarrow> bound_to ?b w s x" for w s x
    using t by (auto simp: bound_to_def)
  have "s \<le> b_term ?b w" if "(w, s, x) \<in> b_votes b" for w s x
    using ballot_invD(1) [OF inv that] t by auto
  moreover have "backed quorum ?b j s" if "(j, s) \<in> b_leads b" for j s
    using ballot_invD(4) [OF inv that] by (rule backed_mono) (auto intro: bound)
  ultimately show ?thesis
    using inv bound unfolding ballot_inv_def by simp
qed

lemma vote_inv:
  assumes inv: "ballot_inv quorum b" and t: "b_term b i \<le> t" "x \<noteq> []" "t = b_term b i \<Longrightarrow> b_vote b i = [] \<or> b_vote b i = x"
  shows "ballot_inv quorum
    (b\<lparr>b_term := (b_term b)(i := t), b_vote := (b_vote b)(i := x), b_votes := insert (i, t, x) (b_votes b)\<rparr>)"
    (is "ballot_inv quorum ?b")
proof -
  have bound: "bound_to ?b w s y" if "bound_to b w s y" "y \<noteq> []" for w s y
    using that t by (auto simp: bound_to_def)
  have new: "y = x" if "bound_to b i t y" "y \<noteq> []" for y
    using that t by (auto simp: bound_to_def)
  have "s \<le> b_term ?b w \<and> y \<noteq> []" if "(w, s, y) \<in> b_votes ?b" for w s y
    using that ballot_invD(1,2) [OF inv, of w s y] t by auto
  moreover have "backed quorum ?b j s" if j: "(j, s) \<in> b_leads b" for j s
    using ballot_invD(4) [OF inv j] ballot_invD(3) [OF inv j] new
    by (intro backed_mono [of quorum b j s ?b]) (auto intro: bound)
  moreover have "bound_to ?b w s y \<and> (\<forall>z. (w, s, z) \<in> b_votes ?b \<longrightarrow> z = y)"
    if s: "\<forall>j. (j, s) \<notin> b_leads b" "(w, s, y) \<in> b_votes ?b" for w s y
  proof -
    have old: "bound_to b w s z" "z \<noteq> []" if "(w, s, z) \<in> b_votes b" for z
      using ballot_invD(2,5) [OF inv] s(1) that by auto
    have "bound_to ?b i t x" by (simp add: bound_to_def)
    with s old bound have "bound_to ?b w s y" by auto
    moreover have "z = y" if "(w, s, z) \<in> b_votes ?b" for z
      using that s old new ballot_invD(6) [OF inv s(1)] by auto
    ultimately show ?thesis by blast
  qed
  moreover have leads: "b_leads ?b = b_leads b" by simp
  ultimately show ?thesis
    unfolding ballot_inv_def leads using ballot_invD(3) [OF inv] by blast
qed

lemma clear_inv:
  assumes inv: "ballot_inv quorum b" and j: "(j, b_term b i) \<in> b_leads b" "j \<noteq> i" "b_vote b i = [] \<or> b_vote b i = i"
  shows "ballot_inv quorum (b\<lparr>b_vote := (b_vote b)(i := [])\<rparr>)" (is "ballot_inv quorum ?b")
proof -
  have bound: "bound_to ?b w s y" if "bound_to b w s y" "w = i \<Longrightarrow> s = b_term b i \<Longrightarrow> y \<noteq> b_vote b i" for w s y
    using that by (auto simp: bound_to_def)
  have led: "k = j" if "(k, b_term b i) \<in> b_leads b" for k using one_led [OF inv that j(1)] .
  have "backed quorum ?b k s" if k: "(k, s) \<in> b_leads b" for k s
    using ballot_invD(4) [OF inv k] ballot_invD(3) [OF inv k] led j(2,3) k
    by (intro backed_mono [of quorum b k s ?b]) (auto intro!: bound)
  moreover have "bound_to ?b w s y" if "\<forall>k. (k, s) \<notin> b_leads b" "(w, s, y) \<in> b_votes b" for w s y
    using that ballot_invD(5) [OF inv that] j(1) by (auto intro!: bound)
  ultimately show ?thesis
    using ballot_invD(1-3,6) [OF inv] unfolding ballot_inv_def by simp
qed

lemma win_inv:
  assumes inv: "ballot_inv quorum b" and S: "quorum S" "\<And>w. w \<in> S \<Longrightarrow> (w, t, i) \<in> b_votes b"
  shows "ballot_inv quorum (b\<lparr>b_leads := insert (i, t) (b_leads b)\<rparr>)" (is "ballot_inv quorum ?b")
proof -
  have same: "backed quorum ?b = backed quorum b" "bound_to ?b = bound_to b"
    by (intro ext; simp add: backed_def bound_to_def)+
  obtain w where w: "w \<in> S" using quorum_meet [OF S(1) S(1)] by auto
  have "backed quorum b i t"
  proof (cases "\<exists>j. (j, t) \<in> b_leads b")
    case True
    then show ?thesis using one_winner [OF inv _ S] ballot_invD(4) [OF inv] by blast
  next
    case False
    then show ?thesis unfolding backed_def using S ballot_invD(5,6) [OF inv] by blast
  qed
  moreover have "i \<noteq> []" using ballot_invD(2) [OF inv S(2) [OF w]] .
  ultimately show ?thesis
    using inv unfolding ballot_inv_def same by simp blast
qed

theorem step_inv: "ballot_step quorum b b' \<Longrightarrow> ballot_inv quorum b \<Longrightarrow> ballot_inv quorum b'"
  by (erule ballot_step.cases) (simp_all add: advance_inv vote_inv clear_inv win_inv)

end

section \<open>Majorities\<close>

definition majority_of :: "string list \<Rightarrow> string set \<Rightarrow> bool" where
  "majority_of ms Q \<longleftrightarrow> Q \<subseteq> set ms \<and> length ms div 2 + 1 \<le> card Q"

lemma majorities_meet:
  assumes "majority_of ms Q" "majority_of ms S"
  shows "Q \<inter> S \<noteq> {}"
proof
  assume "Q \<inter> S = {}"
  moreover have "finite Q" "finite S" using assms by (auto simp: majority_of_def intro: finite_subset)
  ultimately have "card Q + card S = card (Q \<union> S)" by (simp add: card_Un_disjoint)
  moreover have "card (Q \<union> S) \<le> length ms"
    using assms card_length [of ms] card_mono [of "set ms" "Q \<union> S"] by (auto simp: majority_of_def)
  moreover have "length ms < 2 * (length ms div 2 + 1)" by simp
  ultimately show False using assms unfolding majority_of_def by linarith
qed

interpretation maj: quorums "majority_of ms" for ms
  by unfold_locales (rule majorities_meet)

end
