(* ===== verification/Raft_Safety.thy ===== *)
theory Raft_Safety
  imports Raft_Runs Raft_Ballots
begin

text \<open>
  The coordinators' elections as an implementation of the voting specification of
  \<open>Raft_Ballots\<close>.  Two places of \<open>raft/node.go\<close> leave it, and \<open>Raft_Runs\<close> has a run through
  each: rule 2 of the append and snapshot handlers forgets a vote of the current term, and a
  candidate takes the signal that it won without comparing the term of the election with its own.
  A run that passes through neither refines the specification, so it has one leader per term.
\<close>

section \<open>Runs that keep to the protocol\<close>

definition keeps_vote :: "int \<Rightarrow> raft_node \<Rightarrow> bool" where
  "keeps_vote trm n \<longleftrightarrow>
     \<not> (trm = rn_currentTerm n \<and> rn_state n \<noteq> Follower \<and> rn_votedFor n \<noteq> [] \<and> rn_votedFor n \<noteq> rn_id n)"

definition wins_now :: "process \<Rightarrow> bool" where
  "wins_now p = (case p_phase p of InElection el \<Rightarrow> el_term el = rn_currentTerm (p_node p) | _ \<Rightarrow> True)"

fun clean_local :: "local_action \<Rightarrow> process \<Rightarrow> bool" where
  "clean_local TakeWin p = wins_now p"
| "clean_local _ p = True"

fun clean_message :: "message \<Rightarrow> process \<Rightarrow> bool" where
  "clean_message (AppendCall q a) p = keeps_vote (aa_term a) (p_node p)"
| "clean_message (InstallCall q a) p = keeps_vote (ia_term a) (p_node p)"
| "clean_message _ p = True"

fun clean :: "action \<Rightarrow> cluster \<Rightarrow> bool" where
  "clean (Local i l) c = clean_local l (cl_procs c i)"
| "clean (Deliver m ok) c = clean_message m (cl_procs c (addressee m))"

text \<open>The clusters visited by a clean run, the latest first.\<close>

inductive clean_run :: "string list \<Rightarrow> cluster list \<Rightarrow> bool" for ms where
  boot: "clean_run ms [boot ms]"
| step: "clean_run ms (c # cs) \<Longrightarrow> clean a c \<Longrightarrow> act ms a c = Moves c' \<Longrightarrow> clean_run ms (c' # c # cs)"

section \<open>The simulation relation\<close>

fun msg_ok :: "ballots \<Rightarrow> message \<Rightarrow> bool" where
  "msg_ok b (VoteCall v a) = (va_candidateID a \<noteq> [])"
| "msg_ok b (VoteAnswer c v t r) = (vr_voteGranted r \<longrightarrow> (v, t, c) \<in> b_votes b)"
| "msg_ok b (AppendCall q a) = ((aa_leaderID a, aa_term a) \<in> b_leads b \<and> q \<noteq> aa_leaderID a)"
| "msg_ok b (InstallCall q a) = ((ia_leaderID a, ia_term a) \<in> b_leads b \<and> q \<noteq> ia_leaderID a)"
| "msg_ok b _ = True"

text \<open>The votes counted in an election are those of a set of voters whose calls are over.\<close>

definition election_ok :: "string list \<Rightarrow> ballots \<Rightarrow> string \<Rightarrow> election \<Rightarrow> bool" where
  "election_ok ms b i el \<longleftrightarrow>
     distinct (el_waiting el) \<and> set (el_waiting el) \<subseteq> set ms \<and>
     (el_won el \<longrightarrow> length ms div 2 + 1 \<le> el_votes el) \<and>
     (\<exists>S. S \<subseteq> set ms - set (el_waiting el) \<and> card S = el_votes el \<and> (\<forall>w \<in> S. (w, el_term el, i) \<in> b_votes b))"

definition phase_ok :: "string list \<Rightarrow> ballots \<Rightarrow> string \<Rightarrow> phase \<Rightarrow> bool" where
  "phase_ok ms b i ph = (case ph of InElection el \<Rightarrow> election_ok ms b i el | _ \<Rightarrow> True)"

definition leader_phase :: "phase \<Rightarrow> bool" where
  "leader_phase ph = (case ph of InElection el \<Rightarrow> \<not> el_open el | AtSwitch \<Rightarrow> True | InLeader \<Rightarrow> True | _ \<Rightarrow> False)"

definition proc_ok :: "string list \<Rightarrow> ballots \<Rightarrow> string \<Rightarrow> process \<Rightarrow> bool" where
  "proc_ok ms b i p \<longleftrightarrow>
     elect (p_node p) = (i, filter (\<lambda>q. q \<noteq> i) ms, b_term b i, b_vote b i, rn_state (p_node p)) \<and>
     (rn_state (p_node p) = Leader \<longrightarrow> (i, b_term b i) \<in> b_leads b \<and> leader_phase (p_phase p)) \<and>
     phase_ok ms b i (p_phase p)"

definition sim :: "string list \<Rightarrow> cluster \<Rightarrow> ballots \<Rightarrow> bool" where
  "sim ms c b \<longleftrightarrow> (\<forall>i \<in> set ms. proc_ok ms b i (cl_procs c i)) \<and> (\<forall>m \<in> set (cl_net c). msg_ok b m)"

section \<open>What one process does is at most one step of the specification\<close>

text \<open>A step of the voting specification at node \<open>i\<close>: the other nodes' terms and votes stay.\<close>

definition extends :: "string \<Rightarrow> ballots \<Rightarrow> ballots \<Rightarrow> bool" where
  "extends i b b' \<longleftrightarrow> b_votes b \<subseteq> b_votes b' \<and> b_leads b \<subseteq> b_leads b' \<and>
     (\<forall>j. j \<noteq> i \<longrightarrow> b_term b' j = b_term b j \<and> b_vote b' j = b_vote b j)"

definition implements :: "string list \<Rightarrow> ballots \<Rightarrow> string \<Rightarrow> process \<Rightarrow> message list \<Rightarrow> bool" where
  "implements ms b i p' sent \<longleftrightarrow>
     (\<exists>b'. (b' = b \<or> ballot_step (majority_of ms) b b') \<and> extends i b b' \<and> proc_ok ms b' i p' \<and>
           (\<forall>m \<in> set sent. msg_ok b' m))"

lemma election_ok_mono: "election_ok ms b i el \<Longrightarrow> b_votes b \<subseteq> b_votes b' \<Longrightarrow> election_ok ms b' i el"
  unfolding election_ok_def by (meson subsetD)

lemma phase_ok_mono: "phase_ok ms b i ph \<Longrightarrow> b_votes b \<subseteq> b_votes b' \<Longrightarrow> phase_ok ms b' i ph"
  by (auto simp: phase_ok_def split: phase.splits intro: election_ok_mono)

lemma msg_ok_extends: "msg_ok b m \<Longrightarrow> extends i b b' \<Longrightarrow> msg_ok b' m"
  by (cases m) (auto simp: extends_def)

lemma proc_ok_extends: "proc_ok ms b j p \<Longrightarrow> extends i b b' \<Longrightarrow> j \<noteq> i \<Longrightarrow> proc_ok ms b' j p"
  by (auto simp: proc_ok_def extends_def intro: phase_ok_mono)

lemma elect_fields:
  assumes "elect n = (i, ps, t, v, s)"
  shows "rn_id n = i" "rn_peers n = ps" "rn_currentTerm n = t" "rn_votedFor n = v" "rn_state n = s"
  using assms by (simp_all add: elect_def)

lemma proc_ok_fields:
  assumes "proc_ok ms b i p"
  shows "rn_id (p_node p) = i" "rn_peers (p_node p) = filter (\<lambda>q. q \<noteq> i) ms"
    "rn_currentTerm (p_node p) = b_term b i" "rn_votedFor (p_node p) = b_vote b i"
    "phase_ok ms b i (p_phase p)"
    "rn_state (p_node p) = Leader \<Longrightarrow> (i, b_term b i) \<in> b_leads b \<and> leader_phase (p_phase p)"
  using assms by (auto simp: proc_ok_def elect_def)

lemma stutters:
  assumes "proc_ok ms b i p'" "\<forall>m \<in> set sent. msg_ok b m"
  shows "implements ms b i p' sent"
  using assms unfolding implements_def extends_def by blast

text \<open>A process whose election state and phase did not change.\<close>

lemma stutters_same:
  assumes "proc_ok ms b i p" "elect (p_node p') = elect (p_node p)" "p_phase p' = p_phase p" "\<forall>m \<in> set sent. msg_ok b m"
  shows "implements ms b i p' sent"
proof (rule stutters)
  have "rn_state (p_node p') = rn_state (p_node p)" using assms(2) by (simp add: elect_def)
  with assms show "proc_ok ms b i p'" by (simp add: proc_ok_def)
qed (fact assms(4))

lemma advances:
  assumes "proc_ok ms b i p" "elect (p_node p') = (i, filter (\<lambda>q. q \<noteq> i) ms, t, [], Follower)" "b_term b i < t"
    and "phase_ok ms b i (p_phase p')" "\<forall>m \<in> set sent. msg_ok b m"
  shows "implements ms b i p' sent"
proof -
  let ?b = "b\<lparr>b_term := (b_term b)(i := t), b_vote := (b_vote b)(i := [])\<rparr>"
  have ext: "extends i b ?b" by (simp add: extends_def)
  moreover have "ballot_step (majority_of ms) b ?b" using assms(3) by (rule ballot_step.advance)
  moreover have "proc_ok ms ?b i p'"
    using assms(2,4) elect_fields [OF assms(2)] phase_ok_mono [of ms b i "p_phase p'" ?b] by (simp add: proc_ok_def)
  moreover have "\<forall>m \<in> set sent. msg_ok ?b m" using assms(5) msg_ok_extends [OF _ ext] by blast
  ultimately show ?thesis unfolding implements_def by blast
qed

lemma votes:
  assumes "proc_ok ms b i p" "elect (p_node p') = (i, filter (\<lambda>q. q \<noteq> i) ms, t, x, s)" "b_term b i \<le> t" "x \<noteq> []"
    and "t = b_term b i \<Longrightarrow> b_vote b i = [] \<or> b_vote b i = x"
    and b': "b' = b\<lparr>b_term := (b_term b)(i := t), b_vote := (b_vote b)(i := x), b_votes := insert (i, t, x) (b_votes b)\<rparr>"
    and "s = Leader \<Longrightarrow> (i, t) \<in> b_leads b \<and> leader_phase (p_phase p')"
    and "phase_ok ms b' i (p_phase p')" "\<forall>m \<in> set sent. msg_ok b' m"
  shows "implements ms b i p' sent"
proof -
  have "extends i b b'" by (auto simp: b' extends_def)
  moreover have "ballot_step (majority_of ms) b b'" unfolding b' using assms(3-5) by (rule ballot_step.vote)
  moreover have "proc_ok ms b' i p'"
    using assms(2,7,8) elect_fields [OF assms(2)] by (simp add: proc_ok_def b')
  ultimately show ?thesis using assms(9) unfolding implements_def by blast
qed

lemma clears:
  assumes "proc_ok ms b i p" "elect (p_node p') = (i, filter (\<lambda>q. q \<noteq> i) ms, b_term b i, [], Follower)"
    and "(j, b_term b i) \<in> b_leads b" "j \<noteq> i" "b_vote b i = [] \<or> b_vote b i = i"
    and "p_phase p' = p_phase p" "\<forall>m \<in> set sent. msg_ok b m"
  shows "implements ms b i p' sent"
proof -
  let ?b = "b\<lparr>b_vote := (b_vote b)(i := [])\<rparr>"
  have ext: "extends i b ?b" by (simp add: extends_def)
  moreover have "ballot_step (majority_of ms) b ?b" using assms(3-5) by (rule ballot_step.clear)
  moreover have "proc_ok ms ?b i p'"
    using assms(2) elect_fields [OF assms(2)] phase_ok_mono [OF proc_ok_fields(5) [OF assms(1)], of ?b]
    by (simp add: proc_ok_def assms(6))
  moreover have "\<forall>m \<in> set sent. msg_ok ?b m" using assms(7) msg_ok_extends [OF _ ext] by blast
  ultimately show ?thesis unfolding implements_def by blast
qed

lemma deposed_implements:
  assumes ok: "proc_ok ms b i p" and "deposed_or_same (p_node p) (p_node p')" and "p_phase p' = p_phase p"
  shows "implements ms b i p' []"
proof (cases "elect (p_node p') = elect (p_node p)")
  case True
  with assms show ?thesis by (intro stutters_same) simp_all
next
  case False
  with assms(2) obtain t where "rn_currentTerm (p_node p) < t"
      "elect (p_node p') = (rn_id (p_node p), rn_peers (p_node p), t, [], Follower)"
    unfolding deposed_or_same_def by auto
  with proc_ok_fields [OF ok] assms(3) show ?thesis by (intro advances [OF ok]) simp_all
qed

text \<open>A process that changes its phase or leaves a role, but neither its term nor its vote.\<close>

lemma changes_role:
  assumes "proc_ok ms b i p" "elect (p_node p') = (rn_id (p_node p), rn_peers (p_node p), rn_currentTerm (p_node p), rn_votedFor (p_node p), s)"
    and "s = Leader \<Longrightarrow> rn_state (p_node p) = Leader \<and> leader_phase (p_phase p')" "phase_ok ms b i (p_phase p')"
  shows "implements ms b i p' []"
  using proc_ok_fields [OF assms(1)] elect_fields [OF assms(2)] assms(2-4)
  by (intro stutters) (auto simp: proc_ok_def)

lemma elect_self: "elect n = (rn_id n, rn_peers n, rn_currentTerm n, rn_votedFor n, rn_state n)"
  by (simp add: elect_def)

lemma leader_phase_simps [simp]:
  "leader_phase AtSwitch" "leader_phase InLeader" "\<not> leader_phase InFollower" "\<not> leader_phase BeforeElection"
  "\<not> leader_phase LeavingLeader" "leader_phase (InElection el) = (\<not> el_open el)"
  by (simp_all add: leader_phase_def)

lemma phase_ok_simps [simp]:
  "phase_ok ms b i AtSwitch" "phase_ok ms b i InLeader" "phase_ok ms b i InFollower" "phase_ok ms b i BeforeElection"
  "phase_ok ms b i LeavingLeader" "phase_ok ms b i (InElection el) = election_ok ms b i el"
  by (simp_all add: phase_ok_def)

lemma switch_implements:
  assumes ok: "proc_ok ms b i p" and "switch p = Moves (p', sent, rs)"
  shows "implements ms b i p' sent"
proof -
  from assms(2) have "sent = []" "elect (p_node p') = elect (p_node p)" "rn_state (p_node p) = Leader \<Longrightarrow> p_phase p' = InLeader"
      "p_phase p' \<in> {InFollower, BeforeElection, InLeader}"
    by (auto simp: switch_def split: phase.splits raft_role.splits)
  with elect_self [of "p_node p"] show ?thesis
    using changes_role [OF ok, of p' "rn_state (p_node p)"] by auto
qed

lemma election_timer_implements:
  assumes ok: "proc_ok ms b i p" and "election_timer p = Moves (p', sent, rs)"
  shows "implements ms b i p' sent"
  using assms(2) changes_role [OF ok, of p' Candidate]
  by (auto simp: election_timer_def follower_timeout_def elect_def split: if_splits)

lemma leave_election_implements:
  assumes ok: "proc_ok ms b i p" and "leave_election x p = Moves (p', sent, rs)"
  shows "implements ms b i p' sent"
proof -
  from assms(2) obtain el where "p_phase p = InElection el" "el_open el" "sent = []"
      "p' = p\<lparr>p_phase := InElection (el\<lparr>el_open := False\<rparr>)\<rparr>"
    by (auto simp: leave_election_def split: phase.splits if_splits)
  with proc_ok_fields(5,6) [OF ok] elect_self [of "p_node p"] show ?thesis
    using changes_role [OF ok, of p' "rn_state (p_node p)"] by (auto simp: election_ok_def)
qed

lemma close_election_implements:
  assumes ok: "proc_ok ms b i p" and "close_election p = Moves (p', sent, rs)"
  shows "implements ms b i p' sent"
  using assms(2) changes_role [OF ok, of p' "rn_state (p_node p)"] elect_self [of "p_node p"]
  by (auto simp: close_election_def split: phase.splits if_splits)

lemma election_ok_remove1:
  "election_ok ms b i el \<Longrightarrow> election_ok ms b i (el\<lparr>el_waiting := remove1 q (el_waiting el)\<rparr>)"
  unfolding election_ok_def by (auto simp: set_remove1_eq)

lemma vote_fails_implements:
  assumes ok: "proc_ok ms b i p" and "vote_fails q p = Moves (p', sent, rs)"
  shows "implements ms b i p' sent"
proof -
  from assms(2) obtain el where el: "p_phase p = InElection el" "sent = []"
      "p' = p\<lparr>p_phase := InElection (el\<lparr>el_waiting := remove1 q (el_waiting el)\<rparr>)\<rparr>"
    by (auto simp: vote_fails_def split: phase.splits if_splits)
  with proc_ok_fields(5,6) [OF ok] elect_self [of "p_node p"] election_ok_remove1 [of ms b i el q] show ?thesis
    using changes_role [OF ok, of p' "rn_state (p_node p)"] by auto
qed

lemma leader_steps_down_implements:
  assumes ok: "proc_ok ms b i p" and "leader_steps_down p = Moves (p', sent, rs)"
  shows "implements ms b i p' sent"
  using assms(2) changes_role [OF ok, of p' Follower]
  by (auto simp: leader_steps_down_def elect_def split: if_splits)

lemma leader_returns_implements:
  assumes ok: "proc_ok ms b i p" and "leader_returns p = Moves (p', sent, rs)"
  shows "implements ms b i p' sent"
proof -
  from assms(2) have "p_phase p = LeavingLeader" "p_phase p' = AtSwitch" "sent = []" "elect (p_node p') = elect (p_node p)"
    by (auto simp: leader_returns_def abortPendingProposals_def split: if_splits)
  with elect_self [of "p_node p"] show ?thesis
    using changes_role [OF ok, of p' "rn_state (p_node p)"] by auto
qed

lemma majority_members:
  assumes "distinct ms" "i \<in> set ms" "rn_peers n = filter (\<lambda>q. q \<noteq> i) ms"
  shows "majority n = length ms div 2 + 1"
proof -
  have "filter (\<lambda>q. q \<noteq> i) ms = remove1 i ms" using assms(1) by (simp add: distinct_remove1_removeAll removeAll_filter_not_eq eq_commute)
  moreover have "0 < length ms" using assms(2) by (cases ms) auto
  ultimately show ?thesis using assms by (simp add: majority_def length_remove1)
qed

lemma open_election_implements:
  assumes ok: "proc_ok ms b i p" and ms: "members_ok ms" "i \<in> set ms" and step: "open_election p = Moves (p', sent, rs)"
  shows "implements ms b i p' sent"
proof -
  from step obtain n a el where el: "start_election (p_node p) = Some (n, a, el)" "p_phase p = BeforeElection"
      "p' = p\<lparr>p_phase := InElection el, p_node := n\<rparr>" "sent = map (\<lambda>q. VoteCall q a) (rn_peers n)"
    by (auto simp: open_election_def try_go_def split: if_splits option.splits)
  note fields = proc_ok_fields [OF ok] and start = start_election_elect [OF el(1)]
  let ?t = "b_term b i + 1"
  let ?b = "b\<lparr>b_term := (b_term b)(i := ?t), b_vote := (b_vote b)(i := i), b_votes := insert (i, ?t, i) (b_votes b)\<rparr>"
  have "i \<noteq> []" using ms by (auto simp: members_ok_def)
  moreover have "election_ok ms ?b i el"
    using ms start fields majority_members [of ms i "p_node p"]
    by (auto simp: election_ok_def members_ok_def intro!: exI [of _ "{i}"])
  ultimately show ?thesis
    using el start fields by (intro votes [OF ok, of p' ?t i "rn_state (p_node p)" ?b]) auto
qed

lemma take_win_implements:
  assumes ok: "proc_ok ms b i p" and step: "take_win p = Moves (p', sent, rs)" and now: "wins_now p"
  shows "implements ms b i p' sent"
proof -
  from step obtain el n where el: "p_phase p = InElection el" "el_open el" "el_won el" "become_leader (p_node p) = Some n"
      "p' = p\<lparr>p_phase := InElection (el\<lparr>el_open := False\<rparr>), p_node := n\<rparr>" "sent = []"
    by (auto simp: take_win_def try_go_def split: phase.splits if_splits option.splits)
  note fields = proc_ok_fields [OF ok]
  let ?t = "b_term b i"
  let ?b = "b\<lparr>b_leads := insert (i, ?t) (b_leads b)\<rparr>"
  have e: "election_ok ms b i el" using fields(5) el(1) by simp
  then obtain S where S: "S \<subseteq> set ms" "card S = el_votes el" "\<And>w. w \<in> S \<Longrightarrow> (w, el_term el, i) \<in> b_votes b"
    unfolding election_ok_def by blast
  have "el_term el = ?t" using now el(1) fields(3) by (simp add: wins_now_def)
  moreover have "majority_of ms S" using S e el(3) by (simp add: majority_of_def election_ok_def)
  ultimately have "ballot_step (majority_of ms) b ?b" using S(3) by (intro ballot_step.win [of _ S]) auto
  moreover have "extends i b ?b" by (auto simp: extends_def)
  moreover have "proc_ok ms ?b i p'"
    using become_leader_elect [OF el(4)] elect_fields [OF become_leader_elect [OF el(4)]] fields e
    by (simp add: proc_ok_def el(5) election_ok_def)
  ultimately show ?thesis unfolding implements_def using el(6) by fastforce
qed

lemma replicate_to_implements:
  assumes ok: "proc_ok ms b i p" and step: "replicate_to q k p = Moves (p', sent, rs)"
  shows "implements ms b i p' sent"
proof -
  define n where "n = (if k then (p_node p)\<lparr>rn_replicateSig := AList.update q False (rn_replicateSig (p_node p))\<rparr> else p_node p)"
  have n: "elect n = elect (p_node p)" by (simp add: n_def)
  from n have nf: "rn_state n = rn_state (p_node p)" "rn_currentTerm n = rn_currentTerm (p_node p)" "rn_id n = rn_id (p_node p)"
    by (auto simp: elect_def)
  from step obtain s where s: "sendAppend_begin q n = Some s" "q \<in> set (rn_peers (p_node p))"
      "(p', sent) = (case s of SendNothing \<Rightarrow> (p\<lparr>p_node := n\<rparr>, [])
         | SendSnapshot \<Rightarrow> (p\<lparr>p_node := n, p_repl := (p_repl p)(q := WantSnapshot)\<rparr>, [])
         | SendAppend n' a \<Rightarrow> (p\<lparr>p_node := n', p_repl := (p_repl p)(q := InAppend a)\<rparr>, [AppendCall q a]))"
    by (auto simp: replicate_to_def Let_def n_def try_go_def split: if_splits option.splits send_start.splits)
  note fields = proc_ok_fields [OF ok]
  show ?thesis
  proof (cases s)
    case (SendAppend n' a)
    note args = sendAppend_begin_args [OF s(1) [unfolded SendAppend]]
    have "msg_ok b (AppendCall q a)" using args nf fields(1-3,6) s(2) by auto
    with s(3) SendAppend args(1) n show ?thesis by (intro stutters_same [OF ok]) auto
  qed (use s(3) n in \<open>auto intro: stutters_same [OF ok]\<close>)
qed

lemma send_install_implements:
  assumes ok: "proc_ok ms b i p" and step: "send_install q p = Moves (p', sent, rs)"
  shows "implements ms b i p' sent"
proof (cases "sendInstallSnapshot_begin (p_node p)")
  case None
  with step show ?thesis
    by (intro stutters_same [OF ok]) (auto simp: send_install_def split: if_splits)
next
  case (Some a)
  note args = sendInstallSnapshot_begin_args [OF Some]
  from step Some have "q \<in> set (rn_peers (p_node p))" "sent = [InstallCall q a]" "p_node p' = p_node p" "p_phase p' = p_phase p"
    by (auto simp: send_install_def split: if_splits)
  with args proc_ok_fields(1-3,6) [OF ok] show ?thesis
    by (intro stutters_same [OF ok]) auto
qed

text \<open>The actions that leave the election state, the phase and the network alone.\<close>

lemma quiet_implements:
  assumes ok: "proc_ok ms b i p"
    and "perform l p = Moves (p', sent, rs)"
    and "l \<in> {TimerReset, ApplyWakes, ApplyNext, ApplyReturns} \<or>
      (\<exists>q ch cmd t d x. l \<in> {CallFails q, ProposeCmd ch cmd, SnapshotTick t d, SnapshotSaved x})"
  shows "implements ms b i p' sent"
proof -
  have "elect (p_node p') = elect (p_node p) \<and> p_phase p' = p_phase p \<and> sent = []"
    using assms(2,3)
    by (auto simp: timer_reset_def apply_wakes_def apply_next_def apply_returns_def call_fails_def propose_def
        snapshot_tick_def snapshot_saved_def try_go_def apply_finish_def
        split: if_splits option.splits apply_phase.splits apply_pick.splits replicator.splits
        dest!: Propose_elect apply_begin_elect TakeSnapshot_end_elect)
  with ok show ?thesis by (intro stutters_same [OF ok]) auto
qed

lemma perform_implements:
  assumes "proc_ok ms b i p" "members_ok ms" "i \<in> set ms" "perform l p = Moves (p', sent, rs)" "clean_local l p"
  shows "implements ms b i p' sent"
  using assms quiet_implements [OF assms(1,4)]
  by (cases l)
    (simp_all add: switch_implements election_timer_implements open_election_implements vote_fails_implements
      take_win_implements leave_election_implements close_election_implements leader_steps_down_implements
      leader_returns_implements replicate_to_implements send_install_implements)

section \<open>Messages\<close>

lemma vote_call_implements:
  assumes ok: "proc_ok ms b i p" and a: "va_candidateID a \<noteq> []" and step: "receive (VoteCall i a) x p = Moves (p', sent, rs)"
  shows "implements ms b i p' sent"
proof -
  from step obtain n r where h: "HandleRequestVote a (p_node p) = Some (n, r)" "p' = p\<lparr>p_node := n\<rparr>"
      "sent = [VoteAnswer (va_candidateID a) i (va_term a) r]"
    by (auto simp: try_go_def split: option.splits)
  note fields = proc_ok_fields [OF ok] and hv = HandleRequestVote_elect [OF h(1)]
  show ?thesis
  proof (cases "vr_voteGranted r")
    case True
    let ?t = "va_term a" and ?x = "va_candidateID a"
    let ?b = "b\<lparr>b_term := (b_term b)(i := ?t), b_vote := (b_vote b)(i := ?x), b_votes := insert (i, ?t, ?x) (b_votes b)\<rparr>"
    have g: "rn_currentTerm n = ?t" "rn_votedFor n = ?x" "?t = b_term b i \<Longrightarrow> b_vote b i = [] \<or> b_vote b i = ?x"
      using hv(5) [OF True] fields(3,4) by simp_all
    have t: "b_term b i \<le> ?t" using hv(3) unfolding g fields(3) by (metis max.cobounded1)
    from g hv(1,2) fields(1,2) have "elect n = (i, filter (\<lambda>q. q \<noteq> i) ms, ?t, ?x, rn_state n)" by (simp add: elect_def)
    moreover have "rn_state n = Leader \<Longrightarrow> (i, ?t) \<in> b_leads b \<and> leader_phase (p_phase p)"
      using hv(4) t fields(3,6) by (auto split: if_splits)
    moreover have "phase_ok ms ?b i (p_phase p)" using fields(5) by (rule phase_ok_mono) auto
    ultimately show ?thesis
      using h a t g(3) by (intro votes [OF ok, of p' ?t ?x "rn_state n" ?b]) auto
  next
    case False
    show ?thesis
    proof (cases "va_term a > b_term b i")
      case True
      with hv(6) [OF False] hv(1-4) fields(1-3) have "elect n = (i, filter (\<lambda>q. q \<noteq> i) ms, va_term a, [], Follower)"
        by (simp add: elect_def)
      with True False h fields(5) show ?thesis by (intro advances [OF ok]) auto
    next
      case notgt: False
      with hv(6) [OF False] hv(1-4) fields(3) have "elect n = elect (p_node p)" by (simp add: elect_def)
      with False h show ?thesis by (intro stutters_same [OF ok]) auto
    qed
  qed
qed

lemma vote_answer_implements:
  assumes ok: "proc_ok ms b i p" and ms: "members_ok ms" "i \<in> set ms" and a: "vr_voteGranted r \<longrightarrow> (v, t, i) \<in> b_votes b"
    and step: "receive (VoteAnswer i v t r) x p = Moves (p', sent, rs)"
  shows "implements ms b i p' sent"
proof (cases "\<exists>el. p_phase p = InElection el \<and> el_term el = t \<and> v \<in> set (el_waiting el)")
  case False
  with step have "p' = p" "sent = []" by (auto split: phase.splits if_splits)
  then show ?thesis by (intro stutters) (simp_all add: ok)
next
  case True
  then obtain el where el: "p_phase p = InElection el" "el_term el = t" "v \<in> set (el_waiting el)" by blast
  note fields = proc_ok_fields [OF ok]
  let ?el = "el\<lparr>el_waiting := remove1 v (el_waiting el)\<rparr>"
  have e: "election_ok ms b i ?el" using fields(5) el(1) by (simp add: election_ok_remove1)
  consider (high) "vr_term r > b_term b i" | (count) "vr_term r \<le> b_term b i" "vr_voteGranted r"
    | (none) "vr_term r \<le> b_term b i" "\<not> vr_voteGranted r" by linarith
  then show ?thesis
  proof cases
    case high
    with step el fields(1-3) have "sent = []" "p_phase p' = InElection (?el\<lparr>el_steppedDown := True\<rparr>)"
        "elect (p_node p') = (i, filter (\<lambda>q. q \<noteq> i) ms, vr_term r, [], Follower)"
      by (auto simp: vote_reply_received_def elect_def)
    with high e show ?thesis by (intro advances [OF ok]) (auto simp: election_ok_def)
  next
    case count
    let ?el' = "?el\<lparr>el_votes := el_votes el + 1, el_won := el_won el \<or> el_votes el + 1 \<ge> majority (p_node p)\<rparr>"
    from step el fields(3) count have p': "sent = []" "p' = p\<lparr>p_phase := InElection ?el'\<rparr>"
      by (auto simp: vote_reply_received_def)
    have "election_ok ms b i ?el'"
    proof -
      from fields(5) el(1) obtain S where S: "S \<subseteq> set ms - set (el_waiting el)" "card S = el_votes el"
          "\<forall>w \<in> S. (w, el_term el, i) \<in> b_votes b" and w: "distinct (el_waiting el)" "set (el_waiting el) \<subseteq> set ms"
        by (auto simp: election_ok_def)
      have "finite S" "v \<notin> S" using S(1) el(3) by (auto intro: finite_subset)
      with S w el a count(2) have "insert v S \<subseteq> set ms - set (el_waiting ?el)" "card (insert v S) = el_votes el + 1"
          "\<forall>w \<in> insert v S. (w, el_term el, i) \<in> b_votes b"
        by (auto simp: set_remove1_eq)
      with e majority_members [of ms i "p_node p"] ms fields(2) show ?thesis
        unfolding election_ok_def by (auto simp: members_ok_def intro!: exI [of _ "insert v S"])
    qed
    with p' el fields(6) elect_self [of "p_node p"] show ?thesis
      using changes_role [OF ok, of p' "rn_state (p_node p)"] by auto
  next
    case none
    with step el fields(3) have "sent = []" "p' = p\<lparr>p_phase := InElection ?el\<rparr>"
      by (auto simp: vote_reply_received_def)
    with e el fields(6) elect_self [of "p_node p"] show ?thesis
      using changes_role [OF ok, of p' "rn_state (p_node p)"] by auto
  qed
qed

text \<open>A message of a leader of term \<open>t\<close> at a node that keeps its vote.\<close>

lemma recognize_implements:
  assumes ok: "proc_ok ms b i p"
    and n: "elect (p_node p') = (if t < rn_currentTerm (p_node p) then elect (p_node p) else elect (recognize t (p_node p)))"
    and lead: "(j, t) \<in> b_leads b" "i \<noteq> j" and keeps: "keeps_vote t (p_node p)"
    and same: "p_phase p' = p_phase p" and sent: "\<forall>m \<in> set sent. msg_ok b m"
  shows "implements ms b i p' sent"
proof -
  note fields = proc_ok_fields [OF ok]
  consider (old) "t < b_term b i \<or> t = b_term b i \<and> rn_state (p_node p) = Follower" | (new) "b_term b i < t"
    | (eq) "t = b_term b i" "rn_state (p_node p) \<noteq> Follower" by linarith
  then show ?thesis
  proof cases
    case old
    with n fields(3) have "elect (p_node p') = elect (p_node p)" by (auto simp: recognize_def split: if_splits)
    then show ?thesis using same sent by (rule stutters_same [OF ok])
  next
    case new
    with n fields(1-3) have "elect (p_node p') = (i, filter (\<lambda>q. q \<noteq> i) ms, t, [], Follower)"
      by (auto simp: recognize_def elect_def)
    with new same sent fields(5) show ?thesis by (intro advances [OF ok]) auto
  next
    case eq
    with n fields(1-3) have "elect (p_node p') = (i, filter (\<lambda>q. q \<noteq> i) ms, b_term b i, [], Follower)"
      by (auto simp: recognize_def elect_def)
    moreover have "b_vote b i = [] \<or> b_vote b i = i" using keeps eq fields(1,3,4) by (auto simp: keeps_vote_def)
    ultimately show ?thesis using lead eq same sent by (intro clears [OF ok]) auto
  qed
qed

lemma receive_implements:
  assumes ok: "proc_ok ms b i p" and ms: "members_ok ms" "i \<in> set ms" and m: "msg_ok b m" "addressee m = i"
    and clean: "clean_message m p" and step: "receive m x p = Moves (p', sent, rs)"
  shows "implements ms b i p' sent"
proof (cases m)
  case (VoteCall v a)
  with m step show ?thesis by (intro vote_call_implements [OF ok]) auto
next
  case (VoteAnswer c v t r)
  with m step show ?thesis by (intro vote_answer_implements [OF ok ms, of r v t]) auto
next
  case (AppendCall q a)
  with step obtain n r where "HandleAppendEntries a (p_node p) = Some (n, r)" "p' = p\<lparr>p_node := n\<rparr>"
      "sent = [AppendAnswer (aa_leaderID a) q a r]" by (auto simp: try_go_def split: option.splits)
  with AppendCall m clean HandleAppendEntries_elect(1) [of a "p_node p" n r] show ?thesis
    by (intro recognize_implements [OF ok, of p' "aa_term a" "aa_leaderID a"]) auto
next
  case (AppendAnswer l q a r)
  then show ?thesis
    using step stutters [OF ok, of "[]"] sendAppend_end_elect [of q a r "p_node p"]
    by (auto simp: try_go_def split: option.splits if_splits intro!: deposed_implements [OF ok])
next
  case (InstallCall q a)
  with step obtain n r where "HandleInstallSnapshot a x (p_node p) = Some (n, r)" "p' = p\<lparr>p_node := n\<rparr>"
      "sent = [InstallAnswer (ia_leaderID a) q a r]" by (auto simp: try_go_def split: option.splits)
  with InstallCall m clean HandleInstallSnapshot_elect [of a x "p_node p" n r] show ?thesis
    by (intro recognize_implements [OF ok, of p' "ia_term a" "ia_leaderID a"]) auto
next
  case (InstallAnswer l q a r)
  then show ?thesis
    using step stutters [OF ok, of "[]"] sendInstallSnapshot_end_elect [of q a r "p_node p"]
    by (auto simp: try_go_def split: option.splits if_splits intro!: deposed_implements [OF ok])
qed

section \<open>Clean runs refine the specification\<close>

lemma implements_sim:
  assumes sim: "sim ms c b" and impl: "implements ms b i p' sent" and net: "set net \<subseteq> set (cl_net c)"
  shows "\<exists>b'. (b' = b \<or> ballot_step (majority_of ms) b b') \<and> extends i b b' \<and>
     sim ms \<lparr>cl_procs = (cl_procs c)(i := p'), cl_net = net @ sent, cl_results = res\<rparr> b'"
proof -
  from impl obtain b' where b': "b' = b \<or> ballot_step (majority_of ms) b b'" "extends i b b'" "proc_ok ms b' i p'"
      "\<forall>m \<in> set sent. msg_ok b' m" unfolding implements_def by blast
  moreover from sim b' net have "sim ms \<lparr>cl_procs = (cl_procs c)(i := p'), cl_net = net @ sent, cl_results = res\<rparr> b'"
    by (auto simp: sim_def intro: proc_ok_extends msg_ok_extends)
  ultimately show ?thesis by blast
qed

lemma act_refines:
  assumes sim: "sim ms c b" and ms: "members_ok ms" and clean: "clean a c" and act: "act ms a c = Moves c'"
  shows "\<exists>i b'. (b' = b \<or> ballot_step (majority_of ms) b b') \<and> extends i b b' \<and> sim ms c' b'"
proof (cases a)
  case (Local i l)
  with act obtain p' sent rs where e: "perform l (cl_procs c i) = Moves (p', sent, rs)" "i \<in> set ms"
      "c' = \<lparr>cl_procs = (cl_procs c)(i := p'), cl_net = cl_net c @ sent, cl_results = cl_results c @ rs\<rparr>"
    by (auto simp: commit_effect_def split: if_splits outcome.splits)
  have "implements ms b i p' sent"
    using sim e clean Local ms by (intro perform_implements) (auto simp: sim_def)
  from implements_sim [OF sim this] e(3) show ?thesis by blast
next
  case (Deliver m x)
  let ?i = "addressee m"
  from Deliver act obtain p' sent rs where e: "receive m x (cl_procs c ?i) = Moves (p', sent, rs)" "?i \<in> set ms" "m \<in> set (cl_net c)"
      "c' = \<lparr>cl_procs = (cl_procs c)(?i := p'), cl_net = remove1 m (cl_net c) @ sent, cl_results = cl_results c @ rs\<rparr>"
    by (auto simp: commit_effect_def split: if_splits outcome.splits)
  have "implements ms b ?i p' sent"
    using sim e clean Deliver ms by (intro receive_implements [OF _ ms e(2)]) (auto simp: sim_def)
  from implements_sim [OF sim this, of "remove1 m (cl_net c)"] e(4) show ?thesis
    by (meson set_remove1_subset)
qed

lemma boot_sim: "sim ms (boot ms) ballots0"
  by (simp add: sim_def boot_def ballots0_def proc_ok_def elect_def NewNode_def)

text \<open>Along a clean run: the ballots satisfy the invariant and remember every leader of the run.\<close>

lemma clean_run_refines:
  "clean_run ms cs \<Longrightarrow> members_ok ms \<Longrightarrow>
     \<exists>b. (ballot_step (majority_of ms))\<^sup>*\<^sup>* ballots0 b \<and> ballot_inv (majority_of ms) b \<and> sim ms (hd cs) b \<and>
         (\<forall>c \<in> set cs. \<forall>i \<in> set ms. \<forall>t. leads c i t \<longrightarrow> (i, t) \<in> b_leads b)"
proof (induction rule: clean_run.induct)
  case boot
  have "\<not> leads (boot ms) i t" for i t by (simp add: leads_def boot_def NewNode_def)
  then show ?case using boot_sim ballot_inv0 by fastforce
next
  case (step c cs a c')
  then obtain b where b: "(ballot_step (majority_of ms))\<^sup>*\<^sup>* ballots0 b" "ballot_inv (majority_of ms) b" "sim ms c b"
      "\<forall>c \<in> set (c # cs). \<forall>i \<in> set ms. \<forall>t. leads c i t \<longrightarrow> (i, t) \<in> b_leads b" by auto
  from act_refines [OF b(3) step.prems step.hyps(2,3)] obtain i b' where
    b': "b' = b \<or> ballot_step (majority_of ms) b b'" "extends i b b'" "sim ms c' b'" by blast
  have "leads c' j t \<longrightarrow> (j, t) \<in> b_leads b'" if "j \<in> set ms" for j t
    using b'(3) that proc_ok_fields(3,6) [of ms b' j "cl_procs c' j"] by (auto simp: sim_def leads_def)
  moreover have "ballot_inv (majority_of ms) b'" using b'(1) b(2) maj.step_inv by blast
  moreover have "(ballot_step (majority_of ms))\<^sup>*\<^sup>* ballots0 b'" using b(1) b'(1) by (auto intro: rtranclp.rtrancl_into_rtrancl)
  ultimately show ?case using b' b(4) by (intro exI [of _ b']) (auto simp: extends_def)
qed

lemma clean_run_one_leader:
  assumes "clean_run ms cs" "members_ok ms" "c \<in> set cs" "d \<in> set cs" "i \<in> set ms" "j \<in> set ms" "leads c i t" "leads d j t"
  shows "i = j"
  using clean_run_refines [OF assms(1,2)] assms(3-) maj.one_led by metis

text \<open>A clean run computed from its actions.\<close>

fun visit :: "string list \<Rightarrow> action list \<Rightarrow> cluster list \<Rightarrow> cluster list option" where
  "visit ms [] cs = Some cs"
| "visit ms (a # as) cs =
     (case cs of
        [] \<Rightarrow> None
      | c # _ \<Rightarrow>
          (if clean a c then (case act ms a c of Moves c' \<Rightarrow> visit ms as (c' # cs) | _ \<Rightarrow> None) else None))"

lemma visit_clean: "clean_run ms cs \<Longrightarrow> visit ms as cs = Some cs' \<Longrightarrow> clean_run ms cs'"
  by (induction as arbitrary: cs) (auto split: list.splits if_splits outcome.splits intro: clean_run.step)

text \<open>\<open>a\<close> leads term 1, \<open>c\<close> follows it, and then leads term 2 with the vote of \<open>b\<close>.\<close>

definition succession :: "action list" where
  "succession =
     wins ''a'' ''b'' ''c'' 1 @
     [Local ''a'' (ReplicateTo ''c'' False), Deliver (AppendCall ''c'' (heartbeat ''a'' 1)) True] @
     wins ''c'' ''b'' ''a'' 2"

lemma succession_clean:
  "\<exists>cs. clean_run abc cs \<and> (\<exists>c \<in> set cs. leads c ''a'' 1) \<and> leads (hd cs) ''c'' 2 \<and> hd cs \<in> set cs"
proof -
  have "case visit abc succession [boot abc] of None \<Rightarrow> False
      | Some cs \<Rightarrow> list_ex (\<lambda>c. leads c ''a'' 1) cs \<and> leads (hd cs) ''c'' 2 \<and> 0 < length cs"
    by code_simp
  then obtain cs where "visit abc succession [boot abc] = Some cs"
      "list_ex (\<lambda>c. leads c ''a'' 1) cs" "leads (hd cs) ''c'' 2" "cs \<noteq> []"
    by (auto split: option.splits)
  with visit_clean [OF clean_run.boot, of abc succession cs] show ?thesis
    by (intro exI [of _ cs]) (auto simp: list_ex_iff)
qed

lemma abc_ok: "members_ok abc"
  by code_simp

section \<open>Election safety\<close>

text \<open>
  C5: at most one coordinator leads a term, at any two moments of a run that keeps to the protocol at the two
  places of \<open>runCandidate\<close> and rule 2: a won election is taken in its own term, and no message of the
  current term makes a node forget a vote for another.  The cluster may have any number of members; messages
  may be lost, delayed and reordered, calls may fail, timers may fire at any time, and elections,
  replication, snapshots, proposals and the apply loop interleave freely.
\<close>

theorem one_leader_per_term:
  assumes "clean_run ms cs" "members_ok ms" "c \<in> set cs" "d \<in> set cs" "i \<in> set ms" "j \<in> set ms" "leads c i t" "leads d j t"
  shows "i = j"
  using assms by (rule clean_run_one_leader)

theorem one_leader_per_term_witness:
  "\<exists>cs. clean_run abc cs \<and> leads (hd cs) ''c'' 2 \<and> {j \<in> set abc. \<exists>d \<in> set cs. leads d j 1} = {''a''}"
proof -
  obtain cs c where cs: "clean_run abc cs" "c \<in> set cs" "leads c ''a'' 1" "leads (hd cs) ''c'' 2"
    using succession_clean by blast
  have a: "''a'' \<in> set abc" by (simp add: abc_def)
  from one_leader_per_term [OF cs(1) abc_ok _ cs(2) _ a _ cs(3)] cs a show ?thesis by blast
qed

text \<open>
  C7: a run that keeps to the protocol implements the voting specification of \<open>Raft_Ballots\<close>: there is a
  run of that specification, with majorities of the members as its quorums, that ends in the terms and votes
  of the coordinators and whose history of leaders contains every coordinator that led a term at any moment
  of the run.
\<close>

theorem clean_runs_refine_voting:
  assumes "clean_run ms cs" "members_ok ms"
  shows "\<exists>b. (ballot_step (majority_of ms))\<^sup>*\<^sup>* ballots0 b \<and>
     (\<forall>i \<in> set ms. b_term b i = rn_currentTerm (p_node (cl_procs (hd cs) i)) \<and>
                   b_vote b i = rn_votedFor (p_node (cl_procs (hd cs) i))) \<and>
     (\<forall>c \<in> set cs. \<forall>i \<in> set ms. \<forall>t. leads c i t \<longrightarrow> (i, t) \<in> b_leads b)"
proof -
  obtain b where b: "(ballot_step (majority_of ms))\<^sup>*\<^sup>* ballots0 b" "sim ms (hd cs) b"
      "\<forall>c \<in> set cs. \<forall>i \<in> set ms. \<forall>t. leads c i t \<longrightarrow> (i, t) \<in> b_leads b"
    using clean_run_refines [OF assms] by blast
  have "b_term b i = rn_currentTerm (p_node (cl_procs (hd cs) i)) \<and> b_vote b i = rn_votedFor (p_node (cl_procs (hd cs) i))"
    if "i \<in> set ms" for i
    using b(2) that proc_ok_fields(3,4) [of ms b i "cl_procs (hd cs) i"] by (simp add: sim_def)
  with b show ?thesis by blast
qed

theorem clean_runs_refine_voting_witness:
  "\<exists>b. (ballot_step (majority_of abc))\<^sup>*\<^sup>* ballots0 b \<and> {(''a'', 1), (''c'', 2)} \<subseteq> b_leads b"
proof -
  obtain cs c where cs: "clean_run abc cs" "c \<in> set cs" "leads c ''a'' 1" "leads (hd cs) ''c'' 2" "hd cs \<in> set cs"
    using succession_clean by blast
  have "''a'' \<in> set abc" "''c'' \<in> set abc" by (simp_all add: abc_def)
  with clean_runs_refine_voting [OF cs(1) abc_ok] cs show ?thesis by blast
qed

section \<open>What the observer sees\<close>

lemma node_snapshot_view [simp]:
  "d_state (node_snapshot n) = Some ''leader'' \<longleftrightarrow> rn_state n = Leader"
  "d_current_term (node_snapshot n) = Some (rn_currentTerm n)"
  by (cases "rn_state n", simp_all add: node_snapshot_def)

text \<open>
  C8: the observer raises no split-brain alarm over a run that keeps to the protocol.  The answers of one poll
  may come from different moments of the run, one per coordinator, and any coordinator may fail to
  answer: \<open>split_brain_message\<close> of the snapshot the cluster client builds is \<open>None\<close>.
\<close>

theorem clean_cluster_never_alarms:
  assumes "clean_run ms cs" "members_ok ms"
    and "\<forall>i \<in> set ms. (\<exists>e. http (state_url i) = Inl e) \<or>
           (\<exists>c \<in> set cs. http (state_url i) = Inr (node_snapshot (p_node (cl_procs c i))))"
  shows "split_brain_message (poll http clk ms) = None"
proof -
  have polled: "\<exists>c \<in> set cs. leads c (ms ! x) (current_term (nodes (poll http clk ms) ! x))"
    if x: "x < length ms" "is_leader (nodes (poll http clk ms) ! x)" for x
  proof -
    from x have "is_leader (poll_one http (clk x) (ms ! x))" by (simp add: poll_def)
    then obtain c where "c \<in> set cs" "http (state_url (ms ! x)) = Inr (node_snapshot (p_node (cl_procs c (ms ! x))))"
      using assms(3) nth_mem [OF x(1)]
      by (auto simp: poll_one_def is_leader_def unreachable_def split: sum.splits)
    with x show ?thesis by (intro bexI [of _ c]) (simp_all add: poll_def poll_one_Inr leads_def get_or_def)
  qed
  have "\<not> split_brain (poll http clk ms)"
  proof
    assume "split_brain (poll http clk ms)"
    then obtain x y where xy: "x < y" "y < length ms" "is_leader (nodes (poll http clk ms) ! x)"
        "is_leader (nodes (poll http clk ms) ! y)"
        "current_term (nodes (poll http clk ms) ! x) = current_term (nodes (poll http clk ms) ! y)"
      unfolding split_brain_def by (auto simp: poll_def)
    have x: "x < length ms" using xy by simp
    from polled [OF x xy(3)] polled [OF xy(2,4)] obtain c d where
      "c \<in> set cs" "d \<in> set cs" "leads c (ms ! x) (current_term (nodes (poll http clk ms) ! y))"
      "leads d (ms ! y) (current_term (nodes (poll http clk ms) ! y))" unfolding xy(5) by blast
    from clean_run_one_leader [OF assms(1,2) this(1,2) nth_mem [OF x] nth_mem [OF xy(2)] this(3,4)]
    have "ms ! x = ms ! y" .
    with xy assms(2) show False by (simp add: members_ok_def nth_eq_iff_index_eq)
  qed
  then show ?thesis by (simp add: split_brain_message_None)
qed

theorem clean_cluster_never_alarms_witness:
  "\<exists>cs. clean_run abc cs \<and> leads (hd cs) ''c'' 2 \<and>
     split_brain_message (poll (served (hd cs) abc) (\<lambda>_. 0) abc) = None"
proof -
  obtain cs where cs: "clean_run abc cs" "leads (hd cs) ''c'' 2" "hd cs \<in> set cs"
    using succession_clean by blast
  have "\<forall>i \<in> set abc. (\<exists>e. served (hd cs) abc (state_url i) = Inl e) \<or>
      (\<exists>c \<in> set cs. served (hd cs) abc (state_url i) = Inr (node_snapshot (p_node (cl_procs c i))))"
    using cs(3) by (auto simp: served_def abc_def state_url_def)
  from clean_cluster_never_alarms [OF cs(1) abc_ok this] cs show ?thesis by blast
qed

end
