(* ===== verification/Spec2Isabelle.thy ===== *)
theory Spec2Isabelle
  imports Observer Alerts_Live Workers Exp1_Repeat Exp4 Typed Plot_Exp2 History_File
    Run_Files Plot_Marks Raft_Safety
begin

text \<open>
  A verification development for Driftless: the Python programs and the consensus core of the Go
  coordinator they observe.  The programs are the \<^emph>\<open>state observer\<close>, which watches
  a cluster of Raft coordinators; \<^emph>\<open>chaos-bench\<close>, which loads the cluster, injects faults and analyses
  what happened, with the linearizability checker it calls; and the collector and the figures under
  \<open>experiments\<close>.

  \<^bold>\<open>The programs and how they interact.\<close>
  The coordinators elect a leader, replicate a log of commands and apply it (\<open>raft/node.go\<close>,
  \<open>raft/snapshot.go\<close>); they answer \<open>GET /state\<close> and keep a row each in the DynamoDB \<^emph>\<open>peers\<close> table; tasks live
  in the \<^emph>\<open>tasks\<close> table.  The observer polls all coordinators into a snapshot (\<open>raft_client.py\<close>),
  checks it for anomalies (\<open>alerts.py\<close>), publishes metrics (\<open>metrics.py\<close>) and renders a terminal
  dashboard (\<open>dashboard.py\<close>); \<open>main.py\<close> drives this loop beside a second one that re-reads the
  addresses from the peers table (\<open>peers.py\<close>).  In chaos-bench, concurrent threads submit tasks
  (\<open>submitter.py\<close>), poll them (\<open>bench.py\<close>, \<open>exp3.py\<close>), track the leader (\<open>leader_tracker.py\<close>) and kill
  tasks (\<open>chaos.py\<close>, \<open>leader_detect.py\<close>); all of them append to one history file (\<open>recorder.py\<close>),
  which the analyses and figures read afterwards (\<open>exp1.py\<close>, \<open>exp3.py\<close>, \<open>plot.py\<close>, \<open>dup_scan.py\<close>,
  \<open>divergence_scan.py\<close>, \<open>experiments/lincheck/main.go\<close> and \<open>experiments/exp3/plot_exp3.py\<close>).
  Experiment 4 follows the recovery of a killed follower in the coordinators' logs (\<open>exp4.py\<close>,
  \<open>follower_recovery.py\<close>).  Experiment 2 reads the tasks table (\<open>collect.py\<close>), appends a row per run to
  a CSV file and draws it (\<open>plot_exp2.py\<close>).

  \<^bold>\<open>How effects are modelled.\<close>
  Python exceptions are values of \<open>py_error\<close>, a fallible function returns \<open>py_error + 'a\<close>.
  A \<open>world\<close> (theory \<open>World\<close>) holds the clock in nanoseconds and the number of effects so far; each
  effect (a clock reading, a sleep, a remote call) lets an arbitrary amount of time pass, and the
  answer of a remote call is a function of the number of the call.  So a theorem over all worlds and
  all answer functions holds for every timing and every behaviour of the services.  AWS, HTTP,
  random choice, numpy and Porcupine are such parameters; where a theorem relies on what one of them
  documents, this is a named hypothesis (\<open>honest_batch\<close>, \<open>progressing\<close>, \<open>keyed\<close> for BatchGetItem,
  \<open>porcupine_correct\<close> for Porcupine).  Floating point time is modelled by reals.
  Threads are modelled by their own traces; a history is any interleaving of them (theory
  \<open>Interleaving\<close>).  A loop with a deadline is \<open>deadline_loop\<close>, a \<open>partial_function (option)\<close>, and the
  locale \<open>deadline_poll\<close> proves once that it returns when each turn takes a minimum of time; no
  fuel is used anywhere.  A stop event is the time at which another thread sets it (\<open>Workers\<close>,
  \<open>Exp1_Run\<close>); for the observer, the tracker and the injection loops of experiment 3 the sequence, or the
  number, of turns before the stop is an argument.

  \<^bold>\<open>Theories.\<close>
  \<^item> \<open>Py_Prelude\<close>, \<open>Py_Strings\<close>, \<open>Py_Regex\<close>, \<open>Py_Datetime\<close>, \<open>Py_Json\<close>: results, dictionaries that keep insertion
    order, grouping, and what the sources use of Python's strings, \<open>re\<close>, \<open>datetime\<close> and \<open>json\<close>, with their laws
    (\<open>loads\<close> reads back what \<open>dumps\<close> writes).
  \<^item> \<open>World\<close>, \<open>Interleaving\<close>, \<open>Stats\<close>: clock and calls, interleavings, percentiles (locale
    \<open>percentile_index\<close>) and means.
  \<^item> \<open>Raft_Node\<close>: one coordinator, a definition per mutex section of \<open>Node\<close>; on logs with consecutive indices
    no operation panics, what the append handler leaves, which index the leader commits.
  \<^item> \<open>Raft_Cluster\<close>: the coordinators' goroutines as processes over a network that loses and reorders
    messages; one action per lock section, channel receive or failed call.
  \<^item> \<open>Raft_Runs\<close>: no run panics; runs to two leaders of one term, to a lost proposal that is reported as
    committed, and to deposed leaders that never stand for election again.
  \<^item> \<open>Raft_Ballots\<close>, \<open>Raft_Safety\<close>: voting with quorums as an abstract specification (locale \<open>quorums\<close>,
    interpreted by majorities), the simulation by the coordinators when they avoid the two faults of
    \<open>Raft_Runs\<close>, one leader per term, and the silence of the observer over such runs.
  \<^item> \<open>Raft_Client\<close>: \<open>NodeState\<close>, \<open>ClusterSnapshot\<close> and the poll; a poll accounts for all addresses,
    the split-brain message is exact.
  \<^item> \<open>Alerts\<close>, \<open>Alerts_Live\<close>: \<open>AlertManager\<close>; what a check reports, the spacing of notifications (locale
    \<open>rate_limited\<close>), the leaderless timer, quorum intersection, silence after a cold start, and that a
    lasting outage is announced for ever.
  \<^item> \<open>Metrics\<close>: \<open>MetricsPublisher\<close>; no datum is lost, duplicated or reordered on the way to
    CloudWatch, publishing keeps its interval, what the gauges show, and that they keep showing a
    crashed leader.
  \<^item> \<open>Dashboard\<close>: the panels, the commit rate, and that the constructor raises.
  \<^item> \<open>Observer_Config\<close>, \<open>Observer\<close>: the configuration, the address resolution and the two loops of
    \<open>main.py\<close>, with the invariants of the parts kept under every interleaving.
  \<^item> \<open>History\<close>, \<open>Submitter\<close>, \<open>Bench\<close>, \<open>Workers\<close>: the recorder, submission (a task is stored before it is
    announced), polling to completion, pacing, and the submission loops with their stop events.
  \<^item> \<open>History_File\<close>: the history as the text of its file and the recorder as an object; the text refines the
    sequence of events, so the analyses may be stated on the latter, and a file only grows by whole lines.
  \<^item> \<open>Leader_Detect\<close>, \<open>Chaos\<close>: \<open>find_leader\<close>, the tracker, the injector and the injection loops.
  \<^item> \<open>Scans\<close>: the two table scans (locale \<open>batch_visitor\<close> for their common retry loop).
  \<^item> \<open>Exp1_Analysis\<close>, \<open>Exp1_Run\<close>, \<open>Exp1_Repeat\<close>: experiment 1, its analysis against all the threads of a
    run, the reset of the cluster and the repeat driver.
  \<^item> \<open>Exp3\<close>, \<open>Exp3_Run\<close>, \<open>Exp3_Threads\<close>: experiment 3, the traced poll, the checker \<open>lincheck\<close> on any
    interleaving of polls, and the summary of a whole run.
  \<^item> \<open>Recovery\<close>, \<open>Exp4\<close>: the recovery observer (termination, what its milestones mean, that it is blind to
    the coordinator's JSON lines) and experiment 4 (at most one task stopped, never the leader's).
  \<^item> \<open>Collect\<close>, \<open>Plot_Exp2\<close>: the collector of experiment 2 (timestamps, latencies, CSV read back) and what
    its figures and score card show.
  \<^item> \<open>Py_Argparse\<close>, \<open>Cli\<close>: \<open>argparse\<close> as far as the sources use it, and the command lines of \<open>main.py\<close>, \<open>exp1.py\<close>,
    \<open>exp3.py\<close>, \<open>exp4.py\<close> and \<open>collect.py\<close>: options in any order are read back, refused lines exit with 2.
  \<^item> \<open>Plot\<close>, \<open>Plot_Exp3\<close>: the statistics of \<open>plot.py\<close> and the figures of experiment 3 (the timeline counts
    tasks, what an all-green figure means); \<open>Plot_Marks\<close>: their annotations, the two figures mark the same faults.
  \<^item> \<open>Run_Files\<close>: the files that the analyses and figures of a run read and write, and the way from a run of
    experiment 3 through its analysis to its figures.
  \<^item> \<open>Typed\<close>: every thread writes lines with the fields its readers need, so no reader raises (locale
    \<open>typed_turn\<close>), and the figures of a bench run.

  \<^bold>\<open>Not modelled.\<close>
  JSON text other than the history file (documents are JSON values or records of their fields), logging and
  terminal layout, the separator \<open>--\<close> of command lines, the drawing of figures, the thread pools' queues (any
  interleaving is allowed) and joins that give up on a slow thread.  Of the Go services the consensus node, the
  checker and the log line that experiment 4 reads are modelled; the dispatcher, the transport, the S3 store,
  the ingest API, the workers and the infrastructure are not: they are calls to AWS, gRPC and HTTP.  The
  coordinator's state machine and snapshot store are parameters, and a coordinator does not restart within a
  run (a restart loses the votes since the last snapshot, so the election theorems would not hold across it).
\<close>

end
